(* ===== verification/Prelude.thy ===== *)
theory Prelude
  imports Main "HOL-Library.Word" "HOL-Library.Sublist"
begin

text \<open>
  Shared vocabulary of the development: the machine types of the Rust sources, results
  with errors, and the operations of Rust's \<open>str\<close>, \<open>char\<close> and integer parsing that the
  components use.

  A Rust \<open>String\<close> is its sequence of UTF-8 bytes, one \<open>char\<close> of HOL per byte, so
  \<open>length\<close> is Rust's \<open>len()\<close>. Operations that work per Unicode character go through
  \<open>utf8_chars\<close>, which splits a string at the lead bytes.
\<close>

unbundle bit_operations_syntax

named_theorems rust_str \<open>facts about Rust string operations\<close>
named_theorems res_simps \<open>unfolding of results and early returns\<close>

section \<open>Machine types and results\<close>

type_synonym byte = "8 word"
type_synonym u16 = "16 word"
type_synonym u32 = "32 word"
type_synonym u64 = "64 word"

text \<open>\<open>rbind\<close> is the early return of Rust's question-mark operator: \<open>Inl\<close> is the error.\<close>

fun rbind :: "'e + 'a \<Rightarrow> ('a \<Rightarrow> 'e + 'b) \<Rightarrow> 'e + 'b" where
  "rbind (Inl e) f = Inl e"
| "rbind (Inr a) f = f a"

definition ensure :: "bool \<Rightarrow> 'e \<Rightarrow> 'e + unit" where
  "ensure ok e = (if ok then Inr () else Inl e)"

definition ok_or :: "'e \<Rightarrow> 'a option \<Rightarrow> 'e + 'a" where
  "ok_or e m = (case m of None \<Rightarrow> Inl e | Some a \<Rightarrow> Inr a)"

fun is_ok :: "'e + 'a \<Rightarrow> bool" where
  "is_ok (Inr _) = True"
| "is_ok (Inl _) = False"

fun result_ok :: "'e + 'a \<Rightarrow> 'a option" where
  "result_ok (Inr a) = Some a"
| "result_ok (Inl _) = None"

lemma rbind_Inr_iff [res_simps]: "rbind m f = Inr b \<longleftrightarrow> (\<exists>a. m = Inr a \<and> f a = Inr b)"
  by (cases m) auto

lemma rbind_Inl_iff [res_simps]:
  "rbind m f = Inl e \<longleftrightarrow> m = Inl e \<or> (\<exists>a. m = Inr a \<and> f a = Inl e)"
  by (cases m) auto

lemma ensure_Inr [res_simps, simp]: "ensure ok e = Inr u \<longleftrightarrow> ok"
  by (simp add: ensure_def)

lemma ensure_Inl [res_simps, simp]: "ensure ok e = Inl e' \<longleftrightarrow> \<not> ok \<and> e' = e"
  by (auto simp: ensure_def)

lemma ok_or_Inr [res_simps, simp]: "ok_or e m = Inr a \<longleftrightarrow> m = Some a"
  by (auto simp: ok_or_def split: option.splits)

lemma is_ok_iff: "is_ok r \<longleftrightarrow> (\<exists>a. r = Inr a)"
  by (cases r) auto

section \<open>Characters and ASCII\<close>

definition code :: "char \<Rightarrow> nat" where
  "code c = of_char c"

definition is_ascii :: "char \<Rightarrow> bool" where
  "is_ascii c \<longleftrightarrow> code c < 128"

definition is_ascii_digit :: "char \<Rightarrow> bool" where
  "is_ascii_digit c \<longleftrightarrow> 48 \<le> code c \<and> code c \<le> 57"

definition is_ascii_hexdigit :: "char \<Rightarrow> bool" where
  "is_ascii_hexdigit c \<longleftrightarrow> is_ascii_digit c
     \<or> (65 \<le> code c \<and> code c \<le> 70) \<or> (97 \<le> code c \<and> code c \<le> 102)"

definition is_ascii_whitespace :: "char \<Rightarrow> bool" where
  "is_ascii_whitespace c \<longleftrightarrow> code c \<in> {9, 10, 12, 13, 32}"

definition ascii_lower :: "char \<Rightarrow> char" where
  "ascii_lower c = (if 65 \<le> code c \<and> code c \<le> 90 then char_of (code c + 32) else c)"

definition ascii_upper :: "char \<Rightarrow> char" where
  "ascii_upper c = (if 97 \<le> code c \<and> code c \<le> 122 then char_of (code c - 32) else c)"

definition eq_ignore_ascii_case :: "string \<Rightarrow> string \<Rightarrow> bool" where
  "eq_ignore_ascii_case s t \<longleftrightarrow> map ascii_lower s = map ascii_lower t"

lemma code_char_of: "n < 256 \<Longrightarrow> code (char_of n) = n"
  by (simp add: code_def)

lemma code_inj: "code c = code d \<longleftrightarrow> c = d"
  by (simp add: code_def)

lemma code_less: "code c < 256"
  by (simp add: code_def)

lemma ascii_lower_upper [simp]: "ascii_lower (ascii_upper c) = ascii_lower c"
proof -
  have "code (char_of (code c - 32)) = code c - 32"
    using code_less[of c] by (simp add: code_char_of)
  moreover have "char_of (code c) = c" by (simp add: code_def)
  moreover have "97 \<le> code c \<and> code c \<le> 122 \<Longrightarrow> 65 \<le> code c - 32 \<and> code c - 32 \<le> 90 \<and> code c - 32 + 32 = code c"
    by arith
  ultimately show ?thesis by (auto simp: ascii_lower_def ascii_upper_def)
qed

lemma eq_ignore_ascii_case_refl [simp]: "eq_ignore_ascii_case s s"
  by (simp add: eq_ignore_ascii_case_def)

lemma eq_ignore_ascii_case_sym: "eq_ignore_ascii_case s t \<longleftrightarrow> eq_ignore_ascii_case t s"
  by (auto simp: eq_ignore_ascii_case_def)

lemma eq_ignore_ascii_case_trans:
  "eq_ignore_ascii_case s t \<Longrightarrow> eq_ignore_ascii_case t u \<Longrightarrow> eq_ignore_ascii_case s u"
  by (simp add: eq_ignore_ascii_case_def)

section \<open>Bytes and strings\<close>

definition byte_of_char :: "char \<Rightarrow> byte" where
  "byte_of_char c = word_of_nat (code c)"

definition char_of_byte :: "byte \<Rightarrow> char" where
  "char_of_byte b = char_of (unat b)"

definition as_bytes :: "string \<Rightarrow> byte list" where
  "as_bytes s = map byte_of_char s"

definition string_of_bytes :: "byte list \<Rightarrow> string" where
  "string_of_bytes bs = map char_of_byte bs"

lemma char_of_byte_of_char [simp]: "char_of_byte (byte_of_char c) = c"
  by (simp add: char_of_byte_def byte_of_char_def code_def unat_of_nat)

lemma byte_of_char_of_byte [simp]: "byte_of_char (char_of_byte b) = b"
proof -
  have "unat b < 256" using unsigned_less[of b, where ?'a = nat] by simp
  then show ?thesis by (simp add: char_of_byte_def byte_of_char_def code_char_of)
qed

lemma string_of_as_bytes [simp]: "string_of_bytes (as_bytes s) = s"
  by (simp add: string_of_bytes_def as_bytes_def comp_def map_idI)

lemma as_bytes_string_of [simp]: "as_bytes (string_of_bytes bs) = bs"
  by (simp add: string_of_bytes_def as_bytes_def comp_def map_idI)

lemma length_as_bytes [simp]: "length (as_bytes s) = length s"
  by (simp add: as_bytes_def)

lemma length_string_of_bytes [simp]: "length (string_of_bytes bs) = length bs"
  by (simp add: string_of_bytes_def)

lemma as_bytes_inj [simp]: "as_bytes s = as_bytes t \<longleftrightarrow> s = t"
  by (metis string_of_as_bytes)

lemma as_bytes_Nil [simp]: "as_bytes [] = []" "as_bytes s = [] \<longleftrightarrow> s = []"
  by (simp_all add: as_bytes_def)

section \<open>UTF-8\<close>

text \<open>
  \<open>utf8_valid\<close> is the well-formedness test of \<open>String::from_utf8\<close>: the byte ranges of
  the Unicode standard's table of well-formed sequences (no overlong forms, no surrogates,
  nothing above U+10FFFF).
\<close>

definition is_cont :: "char \<Rightarrow> bool" where
  "is_cont c \<longleftrightarrow> 128 \<le> code c \<and> code c \<le> 191"

definition in_range :: "nat \<Rightarrow> nat \<Rightarrow> char \<Rightarrow> bool" where
  "in_range lo hi c \<longleftrightarrow> lo \<le> code c \<and> code c \<le> hi"

definition second_ok :: "char \<Rightarrow> char \<Rightarrow> bool" where
  "second_ok c d \<longleftrightarrow>
     (if code c = 224 then in_range 160 191 d
      else if code c = 237 then in_range 128 159 d
      else if code c = 240 then in_range 144 191 d
      else if code c = 244 then in_range 128 143 d
      else is_cont d)"

fun utf8_valid :: "string \<Rightarrow> bool" where
  "utf8_valid [] = True"
| "utf8_valid (c # cs) =
     (if is_ascii c then utf8_valid cs
      else if in_range 194 223 c then
        (case cs of d # cs' \<Rightarrow> is_cont d \<and> utf8_valid cs' | _ \<Rightarrow> False)
      else if in_range 224 239 c then
        (case cs of d # e # cs' \<Rightarrow> second_ok c d \<and> is_cont e \<and> utf8_valid cs' | _ \<Rightarrow> False)
      else if in_range 240 244 c then
        (case cs of d # e # f # cs' \<Rightarrow> second_ok c d \<and> is_cont e \<and> is_cont f \<and> utf8_valid cs'
         | _ \<Rightarrow> False)
      else False)"

definition from_utf8 :: "byte list \<Rightarrow> string option" where
  "from_utf8 bs = (let s = string_of_bytes bs in if utf8_valid s then Some s else None)"

lemma from_utf8_as_bytes [simp]: "from_utf8 (as_bytes s) = (if utf8_valid s then Some s else None)"
  by (simp add: from_utf8_def)

lemma from_utf8_Some [rust_str]: "from_utf8 bs = Some s \<longleftrightarrow> utf8_valid s \<and> bs = as_bytes s"
  by (auto simp: from_utf8_def Let_def)

lemma utf8_valid_ascii: "list_all is_ascii s \<Longrightarrow> utf8_valid s"
  by (induction s) auto

text \<open>
  \<open>from_utf8_lossy\<close>: every maximal prefix of a malformed sequence becomes U+FFFD.
  \<open>utf8_step\<close> is the length of the next (well-formed or malformed) sequence.
\<close>

fun utf8_step :: "string \<Rightarrow> nat \<times> bool" where
  "utf8_step [] = (1, False)"
| "utf8_step (c # cs) =
     (if is_ascii c then (1, True)
      else if in_range 194 223 c then
        (case cs of d # _ \<Rightarrow> if is_cont d then (2, True) else (1, False) | _ \<Rightarrow> (1, False))
      else if in_range 224 239 c then
        (case cs of
           d # ds \<Rightarrow>
             if second_ok c d then
               (case ds of e # _ \<Rightarrow> if is_cont e then (3, True) else (2, False) | _ \<Rightarrow> (2, False))
             else (1, False)
         | _ \<Rightarrow> (1, False))
      else if in_range 240 244 c then
        (case cs of
           d # ds \<Rightarrow>
             if second_ok c d then
               (case ds of
                  e # es \<Rightarrow>
                    if is_cont e then
                      (case es of f # _ \<Rightarrow> if is_cont f then (4, True) else (3, False)
                       | _ \<Rightarrow> (3, False))
                    else (2, False)
                | _ \<Rightarrow> (2, False))
             else (1, False)
         | _ \<Rightarrow> (1, False))
      else (1, False))"

definition replacement_char :: string where
  "replacement_char = map char_of [239, 191, 189 :: nat]"

function utf8_lossy :: "string \<Rightarrow> string" where
  "utf8_lossy [] = []"
| "utf8_lossy (c # cs) =
     (let (n, ok) = utf8_step (c # cs)
      in (if ok then take n (c # cs) else replacement_char) @ utf8_lossy (drop (n - 1) cs))"
  by pat_completeness auto
termination
  by (relation "measure length") auto

lemma utf8_valid_append_ascii:
  assumes "is_ascii c"
  shows "utf8_valid (a @ c # b) \<longleftrightarrow> utf8_valid a \<and> utf8_valid b"
proof (induction a rule: length_induct)
  case (1 a)
  have nr: "\<not> is_cont c" "\<not> second_ok d c" for d
    using assms by (auto simp: in_range_def is_cont_def is_ascii_def second_ok_def)
  have vc: "utf8_valid (c # b) \<longleftrightarrow> utf8_valid b" using assms by simp
  show ?case
  proof (cases a)
    case (Cons x xs)
    have IH: "length ys \<le> length xs \<Longrightarrow> utf8_valid (ys @ c # b) \<longleftrightarrow> utf8_valid ys \<and> utf8_valid b" for ys
      using 1 Cons by simp
    show ?thesis
    proof (cases xs)
      case Nil
      then show ?thesis using Cons nr vc
        by (cases b; cases "tl b") (simp_all del: utf8_valid.simps(2) add: utf8_valid.simps(2)[of x])
    next
      case xs: (Cons y ys)
      show ?thesis
      proof (cases ys)
        case Nil
        then show ?thesis using Cons xs nr vc IH[of "[y]"]
          by (cases b) (simp_all del: utf8_valid.simps(2) add: utf8_valid.simps(2)[of x])
      next
        case ys: (Cons z zs)
        then show ?thesis using Cons xs nr vc IH[of "[z]"] IH[of "y # z # zs"] IH[of "z # zs"] IH[of zs]
          IH[of "tl zs"]
          by (cases zs) (simp_all del: utf8_valid.simps(2) add: utf8_valid.simps(2)[of x])
      qed
    qed
  qed (use assms in simp)
qed

lemma utf8_step_valid:
  assumes "utf8_valid (c # cs)"
  shows "\<exists>n. utf8_step (c # cs) = (Suc n, True) \<and> utf8_valid (drop n cs)"
proof -
  consider (1) "is_ascii c" | (2) "\<not> is_ascii c" "in_range 194 223 c"
    | (3) "\<not> is_ascii c" "\<not> in_range 194 223 c" "in_range 224 239 c"
    | (4) "\<not> is_ascii c" "\<not> in_range 194 223 c" "\<not> in_range 224 239 c" "in_range 240 244 c"
    using assms by (auto split: if_splits)
  then show ?thesis
  proof cases
    case 1
    then show ?thesis using assms by (intro exI[of _ 0]) simp
  next
    case 2
    then obtain d ds where "cs = d # ds" "is_cont d" "utf8_valid ds"
      using assms by (cases cs) auto
    then show ?thesis using 2 by (intro exI[of _ 1]) simp
  next
    case 3
    then obtain d e ds where "cs = d # e # ds" "second_ok c d" "is_cont e" "utf8_valid ds"
      using assms by (cases cs; cases "tl cs") auto
    then show ?thesis using 3 by (intro exI[of _ 2]) simp
  next
    case 4
    then obtain d e f ds where "cs = d # e # f # ds" "second_ok c d" "is_cont e" "is_cont f" "utf8_valid ds"
      using assms by (cases cs; cases "tl cs"; cases "tl (tl cs)") auto
    then show ?thesis using 4 by (intro exI[of _ 3]) simp
  qed
qed

lemma utf8_lossy_valid [rust_str]: "utf8_valid s \<Longrightarrow> utf8_lossy s = s"
proof (induction s rule: length_induct)
  case (1 s)
  show ?case
  proof (cases s)
    case (Cons c cs)
    then obtain n where n: "utf8_step (c # cs) = (Suc n, True)" "utf8_valid (drop n cs)"
      using utf8_step_valid 1 by blast
    then have "utf8_lossy (drop n cs) = drop n cs" using 1 Cons by simp
    then show ?thesis using Cons n by (simp del: utf8_step.simps)
  qed simp
qed

text \<open>The characters of a string, each as the string of its bytes.\<close>

function utf8_chars :: "string \<Rightarrow> string list" where
  "utf8_chars [] = []"
| "utf8_chars (c # cs) = (c # takeWhile is_cont cs) # utf8_chars (dropWhile is_cont cs)"
  by pat_completeness auto
termination
  by (relation "measure length") (auto simp: length_dropWhile_le le_imp_less_Suc)

lemma concat_utf8_chars [simp]: "concat (utf8_chars s) = s"
  by (induction s rule: utf8_chars.induct) auto

fun char_is_control :: "string \<Rightarrow> bool" where
  "char_is_control [c] = (code c < 32 \<or> code c = 127)"
| "char_is_control [c, d] = (code c = 194 \<and> 128 \<le> code d \<and> code d \<le> 159)"
| "char_is_control _ = False"

text \<open>\<open>char::is_whitespace\<close>: the Unicode property \<open>White_Space\<close>.\<close>

definition char_is_whitespace :: "string \<Rightarrow> bool" where
  "char_is_whitespace ch \<longleftrightarrow> map code ch \<in>
     {[9], [10], [11], [12], [13], [32], [194, 133], [194, 160], [225, 154, 128],
      [226, 128, 128], [226, 128, 129], [226, 128, 130], [226, 128, 131], [226, 128, 132],
      [226, 128, 133], [226, 128, 134], [226, 128, 135], [226, 128, 136], [226, 128, 137],
      [226, 128, 138], [226, 128, 168], [226, 128, 169], [226, 128, 175], [226, 129, 159],
      [227, 128, 128]}"

definition trim_matches :: "(string \<Rightarrow> bool) \<Rightarrow> string \<Rightarrow> string" where
  "trim_matches P s = concat (rev (dropWhile P (rev (dropWhile P (utf8_chars s)))))"

definition trim :: "string \<Rightarrow> string" where
  "trim s = trim_matches char_is_whitespace s"

definition has_control :: "string \<Rightarrow> bool" where
  "has_control s \<longleftrightarrow> list_ex char_is_control (utf8_chars s)"

text \<open>
  \<open>to_uppercase\<close> and \<open>to_lowercase\<close> map every character; \<open>tbl\<close> stands for the Unicode case
  table on the non-ASCII characters (a table of data of the standard library).
\<close>

definition map_case :: "(char \<Rightarrow> char) \<Rightarrow> (string \<Rightarrow> string) \<Rightarrow> string \<Rightarrow> string" where
  "map_case f tbl s =
     concat (map (\<lambda>ch. if list_all is_ascii ch then map f ch else tbl ch) (utf8_chars s))"

definition to_uppercase :: "(string \<Rightarrow> string) \<Rightarrow> string \<Rightarrow> string" where
  "to_uppercase tbl s = map_case ascii_upper tbl s"

definition to_lowercase :: "(string \<Rightarrow> string) \<Rightarrow> string \<Rightarrow> string" where
  "to_lowercase tbl s = map_case ascii_lower tbl s"

lemma is_cont_not_ascii: "is_cont c \<Longrightarrow> \<not> is_ascii c"
  by (simp add: is_cont_def is_ascii_def)

lemma utf8_chars_ascii [rust_str]: "list_all is_ascii s \<Longrightarrow> utf8_chars s = map (\<lambda>c. [c]) s"
proof (induction s)
  case (Cons c cs)
  have "takeWhile is_cont cs = []" "dropWhile is_cont cs = cs"
    using Cons.prems by (cases cs; auto dest: is_cont_not_ascii)+
  then show ?case using Cons by simp
qed simp

lemma map_case_ascii [rust_str]:
  assumes "list_all is_ascii s"
  shows "map_case f tbl s = map f s"
proof -
  have "concat (map (\<lambda>ch. if list_all is_ascii ch then map f ch else tbl ch) (map (\<lambda>c. [c]) s))
      = map f s"
    using assms by (induction s) simp_all
  then show ?thesis using assms by (simp only: map_case_def utf8_chars_ascii)
qed

section \<open>Searching and splitting\<close>

definition starts_with :: "string \<Rightarrow> string \<Rightarrow> bool" where
  "starts_with p s \<longleftrightarrow> take (length p) s = p"

definition strip_prefix :: "string \<Rightarrow> string \<Rightarrow> string option" where
  "strip_prefix p s = (if starts_with p s then Some (drop (length p) s) else None)"

fun str_contains :: "string \<Rightarrow> string \<Rightarrow> bool" where
  "str_contains [] p \<longleftrightarrow> p = []"
| "str_contains (c # cs) p \<longleftrightarrow> starts_with p (c # cs) \<or> str_contains cs p"

text \<open>\<open>split(c)\<close>: the (at least one) pieces between the separators.\<close>

fun split_on :: "char \<Rightarrow> string \<Rightarrow> string list" where
  "split_on sep [] = [[]]"
| "split_on sep (c # cs) =
     (if c = sep then [] # split_on sep cs
      else (case split_on sep cs of [] \<Rightarrow> [[c]] | p # ps \<Rightarrow> (c # p) # ps))"

text \<open>\<open>split_once(c)\<close>: at the first separator.\<close>

fun split_once :: "char \<Rightarrow> string \<Rightarrow> (string \<times> string) option" where
  "split_once sep [] = None"
| "split_once sep (c # cs) =
     (if c = sep then Some ([], cs)
      else (case split_once sep cs of None \<Rightarrow> None | Some (a, b) \<Rightarrow> Some (c # a, b)))"

fun join_with :: "string \<Rightarrow> string list \<Rightarrow> string" where
  "join_with sep [] = []"
| "join_with sep [s] = s"
| "join_with sep (s # t # ss) = s @ sep @ join_with sep (t # ss)"

definition replace_char :: "char \<Rightarrow> string \<Rightarrow> string \<Rightarrow> string" where
  "replace_char c by s = concat (map (\<lambda>d. if d = c then by else [d]) s)"

lemma starts_with_append [simp]: "starts_with p (p @ s)"
  by (simp add: starts_with_def)

lemma starts_with_iff [rust_str]: "starts_with p s \<longleftrightarrow> (\<exists>t. s = p @ t)"
  by (metis append_eq_conv_conj append_take_drop_id starts_with_def)

lemma strip_prefix_append [simp]: "strip_prefix p (p @ s) = Some s"
  by (simp add: strip_prefix_def)

lemma strip_prefix_Some [rust_str]: "strip_prefix p s = Some t \<longleftrightarrow> s = p @ t"
  by (auto simp: strip_prefix_def starts_with_iff)

lemma str_contains_iff [rust_str]: "str_contains s p \<longleftrightarrow> (\<exists>a b. s = a @ p @ b)"
proof (induction s)
  case Nil
  then show ?case by auto
next
  case (Cons c cs)
  show ?case
  proof
    assume "str_contains (c # cs) p"
    then show "\<exists>a b. c # cs = a @ p @ b"
      using Cons by (metis append_Cons append_Nil starts_with_iff str_contains.simps(2))
  next
    assume "\<exists>a b. c # cs = a @ p @ b"
    then obtain a b where ab: "c # cs = a @ p @ b" by blast
    show "str_contains (c # cs) p"
    proof (cases a)
      case Nil
      with ab have "starts_with p (c # cs)" by (auto simp: starts_with_iff)
      then show ?thesis by simp
    next
      case (Cons x a')
      with ab have "cs = a' @ p @ b" by simp
      then show ?thesis using Cons.IH by auto
    qed
  qed
qed

lemma split_on_nonempty [simp]: "split_on sep s \<noteq> []"
  by (cases s) (auto split: list.splits)

lemma split_on_no_sep: "sep \<notin> set s \<Longrightarrow> split_on sep s = [s]"
  by (induction s) auto

lemma split_on_seg_no_sep: "p \<in> set (split_on sep s) \<Longrightarrow> sep \<notin> set p"
  by (induction s arbitrary: p) (auto split: list.splits if_splits)

lemma split_on_append:
  "sep \<notin> set a \<Longrightarrow> split_on sep (a @ sep # b) = a # split_on sep b"
  by (induction a) auto

lemma join_split_on: "join_with [sep] (split_on sep s) = s"
proof (induction s)
  case (Cons c cs)
  show ?case
  proof (cases "split_on sep cs")
    case Nil
    then show ?thesis by simp
  next
    case (Cons p ps)
    then show ?thesis using Cons.IH by (cases ps) auto
  qed
qed simp

lemma split_join_on:
  "ss \<noteq> [] \<Longrightarrow> \<forall>s \<in> set ss. sep \<notin> set s \<Longrightarrow> split_on sep (join_with [sep] ss) = ss"
  by (induction "[sep]" ss rule: join_with.induct) (auto simp: split_on_no_sep split_on_append)

section \<open>Decimal numbers\<close>

fun digits_rev :: "nat \<Rightarrow> string" where
  "digits_rev n = char_of (48 + n mod 10) # (if n < 10 then [] else digits_rev (n div 10))"

declare digits_rev.simps [simp del]

definition show_nat :: "nat \<Rightarrow> string" where
  "show_nat n = rev (digits_rev n)"

text \<open>
  \<open>str::parse\<close> for an unsigned type with largest value \<open>m\<close>: an optional plus sign, then at
  least one digit, and no overflow.
\<close>

fun parse_digits :: "nat \<Rightarrow> nat \<Rightarrow> string \<Rightarrow> nat option" where
  "parse_digits m acc [] = Some acc"
| "parse_digits m acc (c # cs) =
     (if is_ascii_digit c then
        (let v = acc * 10 + (code c - 48) in if v \<le> m then parse_digits m v cs else None)
      else None)"

definition parse_uint :: "nat \<Rightarrow> string \<Rightarrow> nat option" where
  "parse_uint m s =
     (case s of
        [] \<Rightarrow> None
      | c # cs \<Rightarrow>
          if c = CHR ''+'' then (if cs = [] then None else parse_digits m 0 cs)
          else parse_digits m 0 s)"

definition parse_u16 :: "string \<Rightarrow> u16 option" where
  "parse_u16 s = map_option word_of_nat (parse_uint 65535 s)"

definition parse_u64 :: "string \<Rightarrow> u64 option" where
  "parse_u64 s = map_option word_of_nat (parse_uint 18446744073709551615 s)"

definition show_word :: "'a::len word \<Rightarrow> string" where
  "show_word w = show_nat (unat w)"

lemma code_digit: "code (char_of (48 + n mod 10)) = 48 + n mod 10"
  by (rule code_char_of) (use mod_less_divisor[of 10 n] in simp)

lemma show_nat_digits: "list_all is_ascii_digit (show_nat n)"
proof (induction n rule: digits_rev.induct)
  case (1 n)
  have d: "is_ascii_digit (char_of (48 + n mod 10))"
    using code_digit[of n] mod_less_divisor[of 10 n] by (simp add: is_ascii_digit_def)
  show ?case using 1 d by (cases "n < 10") (auto simp: show_nat_def digits_rev.simps[of n])
qed

lemma parse_digits_append:
  "parse_digits m acc (s @ t) = Option.bind (parse_digits m acc s) (\<lambda>v. parse_digits m v t)"
  by (induction s arbitrary: acc) (auto simp: Let_def)

lemma parse_digits_show: "n \<le> m \<Longrightarrow> parse_digits m 0 (show_nat n) = Some n"
proof (induction n rule: digits_rev.induct)
  case (1 n)
  have d: "is_ascii_digit (char_of (48 + n mod 10))"
    using code_digit[of n] mod_less_divisor[of 10 n] by (simp add: is_ascii_digit_def)
  show ?case
  proof (cases "n < 10")
    case True
    then show ?thesis using d 1 code_digit[of n]
      by (simp add: show_nat_def digits_rev.simps[of n])
  next
    case False
    then have "parse_digits m 0 (show_nat (n div 10)) = Some (n div 10)"
      using 1 by simp
    then show ?thesis using d False 1 code_digit[of n]
      by (simp add: show_nat_def digits_rev.simps[of n] parse_digits_append Let_def)
  qed
qed

lemma show_nat_not_plus: "\<exists>c cs. show_nat n = c # cs \<and> is_ascii_digit c"
proof (induction n rule: digits_rev.induct)
  case (1 n)
  have d: "is_ascii_digit (char_of (48 + n mod 10))"
    using code_digit[of n] mod_less_divisor[of 10 n] by (simp add: is_ascii_digit_def)
  show ?case
    using 1 d by (cases "n < 10") (auto simp: show_nat_def digits_rev.simps[of n])
qed

lemma parse_uint_show [simp]: "n \<le> m \<Longrightarrow> parse_uint m (show_nat n) = Some n"
proof -
  assume n: "n \<le> m"
  obtain c cs where c: "show_nat n = c # cs" "is_ascii_digit c"
    using show_nat_not_plus by blast
  then have "c \<noteq> CHR ''+''" by (auto simp: is_ascii_digit_def code_def)
  then show ?thesis using c parse_digits_show[OF n] by (simp add: parse_uint_def)
qed

lemma parse_u64_show [simp]: "parse_u64 (show_word w) = Some w"
proof -
  have "unat w \<le> 18446744073709551615" using unsigned_less[of w, where ?'a = nat] by simp
  then show ?thesis by (simp add: parse_u64_def show_word_def)
qed

lemma parse_u16_show [simp]: "parse_u16 (show_word w) = Some w"
proof -
  have "unat w \<le> 65535" using unsigned_less[of w, where ?'a = nat] by simp
  then show ?thesis by (simp add: parse_u16_def show_word_def)
qed

section \<open>Hexadecimal numbers\<close>

fun hex_digits_rev :: "nat \<Rightarrow> string" where
  "hex_digits_rev n =
     char_of (if n mod 16 < 10 then 48 + n mod 16 else 87 + n mod 16)
       # (if n < 16 then [] else hex_digits_rev (n div 16))"

declare hex_digits_rev.simps [simp del]

text \<open>\<open>{:x}\<close>, and \<open>{:08x}\<close> with leading zeros up to a width.\<close>

definition show_hex :: "'a::len word \<Rightarrow> string" where
  "show_hex w = rev (hex_digits_rev (unat w))"

definition show_hex_width :: "nat \<Rightarrow> 'a::len word \<Rightarrow> string" where
  "show_hex_width n w = (let h = show_hex w in replicate (n - length h) (CHR ''0'') @ h)"

section \<open>Lines and words\<close>

text \<open>\<open>str::lines\<close>: a line ends at a line feed, and a carriage return right before it is dropped.\<close>

definition strip_cr :: "string \<Rightarrow> string" where
  "strip_cr s = (if s \<noteq> [] \<and> last s = CHR 0x0D then butlast s else s)"

definition lines :: "string \<Rightarrow> string list" where
  "lines s =
     (let ps = split_on (CHR 0x0A) s in
      map strip_cr (butlast ps) @ (if last ps = [] then [] else [last ps]))"

text \<open>\<open>split_whitespace\<close>: the maximal runs of characters that are not white space.\<close>

function words_of :: "string list \<Rightarrow> string list" where
  "words_of chs =
     (case dropWhile char_is_whitespace chs of
        [] \<Rightarrow> []
      | c # cs \<Rightarrow> concat (takeWhile (\<lambda>d. \<not> char_is_whitespace d) (c # cs))
                  # words_of (dropWhile (\<lambda>d. \<not> char_is_whitespace d) (c # cs)))"
  by pat_completeness auto
termination
proof (relation "measure length", goal_cases)
  case (2 chs c cs)
  have "length (dropWhile char_is_whitespace chs) \<le> length chs" by (rule length_dropWhile_le)
  moreover have "\<not> char_is_whitespace c" using 2 by (metis dropWhile_eq_Cons_conv)
  moreover have "length (dropWhile (\<lambda>d. \<not> char_is_whitespace d) cs) \<le> length cs" by (rule length_dropWhile_le)
  ultimately show ?case using 2 by simp
qed simp

declare words_of.simps [simp del]

definition split_whitespace :: "string \<Rightarrow> string list" where
  "split_whitespace s = words_of (utf8_chars s)"

section \<open>Scanning arguments\<close>

text \<open>
  The loop of the programs over their arguments: each is handled together with its successor, if
  there is one, and the handler says whether it used the successor as a value.
\<close>

fun scan_args :: "(string \<Rightarrow> string option \<Rightarrow> 'a \<Rightarrow> 'e + ('a \<times> bool)) \<Rightarrow> string list \<Rightarrow> 'a \<Rightarrow> 'e + 'a" where
  "scan_args step [] a = Inr a"
| "scan_args step [x] a = rbind (step x None a) (\<lambda>(a, _). Inr a)"
| "scan_args step (x # y # rest) a =
     rbind (step x (Some y) a) (\<lambda>(a, used).
       if used then scan_args step rest a else scan_args step (y # rest) a)"

lemma scan_flag:
  "(\<And>nxt. step x nxt a = Inr (a', False)) \<Longrightarrow> scan_args step (x # rest) a = scan_args step rest a'"
  by (cases rest) auto

lemma scan_value: "step x (Some v) a = Inr (a', True) \<Longrightarrow> scan_args step (x # v # rest) a = scan_args step rest a'"
  by simp

end
