(* ===== verification/Rust_Io.thy ===== *)
theory Rust_Io
  imports Prelude
begin

text \<open>
  Byte streams as the sources use them, and big-endian integers on the wire.

  A \<open>source\<close> is what an \<open>AsyncRead\<close> has still to deliver: the bytes, how the transport
  fragments them (\<open>grain\<close> says how many bytes one \<open>read\<close> may return when a given number is
  left, so every fragmentation is some \<open>grain\<close>), and whether the stream ends in an error or in
  an end of file. A \<open>sink\<close> is what an \<open>AsyncWrite\<close> has accepted, and how many more bytes it
  accepts before the transport fails. The locale \<open>codec\<close> is the contract between the two ends
  of a stream: what one side encodes, the other side decodes, leaving the rest of the stream.
\<close>

section \<open>Sources and sinks\<close>

datatype io_error = UnexpectedEof | ConnectionReset | BrokenPipe | NotFound | NotADirectory
  | IsADirectory | AlreadyExists | DirectoryNotEmpty | FilesystemLoop | OtherIo

record source =
  pending :: "byte list"
  grain :: "nat \<Rightarrow> nat"
  broken :: bool

record sink =
  written :: "byte list"
  room :: "nat option"

text \<open>\<open>AsyncReadExt::read\<close> into a buffer of \<open>limit\<close> bytes: empty means end of file.\<close>

definition read_some :: "source \<Rightarrow> nat \<Rightarrow> io_error + (byte list \<times> source)" where
  "read_some r limit =
     (if pending r = [] then (if broken r then Inl ConnectionReset else Inr ([], r))
      else (let have_now = length (pending r);
                n = min limit (min have_now (max 1 (grain r have_now)))
            in Inr (take n (pending r), r\<lparr>pending := drop n (pending r)\<rparr>)))"

text \<open>\<open>AsyncReadExt::read_exact\<close>: reads until the buffer is full.\<close>

function read_exact :: "source \<Rightarrow> nat \<Rightarrow> io_error + (byte list \<times> source)" where
  "read_exact r n =
     (if n = 0 then Inr ([], r)
      else (case read_some r n of
              Inl e \<Rightarrow> Inl e
            | Inr ([], _) \<Rightarrow> Inl UnexpectedEof
            | Inr (b # bs, r') \<Rightarrow>
                rbind (read_exact r' (n - length (b # bs)))
                  (\<lambda>(cs, r''). Inr (b # bs @ cs, r''))))"
  by pat_completeness auto
termination
  by (relation "measure snd") auto

declare read_exact.simps [simp del]

definition eof_error :: "source \<Rightarrow> io_error" where
  "eof_error r = (if broken r then ConnectionReset else UnexpectedEof)"

lemma read_some_cases:
  assumes "pending r \<noteq> []" "0 < limit"
  obtains n where "0 < n" "n \<le> limit" "n \<le> length (pending r)"
    "read_some r limit = Inr (take n (pending r), r\<lparr>pending := drop n (pending r)\<rparr>)"
  using assms that[of "min limit (min (length (pending r)) (max 1 (grain r (length (pending r)))))"]
  by (simp add: read_some_def Let_def Suc_le_eq)

lemma read_some_Nil: "pending r = [] \<Longrightarrow>
    read_some r limit = (if broken r then Inl ConnectionReset else Inr ([], r))"
  by (simp add: read_some_def)

text \<open>However the transport fragments the stream, \<open>read_exact\<close> delivers the next \<open>n\<close> bytes.\<close>

lemma read_exact_eq:
  "read_exact r n =
     (if n \<le> length (pending r) then Inr (take n (pending r), r\<lparr>pending := drop n (pending r)\<rparr>)
      else Inl (eof_error r))"
proof (induction n arbitrary: r rule: less_induct)
  case (less n)
  show ?case
  proof (cases "n = 0 \<or> pending r = []")
    case True
    then show ?thesis
      by (auto simp: read_exact.simps[of r n] read_some_Nil eof_error_def)
  next
    case False
    then obtain k where k: "0 < k" "k \<le> n" "k \<le> length (pending r)"
      "read_some r n = Inr (take k (pending r), r\<lparr>pending := drop k (pending r)\<rparr>)"
      using read_some_cases[of r n] by blast
    then obtain b bs where bs: "take k (pending r) = b # bs"
      by (cases "take k (pending r)") auto
    have len: "length (b # bs) = k" using k by (simp flip: bs)
    let ?r = "r\<lparr>pending := drop k (pending r)\<rparr>"
    have "read_exact ?r (n - k) =
        (if n - k \<le> length (pending ?r)
         then Inr (take (n - k) (pending ?r), ?r\<lparr>pending := drop (n - k) (pending ?r)\<rparr>)
         else Inl (eof_error ?r))"
      using k by (intro less.IH) simp
    moreover have "b # bs @ take (n - k) (drop k (pending r)) = take n (pending r)"
      using k bs by (metis append_Cons le_add_diff_inverse take_add)
    ultimately show ?thesis
      using False k bs len by (auto simp: read_exact.simps[of r n] eof_error_def)
  qed
qed

lemma read_exact_append [simp]:
  "pending r = bs @ rest \<Longrightarrow> n = length bs \<Longrightarrow> read_exact r n = Inr (bs, r\<lparr>pending := rest\<rparr>)"
  by (simp add: read_exact_eq)

lemma read_exact_Inr:
  "read_exact r n = Inr (bs, r') \<longleftrightarrow>
     (\<exists>rest. pending r = bs @ rest \<and> length bs = n \<and> r' = r\<lparr>pending := rest\<rparr>)"
proof
  assume "read_exact r n = Inr (bs, r')"
  then have "pending r = bs @ drop n (pending r) \<and> length bs = n \<and> r' = r\<lparr>pending := drop n (pending r)\<rparr>"
    by (auto simp: read_exact_eq split: if_splits)
  then show "\<exists>rest. pending r = bs @ rest \<and> length bs = n \<and> r' = r\<lparr>pending := rest\<rparr>" by blast
qed (auto simp: read_exact_eq)

text \<open>\<open>AsyncWriteExt::write_all\<close>.\<close>

definition write_all :: "sink \<Rightarrow> byte list \<Rightarrow> io_error + sink" where
  "write_all w bs =
     (case room w of
        None \<Rightarrow> Inr (w\<lparr>written := written w @ bs\<rparr>)
      | Some k \<Rightarrow>
          if length bs \<le> k then Inr (w\<lparr>written := written w @ bs, room := Some (k - length bs)\<rparr>)
          else Inl BrokenPipe)"

lemma write_all_unbounded [simp]:
  "room w = None \<Longrightarrow> write_all w bs = Inr (w\<lparr>written := written w @ bs\<rparr>)"
  by (simp add: write_all_def)

lemma write_all_written: "write_all w bs = Inr w' \<Longrightarrow> written w' = written w @ bs"
  by (auto simp: write_all_def split: option.splits if_splits)

section \<open>Big-endian integers\<close>

text \<open>\<open>to_be_bytes\<close> and \<open>from_be_bytes\<close> of the unsigned types.\<close>

definition be_snoc :: "'a::len word \<Rightarrow> byte \<Rightarrow> 'a word" where
  "be_snoc acc b = push_bit 8 acc OR ucast b"

definition u16_from_be :: "byte \<Rightarrow> byte \<Rightarrow> u16" where
  "u16_from_be a b = be_snoc (be_snoc 0 a) b"

definition u16_to_be :: "u16 \<Rightarrow> byte list" where
  "u16_to_be v = [ucast (drop_bit 8 v), ucast v]"

definition u32_to_be :: "u32 \<Rightarrow> byte list" where
  "u32_to_be v = [ucast (drop_bit 24 v), ucast (drop_bit 16 v), ucast (drop_bit 8 v), ucast v]"

definition u64_to_be :: "u64 \<Rightarrow> byte list" where
  "u64_to_be v =
     [ucast (drop_bit 56 v), ucast (drop_bit 48 v), ucast (drop_bit 40 v), ucast (drop_bit 32 v),
      ucast (drop_bit 24 v), ucast (drop_bit 16 v), ucast (drop_bit 8 v), ucast v]"

definition u32_from_be :: "byte list \<Rightarrow> u32" where
  "u32_from_be bs = foldl be_snoc 0 bs"

definition u64_from_be :: "byte list \<Rightarrow> u64" where
  "u64_from_be bs = foldl be_snoc 0 bs"

lemma unat_word_of_nat: "n < 2 ^ LENGTH('a) \<Longrightarrow> unat (word_of_nat n :: 'a::len word) = n"
  by (simp add: unat_of_nat take_bit_nat_eq_self)

lemma length_to_be [simp]:
  "length (u16_to_be a) = 2" "length (u32_to_be b) = 4" "length (u64_to_be c) = 8"
  by (simp_all add: u16_to_be_def u32_to_be_def u64_to_be_def)

lemma be_snoc_drop:
  fixes v :: "'a::len word"
  shows "be_snoc (drop_bit (m + 8) v) (ucast (drop_bit m v)) = drop_bit m v"
  unfolding be_snoc_def
proof (rule bit_word_eqI)
  fix n
  assume n: "n < LENGTH('a)"
  show "bit (push_bit 8 (drop_bit (m + 8) v) OR ucast (ucast (drop_bit m v) :: byte)) n
      = bit (drop_bit m v) n"
  proof (cases "n < 8")
    case True
    then show ?thesis using n by (simp add: bit_simps)
  next
    case False
    then have "m + 8 + (n - 8) = m + n" by simp
    then show ?thesis using n False by (simp add: bit_simps)
  qed
qed

lemma drop_all_bits: "LENGTH('a) \<le> m \<Longrightarrow> drop_bit m (v :: 'a::len word) = 0"
  by (rule bit_word_eqI) (simp add: bit_simps bit_imp_le_length leD)

lemma be_snoc_zero:
  fixes v :: "'a::len word"
  shows "LENGTH('a) \<le> m + 8 \<Longrightarrow> be_snoc 0 (ucast (drop_bit m v)) = drop_bit m v"
  using be_snoc_drop[of m v] by (simp add: drop_all_bits)

lemma be_snoc_low [simp]: "8 \<le> LENGTH('a) \<Longrightarrow> ucast (be_snoc (x :: 'a::len word) b) = b"
  unfolding be_snoc_def by (rule bit_word_eqI) (auto simp: bit_simps)

lemma be_snoc_high:
  assumes "m + 16 \<le> LENGTH('a)"
  shows "(ucast (drop_bit (m + 8) (be_snoc (x :: 'a::len word) b)) :: byte) = ucast (drop_bit m x)"
  unfolding be_snoc_def
proof (rule bit_word_eqI)
  fix n
  assume n: "n < LENGTH(8)"
  have "\<not> bit b (m + 8 + n)" by (auto dest: bit_imp_le_length)
  then show "bit (ucast (drop_bit (m + 8) (push_bit 8 x OR ucast b)) :: byte) n
      = bit (ucast (drop_bit m x) :: byte) n"
    using assms n by (auto simp: bit_simps ac_simps)
qed

lemma u16_from_to_be [simp]: "u16_from_be (ucast (drop_bit 8 v)) (ucast v) = v"
  using be_snoc_drop[of 0 v] be_snoc_zero[of 8 v] by (simp add: u16_from_be_def)

lemma u32_from_to_be [simp]: "u32_from_be (u32_to_be v) = v"
  using be_snoc_drop[of 16 v] be_snoc_drop[of 8 v] be_snoc_drop[of 0 v] be_snoc_zero[of 24 v]
  by (simp add: u32_from_be_def u32_to_be_def)

lemma u64_from_to_be [simp]: "u64_from_be (u64_to_be v) = v"
  using be_snoc_drop[of 48 v] be_snoc_drop[of 40 v] be_snoc_drop[of 32 v] be_snoc_drop[of 24 v]
    be_snoc_drop[of 16 v] be_snoc_drop[of 8 v] be_snoc_drop[of 0 v] be_snoc_zero[of 56 v]
  by (simp add: u64_from_be_def u64_to_be_def)

lemmas be_snoc_high_rules =
  be_snoc_high[of 0, simplified] be_snoc_high[of 8, simplified] be_snoc_high[of 16, simplified]
  be_snoc_high[of 24, simplified] be_snoc_high[of 32, simplified] be_snoc_high[of 40, simplified]
  be_snoc_high[of 48, simplified]

lemma u16_to_from_be [simp]: "u16_to_be (u16_from_be a b) = [a, b]"
  by (simp add: u16_to_be_def u16_from_be_def be_snoc_high_rules)

lemma u32_to_from_be: "length bs = 4 \<Longrightarrow> u32_to_be (u32_from_be bs) = bs"
proof -
  assume "length bs = 4"
  then obtain a b c d where bs: "bs = [a, b, c, d]"
    by (auto simp: numeral_eq_Suc length_Suc_conv)
  show ?thesis by (simp add: bs u32_to_be_def u32_from_be_def be_snoc_high_rules)
qed

lemma u64_to_from_be: "length bs = 8 \<Longrightarrow> u64_to_be (u64_from_be bs) = bs"
proof -
  assume "length bs = 8"
  then obtain a b c d e f g h where bs: "bs = [a, b, c, d, e, f, g, h]"
    by (auto simp: numeral_eq_Suc length_Suc_conv)
  show ?thesis by (simp add: bs u64_to_be_def u64_from_be_def be_snoc_high_rules)
qed

section \<open>The codec contract\<close>

text \<open>Reads the next \<open>n\<close> items with a reader.\<close>

fun read_many :: "(source \<Rightarrow> 'e + ('a \<times> source)) \<Rightarrow> nat \<Rightarrow> source \<Rightarrow> 'e + ('a list \<times> source)" where
  "read_many dec 0 r = Inr ([], r)"
| "read_many dec (Suc n) r =
     rbind (dec r) (\<lambda>(a, r'). rbind (read_many dec n r') (\<lambda>(as, r''). Inr (a # as, r'')))"

locale codec =
  fixes enc :: "'a \<Rightarrow> byte list"
    and dec :: "source \<Rightarrow> 'e + ('a \<times> source)"
    and good :: "'a \<Rightarrow> bool"
  assumes dec_enc: "good a \<Longrightarrow> pending r = enc a @ rest \<Longrightarrow> dec r = Inr (a, r\<lparr>pending := rest\<rparr>)"
begin

lemma enc_prefix_free: "good a \<Longrightarrow> good b \<Longrightarrow> enc a @ x = enc b @ y \<Longrightarrow> a = b \<and> x = y"
  using dec_enc[of a "\<lparr>pending = enc a @ x, grain = id, broken = False\<rparr>" x]
    dec_enc[of b "\<lparr>pending = enc a @ x, grain = id, broken = False\<rparr>" y]
  by simp

lemma enc_inj: "good a \<Longrightarrow> good b \<Longrightarrow> enc a = enc b \<Longrightarrow> a = b"
  using enc_prefix_free[of a b "[]" "[]"] by simp

lemma read_many_enc:
  "list_all good as \<Longrightarrow> pending r = concat (map enc as) @ rest \<Longrightarrow>
     read_many dec (length as) r = Inr (as, r\<lparr>pending := rest\<rparr>)"
proof (induction as arbitrary: r)
  case Nil
  then show ?case by simp
next
  case (Cons a as)
  have "dec r = Inr (a, r\<lparr>pending := concat (map enc as) @ rest\<rparr>)"
    using Cons.prems by (intro dec_enc) auto
  then show ?case
    using Cons.IH[of "r\<lparr>pending := concat (map enc as) @ rest\<rparr>"] Cons.prems by simp
qed

lemma concat_enc_inj:
  assumes "list_all good as" "list_all good bs" "length as = length bs"
    and "concat (map enc as) = concat (map enc bs)"
  shows "as = bs"
  using read_many_enc[of as "\<lparr>pending = concat (map enc as), grain = id, broken = False\<rparr>" "[]"]
    read_many_enc[of bs "\<lparr>pending = concat (map enc as), grain = id, broken = False\<rparr>" "[]"] assms
  by simp

end

text \<open>A canonical codec also accepts nothing but encodings of good values.\<close>

locale canonical_codec = codec enc dec good
  for enc :: "'a \<Rightarrow> byte list" and dec :: "source \<Rightarrow> 'e + ('a \<times> source)" and good :: "'a \<Rightarrow> bool" +
  assumes dec_sound: "dec r = Inr (a, r') \<Longrightarrow>
    good a \<and> (\<exists>rest. pending r = enc a @ rest \<and> r' = r\<lparr>pending := rest\<rparr>)"
begin

lemma dec_iff:
  "dec r = Inr (a, r') \<longleftrightarrow> good a \<and> (\<exists>rest. pending r = enc a @ rest \<and> r' = r\<lparr>pending := rest\<rparr>)"
  using dec_enc dec_sound by blast

lemma dec_shrinks: "dec r = Inr (a, r') \<Longrightarrow> length (pending r') \<le> length (pending r)"
  using dec_sound[of r a r'] by auto

end

text \<open>\<open>AsyncReadExt::read_u8\<close> and the fixed-width integers.\<close>

definition read_u8 :: "source \<Rightarrow> io_error + (byte \<times> source)" where
  "read_u8 r = rbind (read_exact r 1) (\<lambda>(bs, r'). Inr (hd bs, r'))"

definition read_be32 :: "source \<Rightarrow> io_error + (u32 \<times> source)" where
  "read_be32 r = rbind (read_exact r 4) (\<lambda>(bs, r'). Inr (u32_from_be bs, r'))"

definition read_be64 :: "source \<Rightarrow> io_error + (u64 \<times> source)" where
  "read_be64 r = rbind (read_exact r 8) (\<lambda>(bs, r'). Inr (u64_from_be bs, r'))"

lemma read_u8_Cons [simp]: "pending r = b # rest \<Longrightarrow> read_u8 r = Inr (b, r\<lparr>pending := rest\<rparr>)"
  by (simp add: read_u8_def read_exact_eq)

lemma read_u8_Nil [simp]: "pending r = [] \<Longrightarrow> read_u8 r = Inl (eof_error r)"
  by (simp add: read_u8_def read_exact_eq)

interpretation be32: canonical_codec u32_to_be read_be32 "\<lambda>_. True"
  by unfold_locales
    (auto simp: read_be32_def rbind_Inr_iff read_exact_Inr u32_to_from_be)

interpretation be64: canonical_codec u64_to_be read_be64 "\<lambda>_. True"
  by unfold_locales
    (auto simp: read_be64_def rbind_Inr_iff read_exact_Inr u64_to_from_be)

interpretation u8c: canonical_codec "\<lambda>b. [b]" read_u8 "\<lambda>_. True"
  by unfold_locales
    (simp, auto simp: read_u8_def rbind_Inr_iff read_exact_Inr length_Suc_conv)

end
