(* ===== verification/Rust_Path.thy ===== *)
theory Rust_Path
  imports Prelude
begin

text \<open>
  \<open>std::path\<close> on Unix: a path is its string; \<open>components\<close> is the iterator of the same name
  (repeated separators and inner dots are skipped), \<open>path_push\<close> is \<open>PathBuf::push\<close> and
  \<open>Path::join\<close>, and \<open>parent\<close>, \<open>file_name\<close> and \<open>with_file_name\<close> are the methods of those
  names. The lemmas relate the string operations to the components.
\<close>

named_theorems path_simps \<open>components of composed paths\<close>

datatype component = RootDir | CurDir | ParentDir | Normal string

abbreviation slash :: char where "slash \<equiv> CHR ''/''"

definition has_root :: "string \<Rightarrow> bool" where
  "has_root p \<longleftrightarrow> starts_with [slash] p"

definition seg_component :: "string \<Rightarrow> component list" where
  "seg_component s =
     (if s = [] \<or> s = ''.'' then [] else if s = ''..'' then [ParentDir] else [Normal s])"

definition components :: "string \<Rightarrow> component list" where
  "components p =
     (if has_root p then RootDir # concat (map seg_component (split_on slash p))
      else (case split_on slash p of
              [] \<Rightarrow> []
            | s # ss \<Rightarrow>
                (if s = ''.'' then [CurDir] else seg_component s)
                @ concat (map seg_component ss)))"

definition file_name :: "string \<Rightarrow> string option" where
  "file_name p =
     (case rev (components p) of Normal s # _ \<Rightarrow> Some s | _ \<Rightarrow> None)"

definition skipped :: "string \<Rightarrow> bool" where
  "skipped s \<longleftrightarrow> s = [] \<or> s = ''.''"

text \<open>\<open>Path::parent\<close>: the text before the last component, without trailing separators.\<close>

definition parent :: "string \<Rightarrow> string option" where
  "parent p =
     (let segs = split_on slash p;
          tail_rev = dropWhile skipped (rev (tl segs))
      in case tail_rev of
           [] \<Rightarrow> if has_root p \<or> p = [] then None else Some []
         | _ # before \<Rightarrow>
             (let kept = rev (dropWhile skipped before)
              in if has_root p \<and> kept = [] then Some [slash]
                 else Some (join_with [slash] (hd segs # kept))))"

definition path_push :: "string \<Rightarrow> string \<Rightarrow> string" where
  "path_push p q =
     (if has_root q then q
      else if p = [] \<or> last p = slash then p @ q
      else p @ [slash] @ q)"

definition with_file_name :: "string \<Rightarrow> string \<Rightarrow> string" where
  "with_file_name p n =
     path_push (case file_name p of None \<Rightarrow> p | Some _ \<Rightarrow> (case parent p of None \<Rightarrow> p | Some q \<Rightarrow> q)) n"

text \<open>A name that is one ordinary component.\<close>

definition plain_name :: "string \<Rightarrow> bool" where
  "plain_name n \<longleftrightarrow> n \<noteq> [] \<and> n \<noteq> ''.'' \<and> n \<noteq> ''..'' \<and> slash \<notin> set n"

lemma plain_name_rooted: "plain_name n \<Longrightarrow> \<not> has_root n"
  by (auto simp: plain_name_def has_root_def starts_with_iff)

lemma seg_component_plain [simp]: "plain_name n \<Longrightarrow> seg_component n = [Normal n]"
  by (simp add: plain_name_def seg_component_def)

lemma components_plain [path_simps]: "plain_name n \<Longrightarrow> components n = [Normal n]"
  by (frule plain_name_rooted)
    (simp add: components_def split_on_no_sep plain_name_def seg_component_def)

lemma components_Nil [simp]: "components [] = []"
  by (simp add: components_def has_root_def starts_with_def seg_component_def)

lemma split_on_snoc_sep: "split_on sep (a @ sep # b) = split_on sep a @ split_on sep b"
  by (induction a) (auto split: list.splits)

lemma has_root_append: "p \<noteq> [] \<Longrightarrow> has_root (p @ q) = has_root p"
  by (cases p) (auto simp: has_root_def starts_with_def)

lemma components_append_sep:
  assumes "p \<noteq> []"
  shows "components (p @ slash # q) = components p @ concat (map seg_component (split_on slash q))"
proof (cases "split_on slash p")
  case (Cons s ss)
  then show ?thesis using assms
    by (simp add: components_def has_root_append split_on_snoc_sep)
qed simp

text \<open>Pushing an ordinary name appends one component.\<close>

lemma components_push [path_simps]:
  assumes n: "plain_name n"
  shows "components (path_push p n) = components p @ [Normal n]"
proof -
  have r: "\<not> has_root n" and sp: "split_on slash n = [n]"
    using n by (auto simp: plain_name_rooted split_on_no_sep plain_name_def)
  consider "p = []" | "p \<noteq> []" "last p = slash" | "p \<noteq> []" "last p \<noteq> slash" by blast
  then show ?thesis
  proof cases
    case 1
    then show ?thesis using n r by (simp add: path_push_def components_plain)
  next
    case 3
    then show ?thesis using n r sp by (simp add: path_push_def components_append_sep)
  next
    case 2
    then obtain q where p: "p = q @ [slash]" by (metis append_butlast_last_id)
    show ?thesis
    proof (cases "q = []")
      case True
      then have "path_push p n = slash # n" "has_root (slash # n)"
        using r p by (simp_all add: path_push_def has_root_def starts_with_def)
      then show ?thesis using n sp p True
        by (simp add: components_def has_root_def starts_with_def seg_component_def[of "[]"])
    next
      case False
      then show ?thesis using n r sp p
        components_append_sep[of q n] components_append_sep[of q "[]"]
        by (simp add: path_push_def seg_component_def[of "[]"])
    qed
  qed
qed

lemma components_push_all [path_simps]:
  "list_all plain_name ns \<Longrightarrow>
     components (foldl path_push p ns) = components p @ map Normal ns"
  by (induction ns arbitrary: p) (simp_all add: components_push)

lemma push_not_Nil: "plain_name n \<Longrightarrow> path_push p n \<noteq> []"
  by (auto simp: path_push_def plain_name_def)

lemma last_push: "plain_name n \<Longrightarrow> last (path_push p n) \<noteq> slash"
proof -
  assume n: "plain_name n"
  then have "last n \<in> set n" "slash \<notin> set n" by (auto simp: plain_name_def)
  then have "last n \<noteq> slash" by metis
  then show ?thesis using n plain_name_rooted[OF n] by (auto simp: path_push_def plain_name_def)
qed

lemma file_name_push [path_simps]: "plain_name n \<Longrightarrow> file_name (path_push p n) = Some n"
  by (simp add: file_name_def components_push)

lemma component_of_segment:
  assumes "Normal n \<in> set (components p)"
  obtains s where "s \<in> set (split_on slash p)" "Normal n \<in> set (seg_component s)"
proof (cases "split_on slash p")
  case (Cons h t)
  have "Normal n \<in> set (seg_component h) \<union> \<Union> (set (map (set \<circ> seg_component) t))"
    using assms Cons by (auto simp: components_def split: if_splits)
  then show ?thesis using that Cons by auto
qed simp

lemma file_name_plain: "file_name p = Some n \<Longrightarrow> plain_name n"
proof -
  have seg: "Normal n \<in> set (seg_component s) \<Longrightarrow> slash \<notin> set s \<Longrightarrow> plain_name n" for s
    by (auto simp: seg_component_def plain_name_def split: if_splits)
  assume "file_name p = Some n"
  then have "Normal n \<in> set (components p)"
    by (auto simp: file_name_def split: list.splits component.splits)
  then obtain s where "s \<in> set (split_on slash p)" "Normal n \<in> set (seg_component s)"
    by (rule component_of_segment)
  then show ?thesis using seg split_on_seg_no_sep[of s slash p] by blast
qed

text \<open>A relative path of ordinary names joined by single slashes.\<close>

lemma join_plain_not_root:
  "ns \<noteq> [] \<Longrightarrow> list_all plain_name ns \<Longrightarrow> \<not> has_root (join_with [slash] ns)"
  by (cases "([slash], ns)" rule: join_with.cases)
    (auto simp: plain_name_rooted has_root_append plain_name_def)

lemma components_join [path_simps]:
  assumes "ns \<noteq> []" "list_all plain_name ns"
  shows "components (join_with [slash] ns) = map Normal ns"
proof -
  have sp: "split_on slash (join_with [slash] ns) = ns"
    using assms by (intro split_join_on) (auto simp: list_all_iff plain_name_def)
  have "concat (map seg_component ms) = map Normal ms" if "list_all plain_name ms" for ms
    using that by (induction ms) simp_all
  then show ?thesis using assms join_plain_not_root[OF assms] sp
    by (cases ns) (auto simp: components_def plain_name_def)
qed

lemma plain_last: "plain_name n \<Longrightarrow> n \<noteq> [] \<and> \<not> skipped n"
  by (simp add: plain_name_def skipped_def)

lemma parent_join [path_simps]:
  assumes "ns \<noteq> []" "list_all plain_name ns"
  shows "parent (join_with [slash] ns) = Some (join_with [slash] (butlast ns))"
proof -
  have sp: "split_on slash (join_with [slash] ns) = ns"
    using assms by (intro split_join_on) (auto simp: list_all_iff plain_name_def)
  have nr: "\<not> has_root (join_with [slash] ns)" by (rule join_plain_not_root[OF assms])
  obtain n ms where ns: "ns = n # ms" using assms by (cases ns) auto
  show ?thesis
  proof (cases ms rule: rev_cases)
    case Nil
    then show ?thesis using assms ns nr sp by (auto simp: parent_def plain_name_def)
  next
    case (snoc ks k)
    have "\<not> skipped k" using assms ns snoc by (simp add: plain_last)
    moreover have "dropWhile skipped (rev ks) = rev ks"
      using assms ns snoc by (cases ks rule: rev_cases) (auto simp: plain_last)
    ultimately show ?thesis using nr sp ns snoc by (simp add: parent_def Let_def butlast_append)
  qed
qed

lemma join_with_append:
  "xs \<noteq> [] \<Longrightarrow> ys \<noteq> [] \<Longrightarrow> join_with sep (xs @ ys) = join_with sep xs @ sep @ join_with sep ys"
  by (induction sep xs rule: join_with.induct) (auto simp: neq_Nil_conv)

lemma join_with_length: "x \<in> set xs \<Longrightarrow> length x \<le> length (join_with sep xs)"
  by (induction sep xs rule: join_with.induct) auto

lemma dropWhile_suffix: "\<exists>ds. xs = ds @ dropWhile P xs"
  by (metis takeWhile_dropWhile_id)

lemma parent_shorter: "parent p = Some q \<Longrightarrow> length q < length p"
proof -
  assume q: "parent p = Some q"
  obtain h t where segs: "split_on slash p = h # t" by (cases "split_on slash p") auto
  have p: "join_with [slash] (h # t) = p" using join_split_on[of slash p] segs by simp
  show ?thesis
  proof (cases "dropWhile skipped (rev t)")
    case Nil
    then have "Some q = (if has_root p \<or> p = [] then None else Some [])"
      using q segs by (simp add: parent_def Let_def Nil del: dropWhile_eq_Nil_conv)
    then show ?thesis by (auto split: if_splits)
  next
    case (Cons x before)
    let ?kept = "rev (dropWhile skipped before)"
    obtain ds es where "rev t = ds @ x # before" "before = es @ dropWhile skipped before"
      using dropWhile_suffix[of "rev t" skipped] dropWhile_suffix[of before skipped] Cons by metis
    then have t: "t = ?kept @ rev es @ x # rev ds"
      by (metis append.assoc append_Cons append_Nil rev.simps(2) rev_append rev_rev_ident)
    have x: "x \<noteq> []" using Cons by (metis dropWhile_eq_Cons_conv skipped_def)
    let ?rest = "rev es @ x # rev ds"
    have "1 \<le> length (join_with [slash] ?rest)"
      using join_with_length[of x ?rest "[slash]"] x by (cases x) auto
    moreover have "p = join_with [slash] (h # ?kept) @ [slash] @ join_with [slash] ?rest"
      using join_with_append[of "h # ?kept" ?rest "[slash]"] p t by simp
    ultimately show ?thesis
      using q segs Cons by (auto simp: parent_def Let_def split: if_splits)
  qed
qed

text \<open>The parent of a pushed name leads to the same components.\<close>

definition segs_components :: "string \<Rightarrow> string list \<Rightarrow> component list" where
  "segs_components h t =
     (if h = [] \<and> t \<noteq> [] then [RootDir] else if h = ''.'' then [CurDir] else seg_component h)
     @ concat (map seg_component t)"

lemma has_root_segs: "split_on slash p = h # t \<Longrightarrow> has_root p \<longleftrightarrow> h = [] \<and> t \<noteq> []"
  by (cases p) (auto simp: has_root_def starts_with_def split: list.splits if_splits)

lemma components_segs: "split_on slash p = h # t \<Longrightarrow> components p = segs_components h t"
  using has_root_segs[of p h t]
  by (auto simp: components_def segs_components_def seg_component_def[of "[]"])

lemma concat_skipped: "\<forall>s\<in>set ss. skipped s \<Longrightarrow> concat (map seg_component ss) = []"
  by (induction ss) (auto simp: skipped_def seg_component_def)

lemma concat_trim_skipped:
  "concat (map seg_component (rev (dropWhile skipped (rev t)))) = concat (map seg_component t)"
proof -
  have "rev t = takeWhile skipped (rev t) @ dropWhile skipped (rev t)" by simp
  then have "t = rev (dropWhile skipped (rev t)) @ rev (takeWhile skipped (rev t))"
    by (metis rev_append rev_rev_ident)
  moreover have "concat (map seg_component (rev (takeWhile skipped (rev t)))) = []"
    by (rule concat_skipped) (auto dest: set_takeWhileD)
  ultimately show ?thesis by (metis append_Nil2 concat_append map_append)
qed

lemma parent_of_append:
  assumes p: "p \<noteq> []" and n: "plain_name n"
  shows "\<exists>q. parent (p @ slash # n) = Some q \<and> components q = components p"
proof -
  obtain h t where segs: "split_on slash p = h # t" by (cases "split_on slash p") auto
  have sn: "split_on slash n = [n]" using n by (simp add: plain_name_def split_on_no_sep)
  have all: "split_on slash (p @ slash # n) = h # t @ [n]" by (simp add: split_on_snoc_sep segs sn)
  let ?kept = "rev (dropWhile skipped (rev t))"
  have "\<not> skipped n" using plain_last[OF n] by simp
  then have par: "parent (p @ slash # n) =
      (if has_root p \<and> ?kept = [] then Some [slash] else Some (join_with [slash] (h # ?kept)))"
    using all has_root_append[OF p] by (simp add: parent_def Let_def del: rev_is_Nil_conv)
  have root: "has_root p \<longleftrightarrow> h = [] \<and> t \<noteq> []" by (rule has_root_segs[OF segs])
  have noslash: "\<forall>s\<in>set (h # ?kept). slash \<notin> set s"
  proof -
    have "set ?kept \<subseteq> set t" by (auto dest: set_dropWhileD)
    then show ?thesis using split_on_seg_no_sep[of _ slash p] segs by auto
  qed
  show ?thesis
  proof (cases "has_root p \<and> ?kept = []")
    case True
    then have "components p = [RootDir]"
      using components_segs[OF segs] root
      by (auto simp: segs_components_def skipped_def seg_component_def)
    moreover have "components [slash] = [RootDir]"
      by (simp add: components_def has_root_def starts_with_def seg_component_def)
    ultimately show ?thesis using par True by simp
  next
    case False
    let ?q = "join_with [slash] (h # ?kept)"
    have sq: "split_on slash ?q = h # ?kept" using noslash by (intro split_join_on) simp_all
    have ht: "h = [] \<Longrightarrow> t \<noteq> []"
      using segs p join_split_on[of slash p] by auto
    have "components ?q = segs_components h ?kept" by (rule components_segs[OF sq])
    also have "\<dots> = segs_components h t"
      using False root ht concat_trim_skipped[of t] by (auto simp: segs_components_def)
    finally show ?thesis using par False components_segs[OF segs] by auto
  qed
qed

lemma parent_push:
  assumes n: "plain_name n"
  shows "\<exists>q. parent (path_push p n) = Some q \<and> components q = components p"
proof -
  have r: "\<not> has_root n" by (rule plain_name_rooted[OF n])
  consider "p = []" | "p \<noteq> []" "last p \<noteq> slash" | q where "p = q @ [slash]"
    by (metis append_butlast_last_id)
  then show ?thesis
  proof cases
    case 1
    then show ?thesis using r n split_on_no_sep[of slash n]
      by (auto simp: path_push_def parent_def plain_name_def)
  next
    case 2
    then show ?thesis using parent_of_append[OF _ n] r by (simp add: path_push_def)
  next
    case 3
    show ?thesis
    proof (cases "q = []")
      case True
      then have "path_push p n = slash # n" "components p = [RootDir]"
        using 3 r by (simp_all add: path_push_def components_def has_root_def starts_with_def seg_component_def)
      moreover have "split_on slash (slash # n) = [[], n]"
        using n by (simp add: plain_name_def split_on_no_sep)
      ultimately show ?thesis
        using plain_last[OF n] by (simp add: parent_def Let_def has_root_def starts_with_def
            components_def seg_component_def)
    next
      case False
      have "components p = components q"
        using 3 False components_append_sep[of q "[]"] by (simp add: seg_component_def)
      then show ?thesis using 3 False parent_of_append[of q n] n r by (simp add: path_push_def)
    qed
  qed
qed

end
