(* ===== verification/Protocol_Types.thy ===== *)
theory Protocol_Types
  imports Rust_Io Rust_Path
begin

text \<open>
  \<open>core/src/types.rs\<close>: the protocol constants, the control messages with their wire text,
  the partial-file path and the file hashes. The JSON codec (\<open>serde_json\<close>) and SHA-256 with
  its hex encoding (crates \<open>sha2\<close> and \<open>hex\<close>) are parameters, the records \<open>json\<close> and
  \<open>hashing\<close>. The locale \<open>message_text\<close> is the contract the two ends of the control stream
  rely on: a message is parsed back from its text.
\<close>

section \<open>Constants\<close>

datatype file_transfer_status = Cancelled | Completed | HashFailed | StatusAlreadySending
  | StatusAlreadyReceiving | StatusUnwanted | Etc

definition CONTROL_STREAM_HEADER :: byte where "CONTROL_STREAM_HEADER = 1"
definition FILE_STREAM_HEADER :: byte where "FILE_STREAM_HEADER = 2"
definition PIPE_STREAM_HEADER :: byte where "PIPE_STREAM_HEADER = 3"
definition DIRECTORY_STREAM_HEADER :: byte where "DIRECTORY_STREAM_HEADER = 4"
definition FILE_CHUNK_SIZE :: nat where "FILE_CHUNK_SIZE = 2 * 1024 * 1024"
definition RESUME_THRESHOLD_BYTES :: u64 where "RESUME_THRESHOLD_BYTES = 20 * 1024 * 1024"
definition RESUME_FINGERPRINT_SIZE :: nat where "RESUME_FINGERPRINT_SIZE = 64 * 1024"
definition PARTIAL_FILE_SUFFIX :: string where "PARTIAL_FILE_SUFFIX = ''.quic-part''"
definition MAX_CONTROL_MESSAGE_BYTES :: nat where "MAX_CONTROL_MESSAGE_BYTES = 64 * 1024"
definition CURRENT_PROTOCOL_VERSION :: u32 where "CURRENT_PROTOCOL_VERSION = 1"
definition MIN_SUPPORTED_PROTOCOL_VERSION :: u32 where "MIN_SUPPORTED_PROTOCOL_VERSION = 1"

definition ALL_SUPPORTED_FEATURES :: "string list" where
  "ALL_SUPPORTED_FEATURES =
     [''directory'', ''pipe'', ''exec_hex'', ''storage_profiles'', ''conflict_policy'',
      ''checksum'', ''resume'']"

section \<open>Control messages\<close>

datatype ControlMessage =
    Metadata (m_file_name: string) (m_file_size: u64) (m_resume: bool) (m_checksum: bool)
  | Ready
  | ResumeReady (m_offset: u64) (m_prefix_hash: "string option")
  | ResumeOk
  | RestartFromZero
  | Pause
  | Resume
  | RejectedUnwanted
  | RejectedAlreadyReceiving
  | RejectedAlreadySending
  | FileSent (m_hash: string)
  | ReceivedFileOk
  | ReceivedFileFailed

record MetadataPayload =
  mp_file_name :: string
  mp_file_size :: string
  mp_resume :: bool
  mp_checksum :: bool

record ResumeReadyPayload =
  rp_offset :: string
  rp_prefix_hash :: "string option"

text \<open>\<open>serde_json::to_string\<close> and \<open>from_str\<close> at the two payload types.\<close>

record json =
  metadata_to_json :: "MetadataPayload \<Rightarrow> string"
  metadata_from_json :: "string \<Rightarrow> MetadataPayload option"
  resume_to_json :: "ResumeReadyPayload \<Rightarrow> string"
  resume_from_json :: "string \<Rightarrow> ResumeReadyPayload option"

definition metadata_payload :: "string \<Rightarrow> u64 \<Rightarrow> bool \<Rightarrow> bool \<Rightarrow> MetadataPayload" where
  "metadata_payload n sz r c =
     \<lparr>mp_file_name = n, mp_file_size = show_word sz, mp_resume = r, mp_checksum = c\<rparr>"

definition resume_payload :: "u64 \<Rightarrow> string option \<Rightarrow> ResumeReadyPayload" where
  "resume_payload off h = \<lparr>rp_offset = show_word off, rp_prefix_hash = h\<rparr>"

fun serialize :: "json \<Rightarrow> ControlMessage \<Rightarrow> string" where
  "serialize J (Metadata n sz r c) = ''METADATA:'' @ metadata_to_json J (metadata_payload n sz r c)"
| "serialize J Ready = ''READY''"
| "serialize J (ResumeReady off h) = ''RESUME_READY:'' @ resume_to_json J (resume_payload off h)"
| "serialize J ResumeOk = ''RESUME_OK''"
| "serialize J RestartFromZero = ''RESTART_FROM_ZERO''"
| "serialize J Pause = ''PAUSE''"
| "serialize J Resume = ''RESUME''"
| "serialize J RejectedUnwanted = ''REJECTED:UNWANTED''"
| "serialize J RejectedAlreadyReceiving = ''REJECTED:ALREADY_RECEIVING''"
| "serialize J RejectedAlreadySending = ''REJECTED:ALREADY_SENDING''"
| "serialize J (FileSent h) = ''FILE_SENT:'' @ h"
| "serialize J ReceivedFileOk = ''RECEIVED_FILE:OK''"
| "serialize J ReceivedFileFailed = ''RECEIVED_FILE:FAILED''"

definition parse_metadata :: "json \<Rightarrow> string \<Rightarrow> ControlMessage option" where
  "parse_metadata J js =
     (case metadata_from_json J js of
        None \<Rightarrow> None
      | Some p \<Rightarrow>
          (case parse_u64 (mp_file_size p) of
             None \<Rightarrow> None
           | Some sz \<Rightarrow> Some (Metadata (mp_file_name p) sz (mp_resume p) (mp_checksum p))))"

definition parse_resume_ready :: "json \<Rightarrow> string \<Rightarrow> ControlMessage option" where
  "parse_resume_ready J js =
     (case resume_from_json J js of
        None \<Rightarrow> None
      | Some p \<Rightarrow>
          (case parse_u64 (rp_offset p) of
             None \<Rightarrow> None
           | Some off \<Rightarrow> Some (ResumeReady off (rp_prefix_hash p))))"

definition parse :: "json \<Rightarrow> string \<Rightarrow> ControlMessage option" where
  "parse J s =
     (if s = ''READY'' then Some Ready
      else if s = ''RESUME_OK'' then Some ResumeOk
      else if s = ''RESTART_FROM_ZERO'' then Some RestartFromZero
      else if s = ''PAUSE'' then Some Pause
      else if s = ''RESUME'' then Some Resume
      else if s = ''REJECTED:UNWANTED'' then Some RejectedUnwanted
      else if s = ''REJECTED:ALREADY_RECEIVING'' then Some RejectedAlreadyReceiving
      else if s = ''REJECTED:ALREADY_SENDING'' then Some RejectedAlreadySending
      else if s = ''RECEIVED_FILE:OK'' then Some ReceivedFileOk
      else if s = ''RECEIVED_FILE:FAILED'' then Some ReceivedFileFailed
      else (case strip_prefix ''METADATA:'' s of
              Some js \<Rightarrow> parse_metadata J js
            | None \<Rightarrow>
                (case strip_prefix ''RESUME_READY:'' s of
                   Some js \<Rightarrow> parse_resume_ready J js
                 | None \<Rightarrow> map_option FileSent (strip_prefix ''FILE_SENT:'' s))))"

text \<open>The JSON codec round-trips the payload of a message.\<close>

fun json_ok :: "json \<Rightarrow> ControlMessage \<Rightarrow> bool" where
  "json_ok J (Metadata n sz r c) \<longleftrightarrow>
     metadata_from_json J (metadata_to_json J (metadata_payload n sz r c))
       = Some (metadata_payload n sz r c)"
| "json_ok J (ResumeReady off h) \<longleftrightarrow>
     resume_from_json J (resume_to_json J (resume_payload off h)) = Some (resume_payload off h)"
| "json_ok J _ \<longleftrightarrow> True"

text \<open>Messages whose text is fixed by the message alone.\<close>

fun has_payload :: "ControlMessage \<Rightarrow> bool" where
  "has_payload (Metadata _ _ _ _) = True"
| "has_payload (ResumeReady _ _) = True"
| "has_payload _ = False"

lemma starts_with_Nil [simp]: "starts_with [] s"
  by (simp add: starts_with_def)

lemma starts_with_Cons [simp]:
  "starts_with (a # p) (b # s) \<longleftrightarrow> a = b \<and> starts_with p s" "\<not> starts_with (a # p) []"
  by (auto simp: starts_with_def)

lemma parse_metadata_payload:
  "metadata_from_json J js = Some (metadata_payload n sz r c) \<Longrightarrow>
     parse_metadata J js = Some (Metadata n sz r c)"
  by (simp add: parse_metadata_def metadata_payload_def)

lemma parse_resume_payload:
  "resume_from_json J js = Some (resume_payload off h) \<Longrightarrow>
     parse_resume_ready J js = Some (ResumeReady off h)"
  by (simp add: parse_resume_ready_def resume_payload_def)

lemma parse_serialize:
  assumes "json_ok J m"
  shows "parse J (serialize J m) = Some m"
proof (cases m)
  case (Metadata n sz r c)
  have "parse J (serialize J m) = parse_metadata J (metadata_to_json J (metadata_payload n sz r c))"
    by (simp add: Metadata parse_def strip_prefix_def)
  then show ?thesis using assms Metadata by (simp add: parse_metadata_payload)
next
  case (ResumeReady off h)
  have "parse J (serialize J m) = parse_resume_ready J (resume_to_json J (resume_payload off h))"
    by (simp add: ResumeReady parse_def strip_prefix_def)
  then show ?thesis using assms ResumeReady by (simp add: parse_resume_payload)
qed (simp_all add: parse_def strip_prefix_def)

text \<open>How a text is recognised: as one of the fixed texts, or by its prefix.\<close>

lemma first_match:
  "(if s = t then Some a else r) = Some m \<Longrightarrow> (s = t \<Longrightarrow> m = a \<Longrightarrow> P) \<Longrightarrow> (r = Some m \<Longrightarrow> P) \<Longrightarrow> P"
  by (cases "s = t") simp_all

lemma parse_cases:
  assumes "parse J s = Some m"
  obtains (fixed) "\<not> has_payload m" "s = serialize J m"
    | (metadata) js where "s = ''METADATA:'' @ js" "parse_metadata J js = Some m"
    | (resume_ready) js where "s = ''RESUME_READY:'' @ js" "parse_resume_ready J js = Some m"
proof -
  have prefixed: thesis if "(case strip_prefix ''METADATA:'' s of
              Some js \<Rightarrow> parse_metadata J js
            | None \<Rightarrow>
                (case strip_prefix ''RESUME_READY:'' s of
                   Some js \<Rightarrow> parse_resume_ready J js
                 | None \<Rightarrow> map_option FileSent (strip_prefix ''FILE_SENT:'' s))) = Some m"
  proof (cases "strip_prefix ''METADATA:'' s")
    case (Some js)
    then have "s = ''METADATA:'' @ js" "parse_metadata J js = Some m"
      using that by (simp_all only: strip_prefix_Some strip_prefix_append option.case)
    then show thesis by (rule metadata)
  next
    case None
    show thesis
    proof (cases "strip_prefix ''RESUME_READY:'' s")
      case (Some js)
      then have "s = ''RESUME_READY:'' @ js" "parse_resume_ready J js = Some m"
        using that None by (simp_all only: strip_prefix_Some strip_prefix_append option.case)
      then show thesis by (rule resume_ready)
    next
      case none2: None
      have "map_option FileSent (strip_prefix ''FILE_SENT:'' s) = Some m"
        using that None none2 by simp
      then obtain h where "strip_prefix ''FILE_SENT:'' s = Some h" "m = FileSent h"
        by blast
      then have "s = serialize J m" "\<not> has_payload m" by (simp_all add: strip_prefix_Some)
      then show thesis using fixed by blast
    qed
  qed
  show thesis
    apply (insert assms)
    apply (unfold parse_def)
    apply (elim first_match)
    apply (rule fixed; simp)+
    apply (erule prefixed)
    done
qed

lemma parse_metadata_form: "parse_metadata J js = Some m \<Longrightarrow> \<exists>n sz r c. m = Metadata n sz r c"
  by (auto simp: parse_metadata_def split: option.splits)

lemma parse_resume_ready_form: "parse_resume_ready J js = Some m \<Longrightarrow> \<exists>off h. m = ResumeReady off h"
  by (auto simp: parse_resume_ready_def split: option.splits)

section \<open>The contract of the message text\<close>

locale message_text =
  fixes ser :: "'m \<Rightarrow> string" and par :: "string \<Rightarrow> 'm option" and fine :: "'m \<Rightarrow> bool"
  assumes par_ser: "fine m \<Longrightarrow> par (ser m) = Some m"
begin

lemma ser_inj: "fine a \<Longrightarrow> fine b \<Longrightarrow> ser a = ser b \<Longrightarrow> a = b"
  by (metis par_ser option.inject)

end

interpretation control_text: message_text "serialize J" "parse J" "json_ok J" for J
  by unfold_locales (rule parse_serialize)

section \<open>Partial files and hashes\<close>

text \<open>\<open>get_part_path\<close>: the name of the file with the suffix appended, in the same directory.\<close>

definition get_part_path :: "string \<Rightarrow> string" where
  "get_part_path p =
     with_file_name p ((case file_name p of None \<Rightarrow> [] | Some n \<Rightarrow> n) @ PARTIAL_FILE_SUFFIX)"

text \<open>SHA-256 of a byte sequence, and the hex text of a digest (in lower case).\<close>

record hashing =
  sha256 :: "byte list \<Rightarrow> byte list"
  hex_encode :: "byte list \<Rightarrow> string"

text \<open>
  A \<open>Sha256\<close> hasher is the bytes it has been updated with; \<open>finalize\<close> applies \<open>sha256\<close>.
  The opened file is an error or a source.
\<close>

definition hex_digest :: "hashing \<Rightarrow> byte list \<Rightarrow> string" where
  "hex_digest H bs = map ascii_lower (hex_encode H (sha256 H bs))"

definition compute_prefix_hash :: "hashing \<Rightarrow> io_error + source \<Rightarrow> nat \<Rightarrow> io_error + string" where
  "compute_prefix_hash H file max_bytes =
     rbind file (\<lambda>f. rbind (read_some f max_bytes) (\<lambda>(bs, _). Inr (hex_digest H bs)))"

function hash_rest :: "source \<Rightarrow> byte list \<Rightarrow> io_error + byte list" where
  "hash_rest f hasher =
     (case read_some f FILE_CHUNK_SIZE of
        Inl e \<Rightarrow> Inl e
      | Inr ([], _) \<Rightarrow> Inr hasher
      | Inr (b # bs, f') \<Rightarrow> hash_rest f' (hasher @ b # bs))"
  by pat_completeness auto
termination
proof (relation "measure (\<lambda>(f, h). length (pending f))", goal_cases)
  case (2 f hasher p q f' b bs)
  then show ?case
    by (auto simp: read_some_def Let_def FILE_CHUNK_SIZE_def split: if_splits)
qed simp

declare hash_rest.simps [simp del]

definition compute_file_sha256_blocking :: "hashing \<Rightarrow> io_error + source \<Rightarrow> io_error + string" where
  "compute_file_sha256_blocking H file =
     rbind file (\<lambda>f. rbind (hash_rest f []) (\<lambda>bs. Inr (hex_digest H bs)))"

lemma hash_rest_eq:
  "hash_rest f h = (if broken f then Inl ConnectionReset else Inr (h @ pending f))"
proof (induction f h rule: hash_rest.induct)
  case (1 f h)
  show ?case
  proof (cases "pending f = []")
    case True
    then show ?thesis by (simp add: hash_rest.simps[of f h] read_some_Nil)
  next
    case False
    then obtain n where n: "0 < n" "n \<le> length (pending f)"
      "read_some f FILE_CHUNK_SIZE = Inr (take n (pending f), f\<lparr>pending := drop n (pending f)\<rparr>)"
      using read_some_cases[of f FILE_CHUNK_SIZE] by (auto simp: FILE_CHUNK_SIZE_def)
    then obtain b bs where bs: "take n (pending f) = b # bs"
      by (cases "take n (pending f)") auto
    then have "h @ b # bs @ drop n (pending f) = h @ pending f"
      by (metis append_Cons append_take_drop_id)
    then show ?thesis
      using n bs 1[OF n(3)] by (simp add: hash_rest.simps[of f h])
  qed
qed

text \<open>The hash of a file does not depend on how the reads are fragmented.\<close>

lemma compute_file_sha256_eq:
  "compute_file_sha256_blocking H (Inr f) =
     (if broken f then Inl ConnectionReset else Inr (hex_digest H (pending f)))"
  by (simp add: compute_file_sha256_blocking_def hash_rest_eq)

end
