(* ===== verification/Directory_Wire.thy ===== *)
theory Directory_Wire
  imports Rust_Io Rust_Path Protocol_Types
begin

text \<open>
  The wire vocabulary of \<open>core/src/directory.rs\<close>: frame tags, transfer statistics, the check
  of relative paths, the length-prefixed paths and the final acknowledgement. \<open>wire_path\<close> are
  the texts that may travel as a path; paths are a canonical codec, so the receiver accepts
  exactly the encodings of checked paths.
\<close>

section \<open>Frames, errors and statistics\<close>

definition FRAME_START :: byte where "FRAME_START = 0x11"
definition FRAME_DIRECTORY :: byte where "FRAME_DIRECTORY = 0x12"
definition FRAME_PACK_START :: byte where "FRAME_PACK_START = 0x13"
definition FRAME_FILE :: byte where "FRAME_FILE = 0x14"
definition FRAME_PACK_END :: byte where "FRAME_PACK_END = 0x15"
definition FRAME_END :: byte where "FRAME_END = 0x16"
definition ACK_OK :: byte where "ACK_OK = 0x21"
definition ACK_ERROR :: byte where "ACK_ERROR = 0x22"

lemmas frame_tags = FRAME_START_def FRAME_DIRECTORY_def FRAME_PACK_START_def FRAME_FILE_def
  FRAME_PACK_END_def FRAME_END_def

definition MAX_PATH_BYTES :: nat where "MAX_PATH_BYTES = 32 * 1024"
definition MAX_ACK_ERROR_BYTES :: nat where "MAX_ACK_ERROR_BYTES = 4 * 1024"

datatype StorageProfile = Hdd | Auto | Nvme

fun pack_target_bytes :: "StorageProfile \<Rightarrow> u64" where
  "pack_target_bytes Hdd = 16 * 1024 * 1024"
| "pack_target_bytes Auto = 32 * 1024 * 1024"
| "pack_target_bytes Nvme = 64 * 1024 * 1024"

record DirectoryTransferStats =
  files :: u64
  directories :: u64
  bytes :: u64
  packs :: u64

definition default_stats :: DirectoryTransferStats where
  "default_stats = \<lparr>files = 0, directories = 0, bytes = 0, packs = 0\<rparr>"

text \<open>Every \<open>bail!\<close> and \<open>context\<close> of the file is a constructor; \<open>Io\<close> is a converted \<open>io::Error\<close>.\<close>

datatype dir_error =
    Io io_error
  | InvalidPath | EmptySegment | NotRelative | UnsafeComponent
  | DestinationSymlink | ComponentNotDirectory | RootNotDirectory
  | BadPathLength | PathNotUtf8
  | SourceUnresolved | SourceNotDirectory | SourceUnnamed | SourcePathNotUtf8
  | SourceUnreadable | NestedUnreadable | EntryUnreadable | OpenFailed string | SourceChanged string
  | NoStartFrame | RootNotSingle | NoDestinationName | ReplaceSymlink
  | EndedInside string | ChecksumMismatch string | TotalsMismatch | UnknownFrame
  | OversizedError | ReceiverRejected "byte list" | InvalidAck

definition io :: "io_error + 'a \<Rightarrow> dir_error + 'a" where
  "io r = map_sum Io id r"

lemma io_simps [simp]: "io (Inr a) = Inr a" "io (Inl e) = Inl (Io e)"
  by (simp_all add: io_def)

lemma io_Inr [simp]: "io r = Inr a \<longleftrightarrow> r = Inr a"
  by (cases r) auto

section \<open>Relative paths\<close>

definition safe_component :: "component \<Rightarrow> bool" where
  "safe_component c \<longleftrightarrow>
     (case c of Normal n \<Rightarrow> n \<noteq> ''.'' \<and> n \<noteq> ''..'' \<and> \<not> has_control n | _ \<Rightarrow> False)"

definition validate_relative_path :: "string \<Rightarrow> dir_error + unit" where
  "validate_relative_path v =
     (if v = [] \<or> MAX_PATH_BYTES < length v \<or> CHR 0x00 \<in> set v \<or> CHR 0x5C \<in> set v
         \<or> starts_with ''~'' v \<or> starts_with ''$'' v
      then Inl InvalidPath
      else if list_ex (\<lambda>s. s = [] \<or> s = ''.'' \<or> s = ''..'') (split_on slash v)
      then Inl EmptySegment
      else if has_root v \<or> components v = []
      then Inl NotRelative
      else if list_all safe_component (components v) then Inr () else Inl UnsafeComponent)"

definition path_to_wire :: "string \<Rightarrow> dir_error + string" where
  "path_to_wire p =
     (if utf8_valid p then
        (let v = replace_char (CHR 0x5C) [slash] p
         in rbind (validate_relative_path v) (\<lambda>_. Inr v))
      else Inl SourcePathNotUtf8)"

definition normals :: "string \<Rightarrow> string list" where
  "normals p = concat (map (\<lambda>c. case c of Normal n \<Rightarrow> [n] | _ \<Rightarrow> []) (components p))"

definition safe_child :: "string \<Rightarrow> string \<Rightarrow> dir_error + string" where
  "safe_child root rel =
     rbind (validate_relative_path rel) (\<lambda>_. Inr (foldl path_push root (normals rel)))"

abbreviation segments :: "string \<Rightarrow> string list" where
  "segments v \<equiv> split_on slash v"

lemma plain_segments:
  assumes "validate_relative_path v = Inr ()"
  shows "list_all plain_name (segments v)"
proof -
  have "\<not> list_ex (\<lambda>s. s = [] \<or> s = ''.'' \<or> s = ''..'') (segments v)"
    using assms by (auto simp: validate_relative_path_def split: if_splits)
  then show ?thesis using split_on_seg_no_sep[of _ slash v]
    by (auto simp: plain_name_def list_all_iff list_ex_iff)
qed

lemma components_of_segments:
  "list_all plain_name (segments v) \<Longrightarrow> components v = map Normal (segments v)"
  using components_join[of "segments v"] join_split_on[of slash v] by simp

lemma normals_of_segments:
  assumes "list_all plain_name (segments v)"
  shows "normals v = segments v"
proof -
  have "concat (map (\<lambda>c. case c of Normal n \<Rightarrow> [n] | _ \<Rightarrow> []) (map Normal ns)) = ns" for ns
    by (induction ns) auto
  then show ?thesis by (simp only: normals_def components_of_segments[OF assms])
qed

text \<open>The check, as a property of the segments.\<close>

lemma validate_iff:
  "validate_relative_path v = Inr () \<longleftrightarrow>
     length v \<le> MAX_PATH_BYTES
     \<and> CHR 0x00 \<notin> set v \<and> CHR 0x5C \<notin> set v
     \<and> \<not> starts_with ''~'' v \<and> \<not> starts_with ''$'' v
     \<and> list_all (\<lambda>s. plain_name s \<and> \<not> has_control s) (segments v)" (is "?L \<longleftrightarrow> ?R")
proof
  assume L: ?L
  then have p: "list_all plain_name (segments v)" by (rule plain_segments)
  then have "list_all safe_component (map Normal (segments v))"
    using L components_of_segments[OF p] by (simp add: validate_relative_path_def split: if_splits)
  then show ?R using L p
    by (auto simp: validate_relative_path_def safe_component_def list_all_iff split: if_splits)
next
  assume R: ?R
  then have p: "list_all plain_name (segments v)" by (auto simp: list_all_iff)
  then have "v \<noteq> []" by (auto simp: plain_name_def)
  moreover have "\<not> list_ex (\<lambda>s. s = [] \<or> s = ''.'' \<or> s = ''..'') (segments v)"
    using p by (auto simp: list_ex_iff list_all_iff plain_name_def)
  moreover have "\<not> has_root v"
    using join_plain_not_root[of "segments v"] p join_split_on[of slash v] by simp
  moreover have "list_all safe_component (map Normal (segments v))"
    using R by (auto simp: list_all_iff safe_component_def plain_name_def)
  ultimately show ?L
    using R components_of_segments[OF p] by (simp add: validate_relative_path_def)
qed

lemma safe_child_segments:
  "validate_relative_path rel = Inr () \<Longrightarrow>
     safe_child root rel = Inr (foldl path_push root (segments rel))"
  by (simp add: safe_child_def normals_of_segments plain_segments)

section \<open>Integers and paths on the wire\<close>

definition write_u8 :: "sink \<Rightarrow> byte \<Rightarrow> dir_error + sink" where
  "write_u8 w b = io (write_all w [b])"

definition write_u32 :: "sink \<Rightarrow> u32 \<Rightarrow> dir_error + sink" where
  "write_u32 w v = io (write_all w (u32_to_be v))"

definition read_u32 :: "source \<Rightarrow> dir_error + (u32 \<times> source)" where
  "read_u32 r = io (rbind (read_exact r 4) (\<lambda>(bs, r'). Inr (u32_from_be bs, r')))"

definition write_path :: "sink \<Rightarrow> string \<Rightarrow> dir_error + sink" where
  "write_path w v =
     rbind (validate_relative_path v) (\<lambda>_.
     rbind (write_u32 w (word_of_nat (length v))) (\<lambda>w.
     io (write_all w (as_bytes v))))"

definition read_path :: "source \<Rightarrow> dir_error + (string \<times> source)" where
  "read_path r =
     rbind (read_u32 r) (\<lambda>(len, r).
     let n = unat len in
     rbind (ensure (0 < n \<and> n \<le> MAX_PATH_BYTES) BadPathLength) (\<lambda>_.
     rbind (io (read_exact r n)) (\<lambda>(bs, r).
     rbind (ok_or PathNotUtf8 (from_utf8 bs)) (\<lambda>v.
     rbind (validate_relative_path v) (\<lambda>_. Inr (v, r))))))"

definition write_pack_start :: "sink \<Rightarrow> u64 \<Rightarrow> dir_error + sink" where
  "write_pack_start w pack =
     rbind (write_u8 w FRAME_PACK_START) (\<lambda>w. io (write_all w (u64_to_be pack)))"

definition wire_path :: "string \<Rightarrow> bool" where
  "wire_path v \<longleftrightarrow> utf8_valid v \<and> validate_relative_path v = Inr ()"

definition path_bytes :: "string \<Rightarrow> byte list" where
  "path_bytes v = u32_to_be (word_of_nat (length v)) @ as_bytes v"

lemma validate_length: "validate_relative_path v = Inr () \<Longrightarrow> 0 < length v \<and> length v \<le> MAX_PATH_BYTES"
  by (auto simp: validate_relative_path_def split: if_splits)

lemma path_length_word:
  assumes "length v \<le> MAX_PATH_BYTES"
  shows "unat (word_of_nat (length v) :: u32) = length v"
  using assms by (intro unat_word_of_nat) (simp add: MAX_PATH_BYTES_def)

lemma write_path_Inr:
  "validate_relative_path v = Inr () \<Longrightarrow> room w = None \<Longrightarrow>
     write_path w v = Inr (w\<lparr>written := written w @ path_bytes v\<rparr>)"
  by (simp add: write_path_def write_u32_def path_bytes_def)

lemma read_path_enc:
  assumes "wire_path v" "pending r = path_bytes v @ rest"
  shows "read_path r = Inr (v, r\<lparr>pending := rest\<rparr>)"
proof -
  have v: "validate_relative_path v = Inr ()" "utf8_valid v" using assms by (auto simp: wire_path_def)
  have len: "unat (word_of_nat (length v) :: u32) = length v"
    using validate_length[OF v(1)] by (intro path_length_word) simp
  show ?thesis
    using assms(2) v len validate_length[OF v(1)]
    by (simp add: read_path_def read_u32_def path_bytes_def Let_def ensure_def ok_or_def)
qed

lemma read_path_sound:
  assumes "read_path r = Inr (v, r')"
  shows "wire_path v \<and> (\<exists>rest. pending r = path_bytes v @ rest \<and> r' = r\<lparr>pending := rest\<rparr>)"
proof -
  obtain lb rest1 where l: "pending r = lb @ rest1" "length lb = 4"
    and n: "unat (u32_from_be lb) \<le> MAX_PATH_BYTES"
    and e: "read_exact (r\<lparr>pending := rest1\<rparr>) (unat (u32_from_be lb)) = Inr (as_bytes v, r')"
    and v: "utf8_valid v" "validate_relative_path v = Inr ()"
    using assms
    by (auto simp: read_path_def read_u32_def Let_def rbind_Inr_iff read_exact_Inr from_utf8_Some)
  obtain rest where rest: "rest1 = as_bytes v @ rest" "length v = unat (u32_from_be lb)"
    "r' = r\<lparr>pending := rest\<rparr>"
    using e by (auto simp: read_exact_Inr)
  have "u32_to_be (word_of_nat (length v)) = lb"
    using l rest by (simp add: u32_to_from_be)
  then show ?thesis using v l rest by (auto simp: wire_path_def path_bytes_def)
qed

interpretation path_codec: canonical_codec path_bytes read_path wire_path
  by unfold_locales (simp_all add: read_path_enc read_path_sound)

lemma read_path_pending:
  "read_path r = Inr (v, r') \<Longrightarrow> wire_path v \<and> length (pending r') < length (pending r)"
  using read_path_sound[of r v r'] by (auto simp: path_bytes_def)

lemma utf8_valid_join:
  "utf8_valid (join_with [slash] ss) \<longleftrightarrow> list_all utf8_valid ss"
proof (induction "[slash]" ss rule: join_with.induct)
  case (3 s t ss)
  have "is_ascii slash" by (simp add: is_ascii_def code_def)
  then show ?case using 3 utf8_valid_append_ascii[of slash s] by simp
qed simp_all

lemma join_segments [simp]: "join_with [slash] (segments v) = v"
  by (rule join_split_on)

lemma segments_join:
  "ns \<noteq> [] \<Longrightarrow> list_all plain_name ns \<Longrightarrow> segments (join_with [slash] ns) = ns"
  by (rule split_join_on) (auto simp: list_all_iff plain_name_def)

lemma wire_path_segments:
  "wire_path v \<Longrightarrow> list_all (\<lambda>s. plain_name s \<and> utf8_valid s) (segments v)"
  using utf8_valid_join[of "segments v"] plain_segments[of v]
  by (auto simp: wire_path_def list_all_iff)

text \<open>A nonempty prefix of the segments of a wire path is a wire path.\<close>

lemma wire_path_prefix:
  assumes "wire_path v" "segments v = xs @ ys" "xs \<noteq> []"
  shows "wire_path (join_with [slash] xs)"
proof (cases "ys = []")
  case True
  then show ?thesis using assms join_segments[of v] by simp
next
  case False
  let ?x = "join_with [slash] xs"
  have v: "v = ?x @ slash # join_with [slash] ys"
    using join_with_append[of xs ys "[slash]"] assms False join_segments[of v] by simp
  have p: "list_all plain_name xs" "list_all utf8_valid xs"
    and c: "list_all (\<lambda>s. plain_name s \<and> \<not> has_control s) xs"
    using wire_path_segments[OF assms(1)] assms by (auto simp: list_all_iff wire_path_def validate_iff)
  have "?x \<noteq> []" using p assms(3)
    by (cases "([slash], xs)" rule: join_with.cases) (auto simp: plain_name_def)
  then have "\<not> starts_with ''~'' ?x" "\<not> starts_with ''$'' ?x"
    using assms(1) v by (auto simp: wire_path_def validate_iff starts_with_def)
  then have "validate_relative_path ?x = Inr ()"
    using assms c v segments_join[OF assms(3) p(1)]
    by (simp add: wire_path_def validate_iff)
  then show ?thesis using utf8_valid_join p by (simp add: wire_path_def)
qed

section \<open>The acknowledgement\<close>

text \<open>
  \<open>to_string\<close> of the error; the texts of \<open>io::Error\<close> (\<open>io_msg\<close>) are the platform's, and the
  texts of the error cases that carry a path print it.
\<close>

fun dir_message :: "(io_error \<Rightarrow> string) \<Rightarrow> dir_error \<Rightarrow> string" where
  "dir_message io_msg (Io e) = io_msg e"
| "dir_message io_msg InvalidPath = ''invalid directory transfer path''"
| "dir_message io_msg EmptySegment = ''directory transfer path contains empty or relative segment''"
| "dir_message io_msg NotRelative = ''directory transfer path must be relative''"
| "dir_message io_msg UnsafeComponent = ''directory transfer path contains an unsafe component''"
| "dir_message io_msg DestinationSymlink = ''refusing destination symlink in directory transfer''"
| "dir_message io_msg ComponentNotDirectory = ''destination directory component is not a directory''"
| "dir_message io_msg RootNotDirectory = ''directory transfer root is not a real directory''"
| "dir_message io_msg BadPathLength = ''directory transfer path length is invalid''"
| "dir_message io_msg PathNotUtf8 = ''directory transfer path is not UTF-8''"
| "dir_message io_msg SourceUnresolved = ''could not resolve source directory''"
| "dir_message io_msg SourceNotDirectory = ''directory transfer source is not a directory''"
| "dir_message io_msg SourceUnnamed = ''directory transfer source has no directory name''"
| "dir_message io_msg SourcePathNotUtf8 = ''directory transfer currently requires UTF-8 paths''"
| "dir_message io_msg SourceUnreadable = ''could not read source directory''"
| "dir_message io_msg NestedUnreadable = ''could not read nested source directory''"
| "dir_message io_msg EntryUnreadable = ''could not enumerate source directory''"
| "dir_message io_msg (OpenFailed p) = ''could not open '' @ p"
| "dir_message io_msg (SourceChanged p) = ''source file changed while being transferred: '' @ p"
| "dir_message io_msg NoStartFrame = ''directory transfer did not start with a directory frame''"
| "dir_message io_msg RootNotSingle = ''directory transfer root must be one path component''"
| "dir_message io_msg NoDestinationName = ''safe destination has no name''"
| "dir_message io_msg ReplaceSymlink = ''refusing to replace destination symlink''"
| "dir_message io_msg (EndedInside p) = ''directory transfer ended inside file '' @ p"
| "dir_message io_msg (ChecksumMismatch p) = ''directory transfer checksum mismatch for '' @ p"
| "dir_message io_msg TotalsMismatch = ''directory transfer totals do not match received data''"
| "dir_message io_msg UnknownFrame = ''directory transfer contains an unknown frame''"
| "dir_message io_msg OversizedError = ''directory receiver returned an oversized error''"
| "dir_message io_msg (ReceiverRejected bs) =
     ''directory receiver rejected transfer: '' @ utf8_lossy (string_of_bytes bs)"
| "dir_message io_msg InvalidAck = ''directory receiver returned an invalid acknowledgement''"

definition write_directory_ack ::
    "(io_error \<Rightarrow> string) \<Rightarrow> sink \<Rightarrow> dir_error + DirectoryTransferStats \<Rightarrow> dir_error + sink" where
  "write_directory_ack io_msg w result =
     (case result of
        Inr stats \<Rightarrow>
          rbind (write_u8 w ACK_OK) (\<lambda>w.
          rbind (io (write_all w (u64_to_be (files stats)))) (\<lambda>w.
          io (write_all w (u64_to_be (bytes stats)))))
      | Inl error \<Rightarrow>
          (let bs = take MAX_ACK_ERROR_BYTES (as_bytes (dir_message io_msg error)) in
           rbind (write_u8 w ACK_ERROR) (\<lambda>w.
           rbind (write_u32 w (word_of_nat (length bs))) (\<lambda>w.
           io (write_all w bs)))))"

definition read_directory_ack :: "source \<Rightarrow> dir_error + (DirectoryTransferStats \<times> source)" where
  "read_directory_ack r =
     rbind (io (read_u8 r)) (\<lambda>(tag, r).
     if tag = ACK_OK then
       rbind (io (read_exact r 16)) (\<lambda>(v, r).
       Inr (default_stats\<lparr>files := u64_from_be (take 8 v), bytes := u64_from_be (drop 8 v)\<rparr>, r))
     else if tag = ACK_ERROR then
       rbind (read_u32 r) (\<lambda>(len, r).
       rbind (ensure (unat len \<le> MAX_ACK_ERROR_BYTES) OversizedError) (\<lambda>_.
       rbind (io (read_exact r (unat len))) (\<lambda>(bs, r). Inl (ReceiverRejected bs))))
     else Inl InvalidAck)"

lemma ack_ok_roundtrip:
  assumes "room w = None" "written w = []"
    and "write_directory_ack io_msg w (Inr st) = Inr w'" "pending r = written w' @ rest"
  shows "read_directory_ack r =
     Inr (default_stats\<lparr>files := files st, bytes := bytes st\<rparr>, r\<lparr>pending := rest\<rparr>)"
proof -
  have p: "pending r = ACK_OK # (u64_to_be (files st) @ u64_to_be (bytes st)) @ rest"
    using assms by (auto simp: write_directory_ack_def write_u8_def)
  have "read_exact (r\<lparr>pending := (u64_to_be (files st) @ u64_to_be (bytes st)) @ rest\<rparr>) 16
      = Inr (u64_to_be (files st) @ u64_to_be (bytes st), r\<lparr>pending := rest\<rparr>)"
    by (subst read_exact_append[where rest = rest]) simp_all
  then show ?thesis using p by (simp add: read_directory_ack_def)
qed

lemma ack_error_roundtrip:
  assumes "room w = None" "written w = []"
    and "write_directory_ack io_msg w (Inl e) = Inr w'" "pending r = written w' @ rest"
  shows "read_directory_ack r =
     Inl (ReceiverRejected (take MAX_ACK_ERROR_BYTES (as_bytes (dir_message io_msg e))))"
proof -
  let ?bs = "take MAX_ACK_ERROR_BYTES (as_bytes (dir_message io_msg e))"
  have len: "length ?bs \<le> MAX_ACK_ERROR_BYTES" by simp
  then have u: "unat (word_of_nat (length ?bs) :: u32) = length ?bs"
    by (intro unat_word_of_nat) (simp add: MAX_ACK_ERROR_BYTES_def)
  have p: "pending r = ACK_ERROR # u32_to_be (word_of_nat (length ?bs)) @ ?bs @ rest"
    using assms by (auto simp: write_directory_ack_def write_u8_def write_u32_def Let_def)
  define lb where "lb = u32_to_be (word_of_nat (length ?bs))"
  have "read_u32 (r\<lparr>pending := lb @ ?bs @ rest\<rparr>) = Inr (word_of_nat (length ?bs), r\<lparr>pending := ?bs @ rest\<rparr>)"
    by (simp add: read_u32_def lb_def)
  moreover have "read_exact (r\<lparr>pending := ?bs @ rest\<rparr>) (length ?bs) = Inr (?bs, r\<lparr>pending := rest\<rparr>)"
    by (subst read_exact_append[where rest = rest]) simp_all
  ultimately show ?thesis using p u len
    by (simp add: read_directory_ack_def ACK_OK_def ACK_ERROR_def ensure_def lb_def[symmetric]
        del: length_take)
qed

end
