(* ===== verification/Directory_Send.thy ===== *)
theory Directory_Send
  imports Directory_Wire
begin

text \<open>
  \<open>send_directory\<close> of \<open>core/src/directory.rs\<close>. The source directory is what its iterators
  deliver: an ordered tree of entries, a file being its \<open>metadata().len()\<close> and what \<open>open\<close>
  returns. The sender is the loop over the stack of open iterators; \<open>frames_of\<close> is what it
  has to write, stated by recursion on the tree, and \<open>send_loop_frames\<close> the refinement.
\<close>

section \<open>The source tree\<close>

datatype entry =
    SFile string u64 "io_error + source"
  | SDir string "entry list"
  | SClosedDir string
  | SLink string
  | SSpecial string
  | SUnreadable

record source_dir =
  canonical :: "io_error + string"
  is_a_dir :: bool
  listing :: "io_error + entry list"

fun weight :: "entry \<Rightarrow> nat" where
  "weight (SDir n es) = 2 + sum_list (map weight es)"
| "weight _ = 1"

type_synonym walk_stack = "(string list \<times> entry list) list"

definition stack_weight :: "walk_stack \<Rightarrow> nat" where
  "stack_weight st = sum_list (map (\<lambda>(pre, es). 1 + sum_list (map weight es)) st)"

section \<open>The sender\<close>

record sender =
  out :: sink
  stats :: DirectoryTransferStats
  pack_bytes :: u64
  pack_number :: u64

record send_config =
  sha :: "byte list \<Rightarrow> byte list"
  source_path :: string
  profile :: StorageProfile
  with_checksum :: bool

definition saturating_add :: "u64 \<Rightarrow> u64 \<Rightarrow> u64" where
  "saturating_add a b = (if a + b < a then - 1 else a + b)"

definition full_path :: "send_config \<Rightarrow> string list \<Rightarrow> string" where
  "full_path cfg names = foldl path_push (source_path cfg) names"

text \<open>The loop that copies a file through the chunk buffer, updating the hasher if there is one.\<close>

function copy_out :: "string \<Rightarrow> source \<Rightarrow> nat \<Rightarrow> byte list option \<Rightarrow> sink
    \<Rightarrow> dir_error + (byte list option \<times> sink)" where
  "copy_out path file remaining hasher w =
     (if remaining = 0 then Inr (hasher, w)
      else (case read_some file (min remaining FILE_CHUNK_SIZE) of
              Inl e \<Rightarrow> Inl (Io e)
            | Inr ([], _) \<Rightarrow> Inl (SourceChanged path)
            | Inr (b # bs, file') \<Rightarrow>
                (case write_all w (b # bs) of
                   Inl e \<Rightarrow> Inl (Io e)
                 | Inr w' \<Rightarrow>
                     copy_out path file' (remaining - length (b # bs))
                       (map_option (\<lambda>h. h @ b # bs) hasher) w')))"
  by pat_completeness auto
termination
  by (relation "measure (\<lambda>(p, f, n, h, w). n)") auto

declare copy_out.simps [simp del]

definition start_pack_if_full :: "send_config \<Rightarrow> u64 \<Rightarrow> sender \<Rightarrow> dir_error + sender" where
  "start_pack_if_full cfg file_size s =
     (if 0 < pack_bytes s
         \<and> pack_target_bytes (profile cfg) < saturating_add (pack_bytes s) file_size
      then
        rbind (write_u8 (out s) FRAME_PACK_END) (\<lambda>w.
        let number = pack_number s + 1 in
        rbind (write_pack_start w number) (\<lambda>w.
        Inr (s\<lparr>out := w, pack_number := number, pack_bytes := 0,
               stats := (stats s)\<lparr>packs := packs (stats s) + 1\<rparr>\<rparr>)))
      else Inr s)"

definition send_file :: "send_config \<Rightarrow> string list \<Rightarrow> string \<Rightarrow> u64 \<Rightarrow> io_error + source \<Rightarrow> sender
    \<Rightarrow> dir_error + sender" where
  "send_file cfg names rel file_size opened s =
     rbind (start_pack_if_full cfg file_size s) (\<lambda>s.
     rbind (write_u8 (out s) FRAME_FILE) (\<lambda>w.
     rbind (write_path w rel) (\<lambda>w.
     rbind (io (write_all w (u64_to_be file_size))) (\<lambda>w.
     rbind (write_u8 w (if with_checksum cfg then 1 else 0)) (\<lambda>w.
     rbind (case opened of Inl _ \<Rightarrow> Inl (OpenFailed (full_path cfg names)) | Inr f \<Rightarrow> Inr f) (\<lambda>file.
     rbind (copy_out (full_path cfg names) file (unat file_size)
              (if with_checksum cfg then Some [] else None) w) (\<lambda>(hasher, w).
     rbind (case hasher of None \<Rightarrow> Inr w | Some h \<Rightarrow> io (write_all w (sha cfg h))) (\<lambda>w.
     Inr (s\<lparr>out := w,
            stats := (stats s)\<lparr>files := files (stats s) + 1, bytes := bytes (stats s) + file_size\<rparr>,
            pack_bytes := pack_bytes s + file_size\<rparr>)))))))))"

definition send_dir_frame :: "string \<Rightarrow> sender \<Rightarrow> dir_error + sender" where
  "send_dir_frame rel s =
     rbind (write_u8 (out s) FRAME_DIRECTORY) (\<lambda>w.
     rbind (write_path w rel) (\<lambda>w.
     Inr (s\<lparr>out := w, stats := (stats s)\<lparr>directories := directories (stats s) + 1\<rparr>\<rparr>)))"

text \<open>One entry of the iterator on top of the stack: the iterators to push, and the new state.\<close>

definition send_entry :: "send_config \<Rightarrow> string list \<Rightarrow> entry \<Rightarrow> sender
    \<Rightarrow> dir_error + (walk_stack \<times> sender)" where
  "send_entry cfg pre e s =
     (let wire = (\<lambda>n. path_to_wire (join_with [slash] (pre @ [n]))) in
      case e of
        SUnreadable \<Rightarrow> Inl EntryUnreadable
      | SLink n \<Rightarrow> Inr ([], s)
      | SSpecial n \<Rightarrow> rbind (wire n) (\<lambda>_. Inr ([], s))
      | SDir n es \<Rightarrow>
          rbind (wire n) (\<lambda>rel. rbind (send_dir_frame rel s) (\<lambda>s. Inr ([(pre @ [n], es)], s)))
      | SClosedDir n \<Rightarrow>
          rbind (wire n) (\<lambda>rel. rbind (send_dir_frame rel s) (\<lambda>s. Inl NestedUnreadable))
      | SFile n len opened \<Rightarrow>
          rbind (wire n) (\<lambda>rel.
          rbind (send_file cfg (pre @ [n]) rel len opened s) (\<lambda>s. Inr ([], s))))"

lemma send_entry_weight:
  "send_entry cfg pre e s = Inr (push, s') \<Longrightarrow> stack_weight push < weight e"
  by (auto simp: send_entry_def rbind_Inr_iff stack_weight_def Let_def split: entry.splits)

function send_loop :: "send_config \<Rightarrow> walk_stack \<Rightarrow> sender \<Rightarrow> dir_error + sender" where
  "send_loop cfg [] s = Inr s"
| "send_loop cfg ((pre, []) # st) s = send_loop cfg st s"
| "send_loop cfg ((pre, e # es) # st) s =
     (case send_entry cfg pre e s of
        Inl err \<Rightarrow> Inl err
      | Inr (push, s') \<Rightarrow> send_loop cfg (push @ (pre, es) # st) s')"
  by pat_completeness auto
termination
proof (relation "measure (\<lambda>(cfg, st, s). stack_weight st)", goal_cases)
  case (3 cfg pre e es st s p push s')
  then have "stack_weight push < weight e" using send_entry_weight by auto
  then show ?case by (simp add: stack_weight_def)
qed (auto simp: stack_weight_def)

definition send_directory ::
    "hashing \<Rightarrow> sink \<Rightarrow> source_dir \<Rightarrow> StorageProfile \<Rightarrow> bool
       \<Rightarrow> dir_error + (DirectoryTransferStats \<times> sink)" where
  "send_directory H w src prof ck =
     rbind (case canonical src of Inl _ \<Rightarrow> Inl SourceUnresolved | Inr p \<Rightarrow> Inr p) (\<lambda>source.
     rbind (ensure (is_a_dir src) SourceNotDirectory) (\<lambda>_.
     rbind (ok_or SourceUnnamed (file_name source)) (\<lambda>name.
     rbind (path_to_wire name) (\<lambda>root_name.
     rbind (write_u8 w FRAME_START) (\<lambda>w.
     rbind (write_path w root_name) (\<lambda>w.
     rbind (write_pack_start w 0) (\<lambda>w.
     rbind (case listing src of Inl _ \<Rightarrow> Inl SourceUnreadable | Inr es \<Rightarrow> Inr es) (\<lambda>entries.
     rbind (send_loop \<lparr>sha = sha256 H, source_path = source, profile = prof, with_checksum = ck\<rparr>
              [([], entries)]
              \<lparr>out = w, stats = default_stats\<lparr>directories := 1, packs := 1\<rparr>,
               pack_bytes = 0, pack_number = 0\<rparr>) (\<lambda>s.
     rbind (write_u8 (out s) FRAME_PACK_END) (\<lambda>w.
     rbind (write_u8 w FRAME_END) (\<lambda>w.
     rbind (io (write_all w (u64_to_be (files (stats s))))) (\<lambda>w.
     rbind (io (write_all w (u64_to_be (directories (stats s))))) (\<lambda>w.
     rbind (io (write_all w (u64_to_be (bytes (stats s))))) (\<lambda>w.
     Inr (stats s, w)))))))))))))))"

section \<open>Frames\<close>

text \<open>
  What travels, independently of how it is produced: the frames of a transfer, their bytes
  (\<open>dg\<close> is the digest that follows a checked file) and how they count in the statistics.
\<close>

datatype frame =
    FDirectory string
  | FPackStart u64
  | FPackEnd
  | FFile string bool "byte list"

fun frame_bytes :: "(byte list \<Rightarrow> byte list) \<Rightarrow> frame \<Rightarrow> byte list" where
  "frame_bytes dg (FDirectory rel) = FRAME_DIRECTORY # path_bytes rel"
| "frame_bytes dg (FPackStart n) = FRAME_PACK_START # u64_to_be n"
| "frame_bytes dg FPackEnd = [FRAME_PACK_END]"
| "frame_bytes dg (FFile rel ck c) =
     FRAME_FILE # path_bytes rel @ u64_to_be (word_of_nat (length c)) @ [if ck then 1 else 0]
       @ c @ (if ck then dg c else [])"

fun tally :: "frame \<Rightarrow> DirectoryTransferStats \<Rightarrow> DirectoryTransferStats" where
  "tally (FDirectory rel) st = st\<lparr>directories := directories st + 1\<rparr>"
| "tally (FPackStart n) st = st\<lparr>packs := packs st + 1\<rparr>"
| "tally FPackEnd st = st"
| "tally (FFile rel ck c) st =
     st\<lparr>files := files st + 1, bytes := bytes st + word_of_nat (length c)\<rparr>"

datatype item = IDir string | IFile string "byte list"

definition wire_text :: "string list \<Rightarrow> string" where
  "wire_text names = replace_char (CHR 0x5C) [slash] (join_with [slash] names)"

definition content_of :: "io_error + source \<Rightarrow> byte list" where
  "content_of opened = (case opened of Inl _ \<Rightarrow> [] | Inr f \<Rightarrow> pending f)"

fun items_of :: "string list \<Rightarrow> entry \<Rightarrow> item list" where
  "items_of pre (SFile n len opened) =
     [IFile (wire_text (pre @ [n])) (take (unat len) (content_of opened))]"
| "items_of pre (SDir n es) = IDir (wire_text (pre @ [n])) # concat (map (items_of (pre @ [n])) es)"
| "items_of pre _ = []"

definition wire_ok :: "string list \<Rightarrow> bool" where
  "wire_ok names \<longleftrightarrow>
     utf8_valid (join_with [slash] names) \<and> validate_relative_path (wire_text names) = Inr ()"

text \<open>The entries the sender can transfer: readable, with paths that may travel.\<close>

fun sendable :: "string list \<Rightarrow> entry \<Rightarrow> bool" where
  "sendable pre (SFile n len opened) \<longleftrightarrow>
     wire_ok (pre @ [n])
     \<and> (case opened of Inl _ \<Rightarrow> False | Inr f \<Rightarrow> unat len \<le> length (pending f))"
| "sendable pre (SDir n es) \<longleftrightarrow> wire_ok (pre @ [n]) \<and> list_all (sendable (pre @ [n])) es"
| "sendable pre (SLink n) \<longleftrightarrow> True"
| "sendable pre (SSpecial n) \<longleftrightarrow> wire_ok (pre @ [n])"
| "sendable pre (SClosedDir n) \<longleftrightarrow> False"
| "sendable pre SUnreadable \<longleftrightarrow> False"

definition pack_full :: "u64 \<Rightarrow> u64 \<Rightarrow> u64 \<Rightarrow> bool" where
  "pack_full target pb len \<longleftrightarrow> 0 < pb \<and> target < saturating_add pb len"

fun item_frames :: "u64 \<Rightarrow> bool \<Rightarrow> u64 \<times> u64 \<Rightarrow> item \<Rightarrow> frame list \<times> u64 \<times> u64" where
  "item_frames target ck (pb, num) (IDir rel) = ([FDirectory rel], pb, num)"
| "item_frames target ck (pb, num) (IFile rel c) =
     (let len = word_of_nat (length c) in
      if pack_full target pb len
      then ([FPackEnd, FPackStart (num + 1), FFile rel ck c], len, num + 1)
      else ([FFile rel ck c], pb + len, num))"

fun frames_of :: "u64 \<Rightarrow> bool \<Rightarrow> u64 \<times> u64 \<Rightarrow> item list \<Rightarrow> frame list" where
  "frames_of target ck acc [] = []"
| "frames_of target ck acc (i # is) =
     (let (fs, acc') = item_frames target ck acc i in fs @ frames_of target ck acc' is)"

text \<open>The whole transfer of the items below a root.\<close>

definition transfer_frames :: "StorageProfile \<Rightarrow> bool \<Rightarrow> item list \<Rightarrow> frame list" where
  "transfer_frames prof ck is = FPackStart 0 # frames_of (pack_target_bytes prof) ck (0, 0) is"

definition totals_bytes :: "DirectoryTransferStats \<Rightarrow> byte list" where
  "totals_bytes st = u64_to_be (files st) @ u64_to_be (directories st) @ u64_to_be (bytes st)"

definition transfer_bytes :: "(byte list \<Rightarrow> byte list) \<Rightarrow> string \<Rightarrow> frame list \<Rightarrow> byte list" where
  "transfer_bytes dg root fs =
     FRAME_START # path_bytes root @ concat (map (frame_bytes dg) (fs @ [FPackEnd]))
       @ [FRAME_END] @ totals_bytes (fold tally fs (default_stats\<lparr>directories := 1\<rparr>))"

section \<open>The sender writes the frames of the tree\<close>

lemma path_to_wire_ok: "wire_ok names \<Longrightarrow> path_to_wire (join_with [slash] names) = Inr (wire_text names)"
  by (simp add: wire_ok_def path_to_wire_def wire_text_def)

lemma write_u8_ok [simp]: "room w = None \<Longrightarrow> write_u8 w b = Inr (w\<lparr>written := written w @ [b]\<rparr>)"
  by (simp add: write_u8_def)

lemma write_pack_start_ok [simp]:
  "room w = None \<Longrightarrow>
     write_pack_start w n = Inr (w\<lparr>written := written w @ FRAME_PACK_START # u64_to_be n\<rparr>)"
  by (simp add: write_pack_start_def)

lemma copy_out_eq:
  "room w = None \<Longrightarrow>
     copy_out path f n h w =
       (if n \<le> length (pending f)
        then Inr (map_option (\<lambda>h. h @ take n (pending f)) h, w\<lparr>written := written w @ take n (pending f)\<rparr>)
        else Inl (if broken f then Io ConnectionReset else SourceChanged path))"
proof (induction n arbitrary: f h w rule: less_induct)
  case (less n)
  show ?case
  proof (cases "n = 0 \<or> pending f = []")
    case True
    then show ?thesis
      by (cases h) (auto simp: copy_out.simps[of path f n] read_some_Nil)
  next
    case False
    then obtain k where k: "0 < k" "k \<le> n" "k \<le> length (pending f)"
      "read_some f (min n FILE_CHUNK_SIZE) = Inr (take k (pending f), f\<lparr>pending := drop k (pending f)\<rparr>)"
      using read_some_cases[of f "min n FILE_CHUNK_SIZE"] by (auto simp: FILE_CHUNK_SIZE_def)
    then obtain b bs where bs: "take k (pending f) = b # bs"
      by (cases "take k (pending f)") auto
    have len: "length (b # bs) = k" using k by (simp flip: bs)
    have split_take: "take k (pending f) @ take (n - k) (drop k (pending f)) = take n (pending f)"
      using k by (metis le_add_diff_inverse take_add)
    let ?w = "w\<lparr>written := written w @ b # bs\<rparr>" and ?f = "f\<lparr>pending := drop k (pending f)\<rparr>"
    have "copy_out path f n h w = copy_out path ?f (n - k) (map_option (\<lambda>h. h @ b # bs) h) ?w"
      using False k bs len less.prems by (simp add: copy_out.simps[of path f n])
    also have "\<dots> =
       (if n - k \<le> length (pending ?f)
        then Inr (map_option (\<lambda>h. h @ take (n - k) (pending ?f)) (map_option (\<lambda>h. h @ b # bs) h),
                  ?w\<lparr>written := written ?w @ take (n - k) (pending ?f)\<rparr>)
        else Inl (if broken ?f then Io ConnectionReset else SourceChanged path))"
      using k less.prems by (intro less.IH) simp_all
    finally show ?thesis
      using k split_take bs by (cases h) auto
  qed
qed

text \<open>The abstract sender: an item's frames are appended and counted.\<close>

definition emit :: "send_config \<Rightarrow> item \<Rightarrow> sender \<Rightarrow> sender" where
  "emit cfg i s =
     (let (fs, pb, num) = item_frames (pack_target_bytes (profile cfg)) (with_checksum cfg)
                            (pack_bytes s, pack_number s) i
      in s\<lparr>out := (out s)\<lparr>written := written (out s) @ concat (map (frame_bytes (sha cfg)) fs)\<rparr>,
           stats := fold tally fs (stats s), pack_bytes := pb, pack_number := num\<rparr>)"

definition stack_items :: "walk_stack \<Rightarrow> item list" where
  "stack_items st = concat (map (\<lambda>(pre, es). concat (map (items_of pre) es)) st)"

definition stack_sendable :: "walk_stack \<Rightarrow> bool" where
  "stack_sendable st = list_all (\<lambda>(pre, es). list_all (sendable pre) es) st"

lemma room_emit [simp]: "room (out (emit cfg i s)) = room (out s)"
  by (simp add: emit_def split: prod.splits)

lemma send_dir_frame_ok:
  assumes "validate_relative_path rel = Inr ()" "room (out s) = None"
  shows "send_dir_frame rel s = Inr (emit cfg (IDir rel) s)"
  using assms by (simp add: send_dir_frame_def emit_def write_path_Inr)

lemma send_file_ok:
  assumes "validate_relative_path rel = Inr ()" "room (out s) = None"
    and "unat len \<le> length (pending f)"
  shows "send_file cfg names rel len (Inr f) s = Inr (emit cfg (IFile rel (take (unat len) (pending f))) s)"
proof -
  have l: "word_of_nat (length (take (unat len) (pending f))) = len"
    using assms(3) by simp
  show ?thesis
    using assms l
    by (cases "pack_full (pack_target_bytes (profile cfg)) (pack_bytes s) len")
      (simp_all add: send_file_def start_pack_if_full_def emit_def pack_full_def[symmetric]
        write_path_Inr copy_out_eq Let_def)
qed

lemma send_entry_ok:
  assumes "sendable pre e" "room (out s) = None"
  obtains push s' where "send_entry cfg pre e s = Inr (push, s')" "room (out s') = None"
    "stack_sendable push"
    "fold (emit cfg) (stack_items push) s' = fold (emit cfg) (items_of pre e) s"
proof (cases e)
  case (SFile n len opened)
  then obtain f where f: "opened = Inr f" "unat len \<le> length (pending f)" "wire_ok (pre @ [n])"
    using assms by (cases opened) auto
  then have "send_entry cfg pre e s
      = Inr ([], emit cfg (IFile (wire_text (pre @ [n])) (take (unat len) (pending f))) s)"
    using SFile assms(2)
    by (simp add: send_entry_def Let_def path_to_wire_ok send_file_ok wire_ok_def[of "pre @ [n]"])
  then show thesis
    using SFile f assms(2)
    by (intro that[of "[]" "emit cfg (IFile (wire_text (pre @ [n])) (take (unat len) (pending f))) s"]) (simp_all add: stack_items_def stack_sendable_def content_of_def)
next
  case (SDir n es)
  then have w: "wire_ok (pre @ [n])" "list_all (sendable (pre @ [n])) es" using assms by auto
  then have "send_entry cfg pre e s
      = Inr ([(pre @ [n], es)], emit cfg (IDir (wire_text (pre @ [n]))) s)"
    using SDir assms(2) send_dir_frame_ok[of "wire_text (pre @ [n])" s cfg]
    by (simp add: send_entry_def Let_def path_to_wire_ok wire_ok_def[of "pre @ [n]"])
  then show thesis
    using SDir w assms(2)
    by (intro that[of "[(pre @ [n], es)]" "emit cfg (IDir (wire_text (pre @ [n]))) s"]) (simp_all add: stack_items_def stack_sendable_def)
next
  case (SLink n)
  then have "send_entry cfg pre e s = Inr ([], s)" by (simp add: send_entry_def)
  then show thesis
    using SLink assms(2)
    by (intro that[of "[]" "s"]) (simp_all add: stack_items_def stack_sendable_def)
next
  case (SSpecial n)
  then have "send_entry cfg pre e s = Inr ([], s)"
    using assms by (simp add: send_entry_def Let_def path_to_wire_ok)
  then show thesis
    using SSpecial assms(2)
    by (intro that[of "[]" "s"]) (simp_all add: stack_items_def stack_sendable_def)
qed (use assms in auto)

lemma send_loop_emit:
  "stack_sendable st \<Longrightarrow> room (out s) = None \<Longrightarrow>
     send_loop cfg st s = Inr (fold (emit cfg) (stack_items st) s)"
proof (induction cfg st s rule: send_loop.induct)
  case (3 cfg pre e es st s)
  then have "sendable pre e" by (simp add: stack_sendable_def)
  then obtain push s' where p: "send_entry cfg pre e s = Inr (push, s')" "room (out s') = None"
    "stack_sendable push"
    "fold (emit cfg) (stack_items push) s' = fold (emit cfg) (items_of pre e) s"
    using send_entry_ok 3 by blast
  have "stack_sendable (push @ (pre, es) # st)"
    using p 3 by (simp add: stack_sendable_def)
  then show ?case
    using p 3 by (simp add: stack_items_def)
qed (simp_all add: stack_items_def stack_sendable_def)

lemma fold_emit:
  "written (out (fold (emit cfg) is s)) = written (out s) @ concat (map (frame_bytes (sha cfg))
       (frames_of (pack_target_bytes (profile cfg)) (with_checksum cfg) (pack_bytes s, pack_number s) is))
   \<and> room (out (fold (emit cfg) is s)) = room (out s)
   \<and> stats (fold (emit cfg) is s) = fold tally
       (frames_of (pack_target_bytes (profile cfg)) (with_checksum cfg) (pack_bytes s, pack_number s) is)
       (stats s)"
proof (induction "is" arbitrary: s)
  case (Cons i "is")
  then show ?case
    by (cases "item_frames (pack_target_bytes (profile cfg)) (with_checksum cfg) (pack_bytes s, pack_number s) i")
      (simp add: emit_def)
qed simp

text \<open>
  \<open>send_directory\<close> refines the frame list: for a readable source it succeeds, it has written the
  bytes of the frames of the tree, and its statistics are the tally of those frames.
\<close>

lemma send_directory_frames:
  assumes src: "canonical src = Inr p" "is_a_dir src" "listing src = Inr entries"
    and name: "file_name p = Some name" "wire_ok [name]"
    and ok: "list_all (sendable []) entries" and w: "room w = None"
    and fs_def: "fs = transfer_frames prof ck (concat (map (items_of []) entries))"
  shows "\<exists>w'. send_directory H w src prof ck
           = Inr (fold tally fs (default_stats\<lparr>directories := 1\<rparr>), w')
       \<and> written w' = written w @ transfer_bytes (sha256 H) (wire_text [name]) fs"
proof -
  let ?cfg = "\<lparr>sha = sha256 H, source_path = p, profile = prof, with_checksum = ck\<rparr>"
  let ?w = "w\<lparr>written := written w @ FRAME_START # path_bytes (wire_text [name])
                  @ FRAME_PACK_START # u64_to_be 0\<rparr>"
  let ?init = "\<lparr>out = ?w, stats = default_stats\<lparr>directories := 1, packs := 1\<rparr>,
               pack_bytes = 0, pack_number = 0\<rparr>"
  let ?final = "fold (emit ?cfg) (concat (map (items_of []) entries)) ?init"
  have pw: "path_to_wire name = Inr (wire_text [name])" "validate_relative_path (wire_text [name]) = Inr ()"
    using path_to_wire_ok[OF name(2)] name(2) by (simp_all add: wire_ok_def)
  have loop: "send_loop ?cfg [([], entries)] ?init = Inr ?final"
    using ok w send_loop_emit[of "[([], entries)]" ?init ?cfg]
    by (simp add: stack_sendable_def stack_items_def)
  have st: "stats ?final = fold tally fs (default_stats\<lparr>directories := 1\<rparr>)"
    and wr: "written (out ?final) = written w @ FRAME_START # path_bytes (wire_text [name])
        @ concat (map (frame_bytes (sha256 H)) fs)"
    and rm: "room (out ?final) = None"
    using fold_emit[of ?cfg "concat (map (items_of []) entries)" ?init] w
    by (simp_all add: fs_def transfer_frames_def default_stats_def)
  show ?thesis
    using src name pw w loop rm st wr
    by (simp add: send_directory_def write_path_Inr ensure_def ok_or_def transfer_bytes_def totals_bytes_def)
qed

end
