(* ===== verification/Result_State.thy ===== *)
theory Result_State
  imports Prelude
begin

text \<open>
  Fallible operations on a state: an operation takes the state and returns a result together
  with the state it leaves, on the error path too, as the \<open>async fn\<close>s of the sources leave
  their effects behind when they return early. The locale \<open>effect\<close> proves once that an effect
  bound (a preorder on states) which every primitive respects is respected by whole procedures.
\<close>

named_theorems op_simps \<open>evaluation of operations\<close>

type_synonym ('s, 'e, 'a) op = "'s \<Rightarrow> ('e + 'a) \<times> 's"

definition sret :: "'a \<Rightarrow> ('s, 'e, 'a) op" where
  "sret a s = (Inr a, s)"

definition sfail :: "'e \<Rightarrow> ('s, 'e, 'a) op" where
  "sfail e s = (Inl e, s)"

definition sbind :: "('s, 'e, 'a) op \<Rightarrow> ('a \<Rightarrow> ('s, 'e, 'b) op) \<Rightarrow> ('s, 'e, 'b) op" where
  "sbind m f s = (case m s of (Inl e, s') \<Rightarrow> (Inl e, s') | (Inr a, s') \<Rightarrow> f a s')"

definition sguard :: "bool \<Rightarrow> 'e \<Rightarrow> ('s, 'e, unit) op" where
  "sguard ok e s = (if ok then Inr () else Inl e, s)"

definition slift :: "'e + 'a \<Rightarrow> ('s, 'e, 'a) op" where
  "slift r s = (r, s)"

definition sget :: "('s \<Rightarrow> 'a) \<Rightarrow> ('s, 'e, 'a) op" where
  "sget f s = (Inr (f s), s)"

definition smodify :: "('s \<Rightarrow> 's) \<Rightarrow> ('s, 'e, unit) op" where
  "smodify f s = (Inr (), f s)"

text \<open>Rust's \<open>let _ = ...\<close>: the outcome is dropped, the effect stays.\<close>

definition signore :: "('s, 'e, 'a) op \<Rightarrow> ('s, 'f, unit) op" where
  "signore m s = (Inr (), snd (m s))"

text \<open>The outcome as a value, for code that matches on it.\<close>

definition scatch :: "('s, 'e, 'a) op \<Rightarrow> ('s, 'f, 'e + 'a) op" where
  "scatch m s = (Inr (fst (m s)), snd (m s))"

text \<open>An operation on one part of the state, with its error converted.\<close>

definition szoom :: "('s \<Rightarrow> 't) \<Rightarrow> ('t \<Rightarrow> 's \<Rightarrow> 's) \<Rightarrow> ('e \<Rightarrow> 'f) \<Rightarrow> ('t, 'e, 'a) op \<Rightarrow> ('s, 'f, 'a) op" where
  "szoom get put conv m s =
     (let (r, t) = m (get s) in (map_sum conv id r, put t s))"

text \<open>A reader \<open>'t \<Rightarrow> 'e + ('a \<times> 't)\<close> as an operation; a failed read leaves the stream as it was.\<close>

definition sread :: "('s \<Rightarrow> 't) \<Rightarrow> ('t \<Rightarrow> 's \<Rightarrow> 's) \<Rightarrow> ('e \<Rightarrow> 'f) \<Rightarrow> ('t \<Rightarrow> 'e + ('a \<times> 't)) \<Rightarrow> ('s, 'f, 'a) op" where
  "sread get put conv rd s =
     (case rd (get s) of Inl e \<Rightarrow> (Inl (conv e), s) | Inr (a, t) \<Rightarrow> (Inr a, put t s))"

lemma sret_app [op_simps, simp]: "sret a s = (Inr a, s)"
  by (simp add: sret_def)

lemma sfail_app [op_simps, simp]: "sfail e s = (Inl e, s)"
  by (simp add: sfail_def)

lemma sguard_app [op_simps, simp]: "sguard ok e s = (if ok then Inr () else Inl e, s)"
  by (simp add: sguard_def)

lemma slift_app [op_simps, simp]: "slift r s = (r, s)"
  by (simp add: slift_def)

lemma sget_app [op_simps, simp]: "sget f s = (Inr (f s), s)"
  by (simp add: sget_def)

lemma smodify_app [op_simps, simp]: "smodify f s = (Inr (), f s)"
  by (simp add: smodify_def)

lemma sbind_ok [op_simps]: "m s = (Inr a, s') \<Longrightarrow> sbind m f s = f a s'"
  by (simp add: sbind_def)

lemma sbind_err [op_simps]: "m s = (Inl e, s') \<Longrightarrow> sbind m f s = (Inl e, s')"
  by (simp add: sbind_def)

lemma sbind_Inr_iff: "sbind m f s = (Inr b, s'') \<longleftrightarrow> (\<exists>a s'. m s = (Inr a, s') \<and> f a s' = (Inr b, s''))"
  by (auto simp: sbind_def split: prod.splits sum.splits)

lemma sbind_Inl_iff:
  "sbind m f s = (Inl e, s'') \<longleftrightarrow>
     m s = (Inl e, s'') \<or> (\<exists>a s'. m s = (Inr a, s') \<and> f a s' = (Inl e, s''))"
  by (auto simp: sbind_def split: prod.splits sum.splits)

lemma sbind_sret [simp]: "sbind (sret a) f = f a"
  by (rule ext) (simp add: sbind_def)

lemma sbind_sfail [simp]: "sbind (sfail e) f = sfail e"
  by (rule ext) (simp add: sbind_def)

lemma sbind_assoc: "sbind (sbind m f) g = sbind m (\<lambda>a. sbind (f a) g)"
  by (rule ext) (auto simp: sbind_def split: prod.splits sum.splits)

lemma sread_ok [op_simps]: "rd (get s) = Inr (a, t) \<Longrightarrow> sread get put conv rd s = (Inr a, put t s)"
  by (simp add: sread_def)

lemma szoom_eq [op_simps]: "m (get s) = (r, t) \<Longrightarrow> szoom get put conv m s = (map_sum conv id r, put t s)"
  by (simp add: szoom_def)

locale effect =
  fixes R :: "'s \<Rightarrow> 's \<Rightarrow> bool"
  assumes R_refl: "R s s" and R_trans: "R s t \<Longrightarrow> R t u \<Longrightarrow> R s u"
begin

lemma after_bind:
  assumes "R s (snd (m s))"
    and "\<And>a s'. m s = (Inr a, s') \<Longrightarrow> R s s' \<Longrightarrow> R s' (snd (f a s'))"
  shows "R s (snd (sbind m f s))"
proof (cases "m s")
  case (Pair r s')
  then show ?thesis using assms R_trans by (cases r) (auto simp: sbind_def)
qed

lemma after_pure:
  "R s (snd (sret a s))" "R s (snd (sfail e s))" "R s (snd (sguard ok e s))"
  "R s (snd (slift r s))" "R s (snd (sget f s))"
  by (simp_all add: R_refl)

lemma after_wrapped:
  "R s (snd (m s)) \<Longrightarrow> R s (snd (signore m s))"
  "R s (snd (m s)) \<Longrightarrow> R s (snd (scatch m s))"
  by (simp_all add: signore_def scatch_def)

lemma after_sread:
  "(\<And>t. R s (put t s)) \<Longrightarrow> R s (snd (sread get put conv rd s))"
  by (auto simp: sread_def R_refl split: sum.splits)

lemma after_szoom:
  "R s (put (snd (m (get s))) s) \<Longrightarrow> R s (snd (szoom get put conv m s))"
  by (auto simp: szoom_def Let_def split: prod.splits)

end

end
