(* ===== verification/File_System.thy ===== *)
theory File_System
  imports Rust_Io Rust_Path Result_State
begin

text \<open>
  The file system the receiver writes to: a partial map from absolute locations (lists of
  names, the root is the empty list) to nodes, with the path resolution of POSIX (symbolic
  links are followed, at most 40 of them, and \<open>..\<close> is taken after resolution), and the
  operations of \<open>tokio::fs\<close> and \<open>std::fs\<close> the sources call. \<open>grows\<close> bounds an effect: it says
  that nothing outside a directory changed and that no directory or link was lost or added
  as a link; resolution of paths through directories is stable under it.
\<close>

named_theorems fs_simps \<open>evaluation of file-system operations\<close>

datatype node = File "byte list" | Dir | Symlink string

record fsys =
  nodes :: "string list \<Rightarrow> node option"
  cwd :: "string list"

type_synonym 'a fs_op = "(fsys, io_error, 'a) op"

definition max_symlinks :: nat where
  "max_symlinks = 40"

definition node_at :: "(string list \<Rightarrow> node option) \<Rightarrow> string list \<Rightarrow> node option" where
  "node_at m k = (if k = [] then Some Dir else m k)"

text \<open>
  Resolution from the location \<open>at\<close>; the result carries the number of links that may still
  be followed. The last component need not exist.
\<close>

function walk :: "(string list \<Rightarrow> node option) \<Rightarrow> bool \<Rightarrow> nat \<Rightarrow> string list \<Rightarrow> component list
    \<Rightarrow> io_error + (nat \<times> string list)" where
  "walk m follow n at [] = Inr (n, at)"
| "walk m follow n at (RootDir # cs) = walk m follow n [] cs"
| "walk m follow n at (CurDir # cs) =
     (if node_at m at = Some Dir then walk m follow n at cs else Inl NotADirectory)"
| "walk m follow n at (ParentDir # cs) =
     (if node_at m at = Some Dir then walk m follow n (butlast at) cs else Inl NotADirectory)"
| "walk m follow n at (Normal s # cs) =
     (if node_at m at = Some Dir then
        (case m (at @ [s]) of
           None \<Rightarrow> if cs = [] then Inr (n, at @ [s]) else Inl NotFound
         | Some (Symlink t) \<Rightarrow>
             if cs = [] \<and> \<not> follow then Inr (n, at @ [s])
             else (case n of 0 \<Rightarrow> Inl FilesystemLoop
                   | Suc n' \<Rightarrow> walk m follow n' at (components t @ cs))
         | Some Dir \<Rightarrow> walk m follow n (at @ [s]) cs
         | Some (File _) \<Rightarrow> if cs = [] then Inr (n, at @ [s]) else Inl NotADirectory)
      else Inl NotADirectory)"
  by pat_completeness auto
termination
  by (relation "measures [\<lambda>(m, f, n, at, cs). n, \<lambda>(m, f, n, at, cs). length cs]") auto

text \<open>A path whose last segment is empty or a dot must name a directory.\<close>

definition wants_dir :: "string \<Rightarrow> bool" where
  "wants_dir p \<longleftrightarrow> skipped (last (split_on slash p))"

definition locate :: "fsys \<Rightarrow> bool \<Rightarrow> string \<Rightarrow> io_error + string list" where
  "locate fs follow p =
     (if p = [] then Inl NotFound
      else rbind (walk (nodes fs) (follow \<or> wants_dir p) max_symlinks (cwd fs) (components p))
        (\<lambda>(_, k). case node_at (nodes fs) k of
             Some (File _) \<Rightarrow> if wants_dir p then Inl NotADirectory else Inr k
           | _ \<Rightarrow> Inr k))"

definition lookup :: "fsys \<Rightarrow> bool \<Rightarrow> string \<Rightarrow> io_error + node" where
  "lookup fs follow p =
     rbind (locate fs follow p) (\<lambda>k. ok_or NotFound (node_at (nodes fs) k))"

definition fs_metadata :: "fsys \<Rightarrow> string \<Rightarrow> io_error + node" where
  "fs_metadata fs p = lookup fs True p"

definition symlink_metadata :: "fsys \<Rightarrow> string \<Rightarrow> io_error + node" where
  "symlink_metadata fs p = lookup fs False p"

definition path_exists :: "fsys \<Rightarrow> string \<Rightarrow> bool" where
  "path_exists fs p = is_ok (fs_metadata fs p)"

definition path_is_dir :: "fsys \<Rightarrow> string \<Rightarrow> bool" where
  "path_is_dir fs p \<longleftrightarrow> fs_metadata fs p = Inr Dir"

definition set_node :: "string list \<Rightarrow> node option \<Rightarrow> fsys \<Rightarrow> fsys" where
  "set_node k v fs = fs\<lparr>nodes := (nodes fs)(k := v)\<rparr>"

definition create_dir :: "string \<Rightarrow> unit fs_op" where
  "create_dir p fs =
     (case locate fs False p of
        Inl e \<Rightarrow> (Inl e, fs)
      | Inr k \<Rightarrow>
          (case node_at (nodes fs) k of
             Some _ \<Rightarrow> (Inl AlreadyExists, fs)
           | None \<Rightarrow> (Inr (), set_node k (Some Dir) fs)))"

text \<open>\<open>DirBuilder::create_dir_all\<close>.\<close>

function create_dir_all :: "string \<Rightarrow> unit fs_op" where
  "create_dir_all p fs =
     (if p = [] then (Inr (), fs)
      else (case create_dir p fs of
        (Inr u, fs1) \<Rightarrow> (Inr (), fs1)
      | (Inl e, fs1) \<Rightarrow>
          if e \<noteq> NotFound then (if path_is_dir fs1 p then (Inr (), fs1) else (Inl e, fs1))
          else (case parent p of
                  None \<Rightarrow> (Inl OtherIo, fs1)
                | Some q \<Rightarrow>
                    (case create_dir_all q fs1 of
                       (Inl e', fs2) \<Rightarrow> (Inl e', fs2)
                     | (Inr u, fs2) \<Rightarrow>
                         (case create_dir p fs2 of
                            (Inr u', fs3) \<Rightarrow> (Inr (), fs3)
                          | (Inl e', fs3) \<Rightarrow>
                              if path_is_dir fs3 p then (Inr (), fs3) else (Inl e', fs3))))))"
  by pat_completeness auto
termination
  by (relation "measure (\<lambda>(p, fs). length p)") (auto simp: parent_shorter)

declare create_dir_all.simps [simp del]

text \<open>
  \<open>File::create\<close>: follows links, truncates an existing file. The result stands for the open
  descriptor: the location of the file, which stays the same while only it is written.
\<close>

definition file_create :: "string \<Rightarrow> string list fs_op" where
  "file_create p fs =
     (case locate fs True p of
        Inl e \<Rightarrow> (Inl e, fs)
      | Inr k \<Rightarrow>
          (case node_at (nodes fs) k of
             Some (File _) \<Rightarrow> (Inr k, set_node k (Some (File [])) fs)
           | None \<Rightarrow> if wants_dir p then (Inl IsADirectory, fs)
                     else (Inr k, set_node k (Some (File [])) fs)
           | Some _ \<Rightarrow> (Inl IsADirectory, fs)))"

definition file_content :: "fsys \<Rightarrow> string list \<Rightarrow> byte list" where
  "file_content fs k = (case nodes fs k of Some (File c) \<Rightarrow> c | _ \<Rightarrow> [])"

definition file_append :: "string list \<Rightarrow> byte list \<Rightarrow> fsys \<Rightarrow> fsys" where
  "file_append k bs fs = set_node k (Some (File (file_content fs k @ bs))) fs"

definition remove_file :: "string \<Rightarrow> unit fs_op" where
  "remove_file p fs =
     (case locate fs False p of
        Inl e \<Rightarrow> (Inl e, fs)
      | Inr k \<Rightarrow>
          (case node_at (nodes fs) k of
             None \<Rightarrow> (Inl NotFound, fs)
           | Some Dir \<Rightarrow> (Inl IsADirectory, fs)
           | Some _ \<Rightarrow> (Inr (), set_node k None fs)))"

text \<open>
  \<open>rename\<close>; a directory takes everything below it along, and is moved to a free name only
  (the sources rename regular files).
\<close>

definition move_tree :: "string list \<Rightarrow> string list \<Rightarrow> (string list \<Rightarrow> node option) \<Rightarrow> string list \<Rightarrow> node option" where
  "move_tree k l m x =
     (if take (length l) x = l then m (k @ drop (length l) x)
      else if take (length k) x = k then None else m x)"

definition rename :: "string \<Rightarrow> string \<Rightarrow> unit fs_op" where
  "rename p q fs =
     (case rbind (locate fs False p) (\<lambda>k. rbind (locate fs False q) (\<lambda>l. Inr (k, l))) of
        Inl e \<Rightarrow> (Inl e, fs)
      | Inr (k, l) \<Rightarrow>
          (case (node_at (nodes fs) k, node_at (nodes fs) l) of
             (None, _) \<Rightarrow> (Inl NotFound, fs)
           | (Some Dir, dst) \<Rightarrow>
               if k = l then (Inr (), fs)
               else if take (length k) l = k then (Inl OtherIo, fs)
               else (case dst of
                       None \<Rightarrow> (Inr (), fs\<lparr>nodes := move_tree k l (nodes fs)\<rparr>)
                     | Some _ \<Rightarrow> (Inl DirectoryNotEmpty, fs))
           | (Some _, Some Dir) \<Rightarrow> (Inl IsADirectory, fs)
           | (Some v, _) \<Rightarrow>
               if wants_dir q then (Inl NotADirectory, fs)
               else (Inr (), set_node l (Some v) (set_node k None fs))))"

section \<open>Children of a directory\<close>

text \<open>The path \<open>p\<close> leads to the directory at \<open>B\<close>.\<close>

definition dir_at :: "fsys \<Rightarrow> string \<Rightarrow> string list \<Rightarrow> bool" where
  "dir_at fs p B \<longleftrightarrow>
     (case walk (nodes fs) True max_symlinks (cwd fs) (components p) of
        Inl _ \<Rightarrow> False | Inr (_, k) \<Rightarrow> k = B \<and> node_at (nodes fs) B = Some Dir)"

lemma dir_at_iff:
  "dir_at fs p B \<longleftrightarrow>
     (\<exists>n. walk (nodes fs) True max_symlinks (cwd fs) (components p) = Inr (n, B))
     \<and> node_at (nodes fs) B = Some Dir"
  by (auto simp: dir_at_def split: sum.splits)

lemma walk_append:
  assumes "walk m True n at cs = Inr (n', B)" "node_at m B = Some Dir" "ds \<noteq> []"
  shows "walk m f n at (cs @ ds) = walk m f n' B ds"
  using assms
proof (induction m True n at cs rule: walk.induct)
  case (5 m n at s cs)
  note IH = "5.hyps" and prems = "5.prems"
  have d: "node_at m at = Some Dir" using prems by (auto split: if_splits)
  show ?case
  proof (cases "m (at @ [s])")
    case None
    then show ?thesis using prems d by (auto simp: node_at_def split: if_splits)
  next
    case (Some v)
    then show ?thesis
    proof (cases v)
      case (File c)
      then show ?thesis using prems d Some IH(1)
        by (auto simp: node_at_def split: if_splits)
    qed (use prems d Some IH in \<open>auto split: nat.splits\<close>)
  qed
qed (auto split: if_splits)

lemma last_segment_push: "plain_name s \<Longrightarrow> last (split_on slash (path_push p s)) = s"
proof -
  assume s: "plain_name s"
  then have r: "\<not> has_root s" and sp: "split_on slash s = [s]"
    by (auto simp: plain_name_rooted split_on_no_sep plain_name_def)
  consider "p = []" | "p \<noteq> []" "last p = slash" | "p \<noteq> []" "last p \<noteq> slash" by blast
  then show ?thesis
  proof cases
    case 2
    then obtain q where "p = q @ [slash]" by (metis append_butlast_last_id)
    then show ?thesis using r sp by (simp add: path_push_def split_on_snoc_sep)
  qed (use r sp in \<open>simp_all add: path_push_def split_on_snoc_sep\<close>)
qed

lemma wants_dir_push [simp]: "plain_name s \<Longrightarrow> \<not> wants_dir (path_push p s)"
  by (simp add: wants_dir_def last_segment_push plain_last)

lemma walk_child:
  assumes "dir_at fs p B" "plain_name s"
  obtains n where
    "walk (nodes fs) f max_symlinks (cwd fs) (components (path_push p s))
       = walk (nodes fs) f n B [Normal s]"
    "node_at (nodes fs) B = Some Dir"
  using assms walk_append[of "nodes fs" max_symlinks "cwd fs" "components p" _ B "[Normal s]" f]
  by (auto simp: dir_at_iff components_push)

lemma node_at_snoc [simp]: "node_at m (B @ [s]) = m (B @ [s])"
  by (simp add: node_at_def)

lemma locate_child:
  assumes "dir_at fs p B" "plain_name s"
    and "f \<Longrightarrow> \<forall>t. nodes fs (B @ [s]) \<noteq> Some (Symlink t)"
  shows "locate fs f (path_push p s) = Inr (B @ [s])"
proof -
  obtain n where "walk (nodes fs) f max_symlinks (cwd fs) (components (path_push p s))
       = walk (nodes fs) f n B [Normal s]" "node_at (nodes fs) B = Some Dir"
    using walk_child[OF assms(1,2)] by metis
  then show ?thesis using assms push_not_Nil[of s p]
    by (auto simp: locate_def split: option.splits node.splits)
qed

lemma symlink_metadata_child [fs_simps]:
  "dir_at fs p B \<Longrightarrow> plain_name s \<Longrightarrow>
     symlink_metadata fs (path_push p s) = ok_or NotFound (nodes fs (B @ [s]))"
  by (simp add: symlink_metadata_def lookup_def locate_child)

lemma create_dir_child [fs_simps]:
  "dir_at fs p B \<Longrightarrow> plain_name s \<Longrightarrow>
     create_dir (path_push p s) fs =
       (if nodes fs (B @ [s]) = None then (Inr (), set_node (B @ [s]) (Some Dir) fs)
        else (Inl AlreadyExists, fs))"
  by (simp add: create_dir_def locate_child split: option.splits)

lemma file_create_child [fs_simps]:
  "dir_at fs p B \<Longrightarrow> plain_name s \<Longrightarrow> \<forall>t. nodes fs (B @ [s]) \<noteq> Some (Symlink t) \<Longrightarrow>
     file_create (path_push p s) fs =
       (if nodes fs (B @ [s]) = Some Dir then (Inl IsADirectory, fs)
        else (Inr (B @ [s]), set_node (B @ [s]) (Some (File [])) fs))"
  by (auto simp: file_create_def locate_child split: option.splits node.splits)

lemma remove_file_child [fs_simps]:
  "dir_at fs p B \<Longrightarrow> plain_name s \<Longrightarrow> nodes fs (B @ [s]) = Some (File c) \<Longrightarrow>
     remove_file (path_push p s) fs = (Inr (), set_node (B @ [s]) None fs)"
  by (simp add: remove_file_def locate_child)

lemma rename_child [fs_simps]:
  "dir_at fs p B \<Longrightarrow> plain_name s \<Longrightarrow> dir_at fs q C \<Longrightarrow> plain_name t \<Longrightarrow>
     nodes fs (B @ [s]) = Some (File c) \<Longrightarrow>
     rename (path_push p s) (path_push q t) fs =
       (if nodes fs (C @ [t]) = Some Dir then (Inl IsADirectory, fs)
        else (Inr (), set_node (C @ [t]) (Some (File c)) (set_node (B @ [s]) None fs)))"
  by (simp add: rename_def locate_child split: option.splits node.splits)

lemma dir_at_child:
  assumes "dir_at fs p B" "plain_name s" "nodes fs (B @ [s]) = Some Dir"
  shows "dir_at fs (path_push p s) (B @ [s])"
proof -
  obtain n where "walk (nodes fs) True max_symlinks (cwd fs) (components (path_push p s))
       = walk (nodes fs) True n B [Normal s]" "node_at (nodes fs) B = Some Dir"
    using walk_child[OF assms(1,2)] by metis
  then show ?thesis using assms by (simp add: dir_at_def)
qed

section \<open>Effects below a directory\<close>

definition below :: "string list \<Rightarrow> string list \<Rightarrow> bool" where
  "below B k \<longleftrightarrow> length B < length k \<and> take (length B) k = B"

lemma below_iff: "below B k \<longleftrightarrow> (\<exists>x xs. k = B @ x # xs)"
proof
  assume b: "below B k"
  then have "drop (length B) k \<noteq> []" "k = B @ drop (length B) k"
    by (auto simp: below_def) (metis append_take_drop_id)
  then show "\<exists>x xs. k = B @ x # xs" by (metis list.exhaust)
qed (auto simp: below_def)

lemma below_snoc [simp]: "below B (B @ [x])"
  by (simp add: below_def)

lemma below_append: "below (B @ xs) k \<Longrightarrow> below B k"
  by (auto simp: below_iff) (metis append.assoc append_Cons append_Nil list.exhaust)

definition grows :: "string list \<Rightarrow> fsys \<Rightarrow> fsys \<Rightarrow> bool" where
  "grows B fs fs' \<longleftrightarrow>
     cwd fs' = cwd fs
     \<and> (\<forall>k. \<not> below B k \<longrightarrow> nodes fs' k = nodes fs k)
     \<and> (\<forall>k. nodes fs k = Some Dir \<longrightarrow> nodes fs' k = Some Dir)
     \<and> (\<forall>k t. nodes fs' k = Some (Symlink t) \<longleftrightarrow> nodes fs k = Some (Symlink t))"

interpretation growth: effect "grows B" for B
  by unfold_locales (auto simp: grows_def)

lemma grows_wider: "grows (B @ xs) fs fs' \<Longrightarrow> grows B fs fs'"
  by (auto simp: grows_def dest: below_append)

lemma grows_set_node:
  assumes "below B k" "nodes fs k \<noteq> Some Dir \<or> v = Some Dir"
    and "\<forall>t. nodes fs k \<noteq> Some (Symlink t)" "\<forall>t. v \<noteq> Some (Symlink t)"
  shows "grows B fs (set_node k v fs)"
  using assms by (auto simp: grows_def set_node_def)

lemma walk_grows:
  assumes "walk (nodes fs) True n at cs = Inr (n', K)" "node_at (nodes fs) K = Some Dir"
    and g: "grows B fs fs'"
  shows "walk (nodes fs') True n at cs = Inr (n', K)"
proof -
  have dirs: "node_at (nodes fs) k = Some Dir \<Longrightarrow> node_at (nodes fs') k = Some Dir" for k
    using g by (auto simp: grows_def node_at_def split: if_splits)
  show ?thesis using assms(1,2)
  proof (induction "nodes fs" True n at cs rule: walk.induct)
    case (5 n at s cs)
    note IH = "5.hyps" and prems = "5.prems"
    have d: "node_at (nodes fs) at = Some Dir" using prems by (auto split: if_splits)
    have d': "node_at (nodes fs') at = Some Dir" using d by (rule dirs)
    show ?case
    proof (cases "nodes fs (at @ [s])")
      case None
      then show ?thesis using prems d by (auto simp: node_at_def split: if_splits)
    next
      case (Some v)
      show ?thesis
      proof (cases v)
        case (File c)
        then show ?thesis using prems d Some by (auto split: if_splits)
      next
        case Dir
        then have "nodes fs' (at @ [s]) = Some Dir" using g Some by (simp add: grows_def)
        then show ?thesis using prems d d' Some Dir IH by simp
      next
        case (Symlink t)
        then have "nodes fs' (at @ [s]) = Some (Symlink t)" using g Some by (simp add: grows_def)
        then show ?thesis using prems d d' Some Symlink IH by (auto split: nat.splits)
      qed
    qed
  qed (auto split: if_splits dest: dirs)
qed

lemma dir_at_grows: "dir_at fs p K \<Longrightarrow> grows B fs fs' \<Longrightarrow> dir_at fs' p K"
proof -
  assume d: "dir_at fs p K" and g: "grows B fs fs'"
  then have "node_at (nodes fs') K = Some Dir"
    by (auto simp: grows_def node_at_def dir_at_iff split: if_splits)
  then show ?thesis
    using d g walk_grows[of fs max_symlinks "cwd fs" "components p" _ K B fs']
    by (auto simp: dir_at_iff grows_def)
qed

lemma create_dir_grows:
  assumes "dir_at fs p B" "plain_name s"
  shows "grows B fs (snd (create_dir (path_push p s) fs))"
  using assms by (simp add: create_dir_child grows_set_node growth.R_refl)

lemma file_create_grows:
  assumes "dir_at fs p B" "plain_name s" "\<forall>t. nodes fs (B @ [s]) \<noteq> Some (Symlink t)"
  shows "grows B fs (snd (file_create (path_push p s) fs))"
  using assms by (simp add: file_create_child grows_set_node growth.R_refl)

lemma file_append_grows:
  assumes "nodes fs k = Some (File c)" "below B k"
  shows "grows B fs (file_append k bs fs)"
  using assms by (simp add: file_append_def grows_set_node)

lemma nodes_set_node [simp]: "nodes (set_node k v fs) = (nodes fs)(k := v)"
  by (simp add: set_node_def)

lemma cwd_set_node [simp]: "cwd (set_node k v fs) = cwd fs"
  by (simp add: set_node_def)

lemma set_node_twice [simp]: "set_node k v (set_node k w fs) = set_node k v fs"
  by (simp add: set_node_def)

section \<open>Existing directories\<close>

lemma dir_at_components: "components q = components p \<Longrightarrow> dir_at fs q B = dir_at fs p B"
  by (simp add: dir_at_def)

lemma walk_no_follow:
  assumes "walk m True n at cs = Inr (n', B)" "node_at m B = Some Dir"
  shows "\<exists>n'' k v. walk m False n at cs = Inr (n'', k) \<and> node_at m k = Some v \<and> (\<forall>c. v \<noteq> File c)"
  using assms
proof (induction m True n at cs rule: walk.induct)
  case (5 m n at s cs)
  note IH = "5.hyps" and prems = "5.prems"
  have d: "node_at m at = Some Dir" using prems by (auto split: if_splits)
  show ?case
  proof (cases "m (at @ [s])")
    case None
    then show ?thesis using prems d by (auto simp: node_at_def split: if_splits)
  next
    case (Some v)
    show ?thesis
    proof (cases v)
      case (File c)
      then show ?thesis using prems d Some by (auto simp: node_at_def split: if_splits)
    next
      case Dir
      then show ?thesis using prems d Some IH by auto
    next
      case (Symlink t)
      show ?thesis
      proof (cases "cs = []")
        case True
        then have "walk m False n at (Normal s # cs) = Inr (n, at @ [s])" using d Some Symlink by simp
        then show ?thesis
          using Some Symlink by (intro exI[of _ n] exI[of _ "at @ [s]"] exI[of _ v]) simp
      next
        case False
        then show ?thesis using prems d Some Symlink IH by (cases n) auto
      qed
    qed
  qed
qed (auto split: if_splits)

lemma path_is_dir_at: "dir_at fs p B \<Longrightarrow> p \<noteq> [] \<Longrightarrow> path_is_dir fs p"
  by (auto simp: dir_at_iff path_is_dir_def fs_metadata_def lookup_def locate_def ok_or_def)

lemma create_dir_existing:
  assumes "dir_at fs p B" "p \<noteq> []"
  shows "create_dir p fs = (Inl AlreadyExists, fs)"
proof -
  obtain n where w: "walk (nodes fs) True max_symlinks (cwd fs) (components p) = Inr (n, B)"
    and b: "node_at (nodes fs) B = Some Dir"
    using assms(1) by (auto simp: dir_at_iff)
  have "\<exists>k v. locate fs False p = Inr k \<and> node_at (nodes fs) k = Some v"
  proof (cases "wants_dir p")
    case True
    then show ?thesis using w b assms(2) by (simp add: locate_def)
  next
    case False
    then show ?thesis using walk_no_follow[OF w b] assms(2)
      by (auto simp: locate_def split: node.splits)
  qed
  then show ?thesis by (auto simp: create_dir_def)
qed

lemma create_dir_all_existing:
  assumes "dir_at fs p B"
  shows "create_dir_all p fs = (Inr (), fs)"
proof (cases "p = []")
  case False
  then show ?thesis
    using create_dir_existing[OF assms False] path_is_dir_at[OF assms False]
    by (simp add: create_dir_all.simps[of p])
qed (simp add: create_dir_all.simps)

text \<open>Metadata of a child that is not a link.\<close>

lemma fs_metadata_child [fs_simps]:
  "dir_at fs p B \<Longrightarrow> plain_name s \<Longrightarrow> \<forall>t. nodes fs (B @ [s]) \<noteq> Some (Symlink t) \<Longrightarrow>
     fs_metadata fs (path_push p s) = ok_or NotFound (nodes fs (B @ [s]))"
  by (simp add: fs_metadata_def lookup_def locate_child)

end
