(* ===== verification/Directory_Receive.thy ===== *)
theory Directory_Receive
  imports Directory_Wire Directory_Send File_System
begin

text \<open>
  \<open>receive_directory\<close> of \<open>core/src/directory.rs\<close> over a byte stream and a file system. One
  turn of the frame loop is \<open>recv_frame\<close>; effects are bounded with the locale \<open>effect\<close>
  (the stream only shrinks, the disk only grows below the transfer root), and the loop is shown
  to install exactly the frames that were sent.
\<close>

section \<open>State and lifting\<close>

record recv =
  rd :: source
  disk :: fsys

definition rread :: "(source \<Rightarrow> dir_error + ('a \<times> source)) \<Rightarrow> (recv, dir_error, 'a) op" where
  "rread f = sread rd (\<lambda>t s. s\<lparr>rd := t\<rparr>) id f"

definition rread_io :: "(source \<Rightarrow> io_error + ('a \<times> source)) \<Rightarrow> (recv, dir_error, 'a) op" where
  "rread_io f = sread rd (\<lambda>t s. s\<lparr>rd := t\<rparr>) Io f"

definition on_disk :: "(fsys, dir_error, 'a) op \<Rightarrow> (recv, dir_error, 'a) op" where
  "on_disk m = szoom disk (\<lambda>t s. s\<lparr>disk := t\<rparr>) id m"

definition on_disk_io :: "'a fs_op \<Rightarrow> (recv, dir_error, 'a) op" where
  "on_disk_io m = szoom disk (\<lambda>t s. s\<lparr>disk := t\<rparr>) Io m"

section \<open>Directories\<close>

text \<open>The loop over the components: every one is a real directory or is created.\<close>

fun safe_descend :: "string \<Rightarrow> string list \<Rightarrow> (fsys, dir_error, string) op" where
  "safe_descend current [] fs = (Inr current, fs)"
| "safe_descend current (n # ns) fs =
     (let current = path_push current n in
      case symlink_metadata fs current of
        Inr (Symlink _) \<Rightarrow> (Inl DestinationSymlink, fs)
      | Inr (File _) \<Rightarrow> (Inl ComponentNotDirectory, fs)
      | Inr Dir \<Rightarrow> safe_descend current ns fs
      | Inl e \<Rightarrow>
          if e = NotFound then
            (case create_dir current fs of
               (Inl e', fs') \<Rightarrow> (Inl (Io e'), fs')
             | (Inr _, fs') \<Rightarrow> safe_descend current ns fs')
          else (Inl (Io e), fs))"

definition create_safe_directory :: "string \<Rightarrow> string option \<Rightarrow> (fsys, dir_error, string) op" where
  "create_safe_directory root relative fs =
     (case relative of
        Some rel \<Rightarrow>
          (case validate_relative_path rel of
             Inl e \<Rightarrow> (Inl e, fs)
           | Inr _ \<Rightarrow> safe_descend root (normals rel) fs)
      | None \<Rightarrow>
          (case create_dir_all root fs of
             (Inl e, fs') \<Rightarrow> (Inl (Io e), fs')
           | (Inr _, fs') \<Rightarrow>
               (case symlink_metadata fs' root of
                  Inl e \<Rightarrow> (Inl (Io e), fs')
                | Inr v \<Rightarrow> if v = Dir then (Inr root, fs') else (Inl RootNotDirectory, fs'))))"

section \<open>Files\<close>

definition is_char_boundary :: "string \<Rightarrow> nat \<Rightarrow> bool" where
  "is_char_boundary s i \<longleftrightarrow> i = 0 \<or> i = length s \<or> (i < length s \<and> \<not> is_cont (s ! i))"

fun floor_boundary :: "string \<Rightarrow> nat \<Rightarrow> nat" where
  "floor_boundary s 0 = 0"
| "floor_boundary s (Suc i) = (if is_char_boundary s (Suc i) then Suc i else floor_boundary s i)"

definition partial_name :: "string \<Rightarrow> string" where
  "partial_name name =
     (let lossy = utf8_lossy name;
          stem = (if length lossy \<le> 240 then lossy else take (floor_boundary lossy 240) lossy)
      in ''.'' @ stem @ ''.quic-part'')"

text \<open>The copy loop of one file into the open partial file at \<open>k\<close>.\<close>

function copy_in :: "string \<Rightarrow> string list \<Rightarrow> nat \<Rightarrow> byte list option
    \<Rightarrow> (recv, dir_error, byte list option) op" where
  "copy_in rel k remaining hasher s =
     (if remaining = 0 then (Inr hasher, s)
      else (case read_some (rd s) (min remaining FILE_CHUNK_SIZE) of
              Inl e \<Rightarrow> (Inl (Io e), s)
            | Inr ([], _) \<Rightarrow> (Inl (EndedInside rel), s)
            | Inr (b # bs, r') \<Rightarrow>
                copy_in rel k (remaining - length (b # bs)) (map_option (\<lambda>h. h @ b # bs) hasher)
                  (s\<lparr>rd := r', disk := file_append k (b # bs) (disk s)\<rparr>)))"
  by pat_completeness auto
termination
  by (relation "measure (\<lambda>(rel, k, n, h, s). n)") auto

declare copy_in.simps [simp del]

lemma copy_in_0 [simp]: "copy_in rel k 0 h s = (Inr h, s)"
  by (simp add: copy_in.simps)

definition verify_digest :: "hashing \<Rightarrow> string \<Rightarrow> string \<Rightarrow> byte list option \<Rightarrow> (recv, dir_error, unit) op" where
  "verify_digest H rel partial hasher =
     (case hasher of
        None \<Rightarrow> sret ()
      | Some h \<Rightarrow>
          sbind (rread_io (\<lambda>r. read_exact r 32)) (\<lambda>expected.
          if sha256 H h \<noteq> expected then
            sbind (signore (on_disk_io (remove_file partial))) (\<lambda>_. sfail (ChecksumMismatch rel))
          else sret ()))"

definition is_link :: "io_error + node \<Rightarrow> bool" where
  "is_link md \<longleftrightarrow> (case md of Inr (Symlink _) \<Rightarrow> True | _ \<Rightarrow> False)"

definition parent_relative :: "string \<Rightarrow> string option" where
  "parent_relative rel =
     (case parent rel of None \<Rightarrow> None | Some q \<Rightarrow> if utf8_valid q then Some q else None)"

definition parent_directory :: "string \<Rightarrow> string \<Rightarrow> (recv, dir_error, string) op" where
  "parent_directory root rel =
     (case parent_relative rel of
        None \<Rightarrow> sret root
      | Some q \<Rightarrow> if q = [] then sret root else on_disk (create_safe_directory root (Some q)))"

text \<open>From the destination on: the partial file is written, checked and renamed.\<close>

definition store_file :: "hashing \<Rightarrow> string \<Rightarrow> string \<Rightarrow> string \<Rightarrow> u64 \<Rightarrow> bool
    \<Rightarrow> (recv, dir_error, unit) op" where
  "store_file H rel destination par len checked =
     sbind (slift (ok_or NoDestinationName (file_name destination))) (\<lambda>name.
     sbind (sget (\<lambda>s. symlink_metadata (disk s) destination)) (\<lambda>md.
     sbind (sguard (\<not> is_link md) ReplaceSymlink) (\<lambda>_.
     let partial = path_push par (partial_name name) in
     sbind (on_disk_io (file_create partial)) (\<lambda>k.
     sbind (copy_in rel k (unat len) (if checked then Some [] else None)) (\<lambda>hasher.
     sbind (verify_digest H rel partial hasher) (\<lambda>_.
     on_disk_io (rename partial destination)))))))"

definition receive_file ::
    "hashing \<Rightarrow> string \<Rightarrow> DirectoryTransferStats \<Rightarrow> (recv, dir_error, DirectoryTransferStats) op" where
  "receive_file H root st =
     sbind (rread read_path) (\<lambda>rel.
     sbind (rread_io read_be64) (\<lambda>len.
     sbind (rread_io read_u8) (\<lambda>flag.
     sbind (slift (safe_child root rel)) (\<lambda>destination.
     sbind (parent_directory root rel) (\<lambda>par.
     sbind (store_file H rel destination par len (flag \<noteq> 0)) (\<lambda>_.
     sret (st\<lparr>files := files st + 1, bytes := bytes st + len\<rparr>)))))))"

section \<open>The frame loop\<close>

definition recv_totals :: "DirectoryTransferStats \<Rightarrow> (recv, dir_error, DirectoryTransferStats) op" where
  "recv_totals st =
     sbind (rread_io (\<lambda>r. read_exact r 24)) (\<lambda>totals.
     sbind (sguard (u64_from_be (take 8 totals) = files st
              \<and> u64_from_be (take 8 (drop 8 totals)) = directories st
              \<and> u64_from_be (take 8 (drop 16 totals)) = bytes st) TotalsMismatch) (\<lambda>_.
     sret st))"

text \<open>One turn of the loop, after the tag; the flag says that the transfer has ended.\<close>

definition recv_tagged ::
    "hashing \<Rightarrow> string \<Rightarrow> DirectoryTransferStats \<Rightarrow> byte
       \<Rightarrow> (recv, dir_error, bool \<times> DirectoryTransferStats) op" where
  "recv_tagged H root st tag =
     (if tag = FRAME_DIRECTORY then
        sbind (rread read_path) (\<lambda>rel.
        sbind (on_disk (create_safe_directory root (Some rel))) (\<lambda>_.
        sret (False, st\<lparr>directories := directories st + 1\<rparr>)))
      else if tag = FRAME_PACK_START then
        sbind (rread_io (\<lambda>r. read_exact r 8)) (\<lambda>_.
        sret (False, st\<lparr>packs := packs st + 1\<rparr>))
      else if tag = FRAME_PACK_END then sret (False, st)
      else if tag = FRAME_FILE then sbind (receive_file H root st) (\<lambda>st. sret (False, st))
      else if tag = FRAME_END then sbind (recv_totals st) (\<lambda>st. sret (True, st))
      else sfail UnknownFrame)"

definition recv_frame ::
    "hashing \<Rightarrow> string \<Rightarrow> DirectoryTransferStats \<Rightarrow> (recv, dir_error, bool \<times> DirectoryTransferStats) op" where
  "recv_frame H root st = sbind (rread_io read_u8) (recv_tagged H root st)"

text \<open>The stream only shrinks; every turn takes the tag byte at least.\<close>

definition drains :: "recv \<Rightarrow> recv \<Rightarrow> bool" where
  "drains s s' \<longleftrightarrow> length (pending (rd s')) \<le> length (pending (rd s))"

interpretation drain: effect drains
  by unfold_locales (auto simp: drains_def)

lemma drains_rread_io:
  "(\<And>r a r'. f r = Inr (a, r') \<Longrightarrow> length (pending r') \<le> length (pending r)) \<Longrightarrow>
     drains s (snd (rread_io f s))"
  by (auto simp: rread_io_def sread_def drains_def split: sum.splits)

lemma drains_read_exact: "drains s (snd (rread_io (\<lambda>r. read_exact r n) s))"
  by (rule drains_rread_io) (auto simp: read_exact_Inr)

lemma drains_read_u8: "drains s (snd (rread_io read_u8 s))"
  by (rule drains_rread_io) (rule u8c.dec_shrinks)

lemma drains_read_be64: "drains s (snd (rread_io read_be64 s))"
  by (rule drains_rread_io) (rule be64.dec_shrinks)

lemma drains_read_path: "drains s (snd (rread read_path s))"
  using path_codec.dec_shrinks
  by (auto simp: rread_def sread_def drains_def split: sum.splits)

lemma drains_on_disk: "drains s (snd (on_disk m s))" "drains s (snd (on_disk_io n s))"
  by (auto simp: on_disk_def on_disk_io_def szoom_def drains_def split: prod.splits)

lemma drains_copy_in: "drains s (snd (copy_in rel k n h s))"
proof (induction rel k n h s rule: copy_in.induct)
  case (1 rel k n h s)
  show ?case
  proof (cases "n = 0 \<or> pending (rd s) = []")
    case True
    then show ?thesis
      by (auto simp: copy_in.simps[of rel k n] read_some_Nil drain.R_refl)
  next
    case False
    then obtain j where j: "0 < j" "j \<le> n" "j \<le> length (pending (rd s))"
      "read_some (rd s) (min n FILE_CHUNK_SIZE)
         = Inr (take j (pending (rd s)), (rd s)\<lparr>pending := drop j (pending (rd s))\<rparr>)"
      using read_some_cases[of "rd s" "min n FILE_CHUNK_SIZE"] by (auto simp: FILE_CHUNK_SIZE_def)
    then obtain b bs where bs: "take j (pending (rd s)) = b # bs"
      by (cases "take j (pending (rd s))") auto
    show ?thesis
      using 1[OF _ j(4) refl bs] False j bs
      by (simp add: copy_in.simps[of rel k n] drains_def)
  qed
qed

lemmas drains_rules = drain.after_pure drains_read_exact drains_read_u8 drains_read_be64
  drains_read_path drains_on_disk drains_copy_in

lemma drains_verify_digest: "drains s (snd (verify_digest H rel p h s))"
proof (cases h)
  case (Some bs)
  show ?thesis unfolding verify_digest_def Some option.case
    by (intro drain.after_bind drains_rules)
      (auto intro!: drain.after_bind drain.after_wrapped drains_rules simp: drain.R_refl)
qed (simp add: verify_digest_def drain.R_refl)

lemma drains_receive_file: "drains s (snd (receive_file H root st s))"
  unfolding receive_file_def store_file_def parent_directory_def Let_def
  by (intro drain.after_bind drains_rules drains_verify_digest)
    (auto intro!: drains_rules simp: drain.R_refl split: option.splits)

lemma drains_recv_tagged: "drains s (snd (recv_tagged H root st tag s))"
  unfolding recv_tagged_def recv_totals_def
  by (auto intro!: drain.after_bind drains_rules drains_receive_file simp: drain.R_refl)

lemma rread_io_u8:
  assumes "rread_io read_u8 s = (Inr tag, s')"
  obtains rest where "pending (rd s) = tag # rest" "s' = s\<lparr>rd := (rd s)\<lparr>pending := rest\<rparr>\<rparr>"
  using assms u8c.dec_sound[of "rd s"]
  by (fastforce simp: rread_io_def sread_def split: sum.splits)

lemma recv_frame_consumes:
  assumes "recv_frame H root st s = (Inr x, s')"
  shows "length (pending (rd s')) < length (pending (rd s))"
proof -
  obtain tag s1 where t: "rread_io read_u8 s = (Inr tag, s1)" "recv_tagged H root st tag s1 = (Inr x, s')"
    using assms by (auto simp: recv_frame_def sbind_Inr_iff)
  then have "length (pending (rd s1)) < length (pending (rd s))"
    by (auto elim: rread_io_u8)
  moreover have "drains s1 s'" using drains_recv_tagged[of s1 H root st tag] t(2) by simp
  ultimately show ?thesis by (simp add: drains_def)
qed

function recv_loop ::
    "hashing \<Rightarrow> string \<Rightarrow> DirectoryTransferStats \<Rightarrow> (recv, dir_error, DirectoryTransferStats) op" where
  "recv_loop H root st s =
     (case recv_frame H root st s of
        (Inl e, s') \<Rightarrow> (Inl e, s')
      | (Inr (ended, st'), s') \<Rightarrow> if ended then (Inr st', s') else recv_loop H root st' s')"
  by pat_completeness auto
termination
  by (relation "measure (\<lambda>(H, root, st, s). length (pending (rd s)))") (auto dest: recv_frame_consumes[OF sym])

declare recv_loop.simps [simp del]

definition receive_directory ::
    "hashing \<Rightarrow> string \<Rightarrow> (recv, dir_error, DirectoryTransferStats) op" where
  "receive_directory H destination_base =
     sbind (rread_io read_u8) (\<lambda>tag.
     sbind (sguard (tag = FRAME_START) NoStartFrame) (\<lambda>_.
     sbind (rread read_path) (\<lambda>root_name.
     sbind (sguard (length (components root_name) = 1) RootNotSingle) (\<lambda>_.
     sbind (slift (safe_child destination_base root_name)) (\<lambda>root.
     sbind (on_disk (create_safe_directory root None)) (\<lambda>root.
     recv_loop H root (default_stats\<lparr>directories := 1\<rparr>)))))))"

section \<open>Paths of the receiver\<close>

lemma wire_path_plain: "wire_path rel \<Longrightarrow> list_all plain_name (segments rel)"
  using wire_path_segments[of rel] by (auto simp: list_all_iff)

lemma wire_path_child:
  "wire_path rel \<Longrightarrow>
     safe_child root rel
       = Inr (path_push (foldl path_push root (butlast (segments rel))) (last (segments rel)))"
  using safe_child_segments[of rel root]
  by (cases "segments rel" rule: rev_cases) (auto simp: wire_path_def)

lemma wire_path_last: "wire_path rel \<Longrightarrow> plain_name (last (segments rel)) \<and> utf8_valid (last (segments rel))"
  using wire_path_segments[of rel] by (simp add: list_all_iff)

lemma parent_relative_wire:
  assumes "wire_path rel"
  shows "parent_relative rel = Some (join_with [slash] (butlast (segments rel)))"
proof -
  have "parent (join_with [slash] (segments rel)) = Some (join_with [slash] (butlast (segments rel)))"
    using wire_path_plain[OF assms] by (intro parent_join) auto
  moreover have "list_all utf8_valid (butlast (segments rel))"
    using wire_path_segments[OF assms] by (auto simp: list_all_iff dest: in_set_butlastD)
  ultimately show ?thesis by (simp add: parent_relative_def utf8_valid_join)
qed

lemma create_safe_directory_wire:
  "wire_path rel \<Longrightarrow> create_safe_directory root (Some rel) = safe_descend root (segments rel)"
  by (rule ext) (simp add: create_safe_directory_def wire_path_def normals_of_segments plain_segments)

lemma parent_directory_wire:
  assumes "wire_path rel"
  shows "parent_directory root rel = on_disk (safe_descend root (butlast (segments rel)))"
proof (cases "butlast (segments rel) = []")
  case True
  then show ?thesis using parent_relative_wire[OF assms]
    by (auto simp: parent_directory_def on_disk_def szoom_def)
next
  case False
  let ?q = "join_with [slash] (butlast (segments rel))"
  have segs: "segments rel = butlast (segments rel) @ [last (segments rel)]" by simp
  have w: "wire_path ?q" by (rule wire_path_prefix[OF assms segs False])
  have "list_all plain_name (butlast (segments rel))"
    using wire_path_plain[OF assms] by (auto simp: list_all_iff dest: in_set_butlastD)
  then have "segments ?q = butlast (segments rel)" using False by (intro segments_join)
  moreover have "?q \<noteq> []" using w by (auto simp: wire_path_def validate_relative_path_def)
  ultimately show ?thesis
    using parent_relative_wire[OF assms] w
    by (simp add: parent_directory_def create_safe_directory_wire)
qed

lemma partial_name_plain:
  assumes "plain_name n" "utf8_valid n"
  shows "plain_name (partial_name n)"
proof -
  have "slash \<notin> set n" using assms by (simp add: plain_name_def)
  then show ?thesis using assms set_take_subset[of "floor_boundary n 240" n]
    by (auto simp: partial_name_def Let_def utf8_lossy_valid plain_name_def)
qed

definition part_suffix :: "string \<Rightarrow> bool" where
  "part_suffix n = suffix ''.quic-part'' n"

lemma partial_name_part: "part_suffix (partial_name n)"
proof -
  obtain stem where "partial_name n = (CHR ''.'' # stem) @ ''.quic-part''"
    by (metis append_Cons append_Nil append.assoc partial_name_def)
  then show ?thesis by (metis part_suffix_def suffixI)
qed

section \<open>Containment\<close>

lemma safe_descend_effect:
  assumes "dir_at fs cur K" "list_all plain_name ns"
  shows "grows K fs (snd (safe_descend cur ns fs))"
    "fst (safe_descend cur ns fs) = Inr p \<Longrightarrow>
       p = foldl path_push cur ns \<and> dir_at (snd (safe_descend cur ns fs)) p (K @ ns)"
proof -
  have "grows K fs (snd (safe_descend cur ns fs)) \<and>
     (fst (safe_descend cur ns fs) = Inr p \<longrightarrow>
       p = foldl path_push cur ns \<and> dir_at (snd (safe_descend cur ns fs)) p (K @ ns))"
    using assms
  proof (induction ns arbitrary: cur K fs)
    case Nil
    then show ?case by (auto simp: growth.R_refl)
  next
    case (Cons n ns)
    then have n: "plain_name n" "list_all plain_name ns" by simp_all
    let ?c = "path_push cur n"
    have md: "symlink_metadata fs ?c = ok_or NotFound (nodes fs (K @ [n]))"
      by (rule symlink_metadata_child[OF Cons.prems(1) n(1)])
    show ?case
    proof (cases "nodes fs (K @ [n])")
      case None
      let ?fs = "set_node (K @ [n]) (Some Dir) fs"
      have g: "grows K fs ?fs" using None by (simp add: grows_set_node)
      have d: "dir_at ?fs ?c (K @ [n])"
        using dir_at_child[OF dir_at_grows[OF Cons.prems(1) g] n(1)] by simp
      have cd: "create_dir ?c fs = (Inr (), ?fs)"
        using create_dir_child[OF Cons.prems(1) n(1)] None by simp
      show ?thesis
        using Cons.IH[OF d n(2)] md None cd g growth.R_trans[of K fs ?fs]
          grows_wider[of K "[n]" ?fs]
        by (auto simp: ok_or_def)
    next
      case (Some v)
      show ?thesis
      proof (cases v)
        case Dir
        then have d: "dir_at fs ?c (K @ [n])"
          using dir_at_child[OF Cons.prems(1) n(1)] Some by simp
        show ?thesis
          using Cons.IH[OF d n(2)] md Some Dir grows_wider[of K "[n]" fs] by (auto simp: ok_or_def)
      qed (use md Some in \<open>simp_all add: ok_or_def growth.R_refl\<close>)
    qed
  qed
  then show "grows K fs (snd (safe_descend cur ns fs))"
    "fst (safe_descend cur ns fs) = Inr p \<Longrightarrow>
       p = foldl path_push cur ns \<and> dir_at (snd (safe_descend cur ns fs)) p (K @ ns)"
    by auto
qed

definition disk_grows :: "string list \<Rightarrow> recv \<Rightarrow> recv \<Rightarrow> bool" where
  "disk_grows B s s' \<longleftrightarrow> grows B (disk s) (disk s')"

interpretation dgrowth: effect "disk_grows B" for B
  by unfold_locales (auto simp: disk_grows_def growth.R_refl intro: growth.R_trans)

text \<open>No name of a partial file is taken by a symbolic link below \<open>B\<close>.\<close>

definition no_part_links :: "string list \<Rightarrow> fsys \<Rightarrow> bool" where
  "no_part_links B fs \<longleftrightarrow>
     (\<forall>k t. below B k \<and> nodes fs k = Some (Symlink t) \<longrightarrow> \<not> part_suffix (last k))"

lemma no_part_links_grows: "no_part_links B fs \<Longrightarrow> grows C fs fs' \<Longrightarrow> no_part_links B fs'"
  by (auto simp: no_part_links_def grows_def)

lemma copy_in_grows:
  assumes "nodes (disk s) k = Some (File c)" "below B k"
  shows "disk_grows B s (snd (copy_in rel k n h s))
     \<and> (\<exists>c'. nodes (disk (snd (copy_in rel k n h s))) k = Some (File c'))"
  using assms
proof (induction rel k n h s arbitrary: c rule: copy_in.induct)
  case (1 rel k n h s)
  show ?case
  proof (cases "n = 0")
    case True
    then show ?thesis using 1 by (simp add: dgrowth.R_refl)
  next
    case False
    show ?thesis
    proof (cases "read_some (rd s) (min n FILE_CHUNK_SIZE)")
      case (Inl e)
      then show ?thesis using False 1
        by (simp add: copy_in.simps[of rel k n] dgrowth.R_refl)
    next
      case (Inr p)
      obtain bs r' where p: "p = (bs, r')" by (cases p)
      show ?thesis
      proof (cases bs)
        case Nil
        then show ?thesis using False Inr p 1
          by (simp add: copy_in.simps[of rel k n] dgrowth.R_refl)
      next
        case (Cons b bs')
        let ?s = "s\<lparr>rd := r', disk := file_append k (b # bs') (disk s)\<rparr>"
        have "disk_grows B s ?s"
          using file_append_grows 1 by (simp add: disk_grows_def)
        moreover have "nodes (disk ?s) k = Some (File (c @ b # bs'))"
          using 1 by (simp add: file_append_def file_content_def)
        ultimately show ?thesis
          using 1(1)[OF False Inr p[symmetric] Cons] 1(3) False Inr p Cons
          by (auto simp: copy_in.simps[of rel k n] intro: dgrowth.R_trans)
      qed
    qed
  qed
qed

lemma dgrowth_stream:
  "disk_grows B s (snd (rread f s))" "disk_grows B s (snd (rread_io g s))"
  by (auto simp: rread_def rread_io_def sread_def disk_grows_def growth.R_refl split: sum.splits)

lemma dgrowth_on_disk:
  "grows B (disk s) (snd (m (disk s))) \<Longrightarrow> disk_grows B s (snd (on_disk m s))"
  "grows B (disk s) (snd (n (disk s))) \<Longrightarrow> disk_grows B s (snd (on_disk_io n s))"
  by (auto simp: on_disk_def on_disk_io_def szoom_def disk_grows_def split: prod.splits)

lemmas dgrowth_rules = dgrowth.after_pure dgrowth_stream

lemma rread_Inr: "rread f s = (Inr a, s') \<longleftrightarrow> (\<exists>r. f (rd s) = Inr (a, r) \<and> s' = s\<lparr>rd := r\<rparr>)"
  by (auto simp: rread_def sread_def split: sum.splits)

lemma on_disk_io_Inr:
  "on_disk_io m s = (Inr a, s') \<longleftrightarrow> (\<exists>fs. m (disk s) = (Inr a, fs) \<and> s' = s\<lparr>disk := fs\<rparr>)"
  by (cases "fst (m (disk s))") (auto simp: on_disk_io_def szoom_def split: prod.splits)

lemma on_disk_Inr:
  "on_disk m s = (Inr a, s') \<longleftrightarrow> (\<exists>fs. m (disk s) = (Inr a, fs) \<and> s' = s\<lparr>disk := fs\<rparr>)"
  by (cases "fst (m (disk s))") (auto simp: on_disk_def szoom_def split: prod.splits)

text \<open>The file operations on a regular partial file.\<close>

lemma remove_file_grows:
  assumes "dir_at fs p K" "plain_name s" "nodes fs (K @ [s]) = Some (File c)"
  shows "grows K fs (snd (remove_file (path_push p s) fs))"
  using assms by (simp add: remove_file_child grows_set_node)

lemma rename_grows:
  assumes "dir_at fs p K" "plain_name s" "plain_name t" "nodes fs (K @ [s]) = Some (File c)"
    and "\<forall>l. nodes fs (K @ [t]) \<noteq> Some (Symlink l)"
  shows "grows K fs (snd (rename (path_push p s) (path_push p t) fs))"
proof (cases "nodes fs (K @ [t]) = Some Dir")
  case True
  then show ?thesis using assms by (simp add: rename_child growth.R_refl)
next
  case False
  have "grows K fs (set_node (K @ [s]) None fs)" using assms by (simp add: grows_set_node)
  moreover have "grows K (set_node (K @ [s]) None fs)
      (set_node (K @ [t]) (Some (File c)) (set_node (K @ [s]) None fs))"
    using assms False by (intro grows_set_node) auto
  ultimately show ?thesis
    using assms False growth.R_trans by (auto simp: rename_child)
qed

lemma verify_digest_grows:
  assumes "dir_at (disk s) p K" "plain_name n" "nodes (disk s) (K @ [n]) = Some (File c)"
  shows "disk_grows K s (snd (verify_digest H rel (path_push p n) h s))"
proof (cases h)
  case (Some bs)
  have "disk_grows K s' (snd (on_disk_io (remove_file (path_push p n)) s'))"
    if "disk s' = disk s" for s'
    using that assms by (intro dgrowth_on_disk) (simp add: remove_file_grows)
  moreover have "disk s' = disk s" if "rread_io f s = (Inr e, s')" for f s' and e :: "byte list"
    using that by (auto simp: rread_io_def sread_def split: sum.splits)
  ultimately show ?thesis unfolding verify_digest_def Some option.case
    by (intro dgrowth.after_bind dgrowth_rules)
      (auto intro!: dgrowth.after_bind dgrowth.after_wrapped dgrowth_rules simp: dgrowth.R_refl)
qed (simp add: verify_digest_def dgrowth.R_refl)

lemma verify_digest_ok:
  "verify_digest H rel p h s = (Inr u, s') \<Longrightarrow> disk s' = disk s"
  by (auto simp: verify_digest_def sbind_Inr_iff rread_io_def sread_def split: option.splits sum.splits if_splits)

lemma store_file_grows:
  assumes d: "dir_at (disk s) par K" and n: "plain_name name" "utf8_valid name"
    and l: "no_part_links K (disk s)"
  shows "disk_grows K s (snd (store_file H rel (path_push par name) par len checked s))"
proof -
  let ?part = "partial_name name" and ?dst = "path_push par name"
  have pn: "plain_name ?part" by (rule partial_name_plain[OF n])
  have nolink: "\<forall>t. nodes (disk s) (K @ [?part]) \<noteq> Some (Symlink t)"
    using partial_name_part[of name] l
    by (auto simp: no_part_links_def dest: spec[of _ "K @ [partial_name name]"])
  have md: "symlink_metadata (disk s) ?dst = ok_or NotFound (nodes (disk s) (K @ [name]))"
    by (rule symlink_metadata_child[OF d n(1)])
  show ?thesis
  proof (cases "is_link (ok_or NotFound (nodes (disk s) (K @ [name])))
      \<or> nodes (disk s) (K @ [?part]) = Some Dir")
    case True
    have fc: "nodes (disk s) (K @ [?part]) = Some Dir \<Longrightarrow>
        file_create (path_push par ?part) (disk s) = (Inl IsADirectory, disk s)"
      using file_create_child[OF d pn nolink] by simp
    show ?thesis using True md n fc
      by (auto simp: store_file_def sbind_def Let_def file_name_push ok_or_def on_disk_io_def szoom_def
          dgrowth.R_refl)
  next
    case False
    then have dst: "\<forall>t. nodes (disk s) (K @ [name]) \<noteq> Some (Symlink t)"
      by (auto simp: is_link_def ok_or_def split: option.splits)
    let ?s1 = "s\<lparr>disk := set_node (K @ [?part]) (Some (File [])) (disk s)\<rparr>"
    have fc: "on_disk_io (file_create (path_push par ?part)) s = (Inr (K @ [?part]), ?s1)"
      using file_create_child[OF d pn nolink] False by (simp add: on_disk_io_Inr)
    have g1: "disk_grows K s ?s1"
      using nolink False by (simp add: disk_grows_def grows_set_node)
    have rest: "disk_grows K ?s1 (snd (
        sbind (copy_in rel (K @ [?part]) (unat len) (if checked then Some [] else None)) (\<lambda>hasher.
        sbind (verify_digest H rel (path_push par ?part) hasher) (\<lambda>_.
        on_disk_io (rename (path_push par ?part) ?dst))) ?s1))"
    proof (rule dgrowth.after_bind, goal_cases)
      case 1
      then show ?case using copy_in_grows[of ?s1 "K @ [?part]" "[]" K] by simp
    next
      case (2 hasher s2)
      have d2: "dir_at (disk s2) par K"
        using d g1 2 dir_at_grows dgrowth.R_trans[of K s ?s1 s2] unfolding disk_grows_def by blast
      obtain c where c: "nodes (disk s2) (K @ [?part]) = Some (File c)"
        using copy_in_grows[of ?s1 "K @ [?part]" "[]" K rel "unat len" "if checked then Some [] else None"] 2(1)
        by auto
      have l2: "\<forall>t. nodes (disk s2) (K @ [name]) \<noteq> Some (Symlink t)"
        using dst g1 2 dgrowth.R_trans[of K s ?s1 s2] by (auto simp: disk_grows_def grows_def)
      show ?case
      proof (rule dgrowth.after_bind, goal_cases)
        case 1
        then show ?case by (rule verify_digest_grows[OF d2 pn c])
      next
        case (2 u s3)
        have "disk s3 = disk s2" by (rule verify_digest_ok[OF 2(1)])
        then show ?case
          using rename_grows[OF d2 pn n(1) c l2] by (intro dgrowth_on_disk) simp
      qed
    qed
    have "store_file H rel ?dst par len checked s =
        sbind (copy_in rel (K @ [?part]) (unat len) (if checked then Some [] else None)) (\<lambda>hasher.
        sbind (verify_digest H rel (path_push par ?part) hasher) (\<lambda>_.
        on_disk_io (rename (path_push par ?part) ?dst))) ?s1"
      using md n False fc by (simp add: store_file_def Let_def file_name_push ok_or_def sbind_def)
    then show ?thesis using rest g1 dgrowth.R_trans by metis
  qed
qed

lemma receive_file_grows:
  assumes d: "dir_at (disk s) root K" and l: "no_part_links K (disk s)"
  shows "disk_grows K s (snd (receive_file H root st s))"
  unfolding receive_file_def
proof (rule dgrowth.after_bind, goal_cases)
  case (2 rel s1)
  then have s1: "disk s1 = disk s" and w: "wire_path rel"
    using read_path_sound by (auto simp: rread_Inr)
  have segs: "list_all plain_name (butlast (segments rel))"
    using wire_path_plain[OF w] by (auto simp: list_all_iff dest: in_set_butlastD)
  show ?case
  proof (intro dgrowth.after_bind dgrowth_rules, goal_cases)
    case (1 len s2 flag s3 destination s4)
    then have s4: "disk s4 = disk s1"
      by (auto simp: rread_io_def sread_def split: sum.splits)
    show ?case unfolding parent_directory_wire[OF w]
      using safe_descend_effect(1)[OF d segs] s1 s4 by (intro dgrowth_on_disk) simp
  next
    case (2 len s2 flag s3 destination s4 par s5)
    then have s4: "disk s4 = disk s"
      using s1 by (auto simp: rread_io_def sread_def split: sum.splits)
    let ?ns = "butlast (segments rel)" and ?n = "last (segments rel)"
    have dst: "destination = path_push (foldl path_push root ?ns) ?n"
      using 2(5) wire_path_child[OF w, of root] by simp
    have "safe_descend root ?ns (disk s) = (Inr par, disk s5)"
      using 2(7) s4 unfolding parent_directory_wire[OF w] by (auto simp: on_disk_Inr)
    then have par: "par = foldl path_push root ?ns" "dir_at (disk s5) par (K @ ?ns)"
      and g: "grows K (disk s) (disk s5)"
      using safe_descend_effect[OF d segs] by auto
    have l5: "no_part_links (K @ ?ns) (disk s5)"
      using no_part_links_grows[OF l g] below_append by (auto simp: no_part_links_def)
    have "disk_grows (K @ ?ns) s5 (snd (store_file H rel (path_push par ?n) par len (flag \<noteq> 0) s5))"
      using store_file_grows[OF par(2) _ _ l5] wire_path_last[OF w] by simp
    then show ?case using dst par grows_wider by (auto simp: disk_grows_def)
  qed
qed (rule dgrowth_rules)

lemma recv_tagged_grows:
  assumes d: "dir_at (disk s) root K" and l: "no_part_links K (disk s)"
  shows "disk_grows K s (snd (recv_tagged H root st tag s))"
proof -
  have dirs: "disk_grows K s' (snd (on_disk (create_safe_directory root (Some rel)) s'))"
    if "rread read_path s = (Inr rel, s')" for rel s'
  proof -
    have "wire_path rel" "disk s' = disk s" using that read_path_sound by (auto simp: rread_Inr)
    then show ?thesis
      using safe_descend_effect(1)[OF d wire_path_plain] by (intro dgrowth_on_disk)
        (simp add: create_safe_directory_wire)
  qed
  show ?thesis
    unfolding recv_tagged_def recv_totals_def
    by (auto intro!: dgrowth.after_bind dgrowth_rules dirs receive_file_grows[OF d l] simp: dgrowth.R_refl)
qed

lemma recv_loop_grows:
  "dir_at (disk s) root K \<Longrightarrow> no_part_links K (disk s) \<Longrightarrow>
     disk_grows K s (snd (recv_loop H root st s))"
proof (induction H root st s rule: recv_loop.induct)
  case (1 H root st s)
  have fr: "disk_grows K s (snd (recv_frame H root st s))"
    unfolding recv_frame_def
  proof (rule dgrowth.after_bind, goal_cases)
    case (2 tag s1)
    then have "disk s1 = disk s" by (auto simp: rread_io_def sread_def split: sum.splits)
    then show ?case using recv_tagged_grows 1 by simp
  qed (rule dgrowth_rules)
  show ?case
  proof (cases "recv_frame H root st s")
    case (Pair r s1)
    then have g: "disk_grows K s s1" using fr by simp
    show ?thesis
    proof (cases r)
      case (Inl e)
      then show ?thesis using Pair g by (simp add: recv_loop.simps[of H root st s])
    next
      case (Inr x)
      obtain ended st' where x: "x = (ended, st')" by (cases x)
      show ?thesis
      proof (cases ended)
        case True
        then show ?thesis using Pair Inr x g by (simp add: recv_loop.simps[of H root st s])
      next
        case False
        have "dir_at (disk s1) root K" "no_part_links K (disk s1)"
          using g 1(2,3) dir_at_grows no_part_links_grows by (auto simp: disk_grows_def)
        then have "disk_grows K s1 (snd (recv_loop H root st' s1))"
          using 1(1)[OF Pair[symmetric] Inr x[symmetric] False] by simp
        then show ?thesis using Pair Inr x False g dgrowth.R_trans
          by (simp add: recv_loop.simps[of H root st s])
      qed
    qed
  qed
qed

text \<open>The root directory: created below an existing base, or already there.\<close>

lemma create_root_effect:
  assumes d: "dir_at fs base B" and n: "plain_name name"
  shows "grows B fs (snd (create_safe_directory (path_push base name) None fs))"
    "\<forall>k. k \<noteq> B @ [name] \<longrightarrow>
       nodes (snd (create_safe_directory (path_push base name) None fs)) k = nodes fs k"
    "fst (create_safe_directory (path_push base name) None fs) = Inr p \<Longrightarrow>
       p = path_push base name \<and>
       dir_at (snd (create_safe_directory (path_push base name) None fs)) p (B @ [name])"
proof -
  let ?p = "path_push base name"
  have cd: "create_dir ?p fs =
       (if nodes fs (B @ [name]) = None then (Inr (), set_node (B @ [name]) (Some Dir) fs)
        else (Inl AlreadyExists, fs))"
    by (rule create_dir_child[OF d n])
  have ne: "?p \<noteq> []" by (rule push_not_Nil[OF n])
  have eff: "grows B fs (snd (create_safe_directory ?p None fs)) \<and>
    (\<forall>k. k \<noteq> B @ [name] \<longrightarrow> nodes (snd (create_safe_directory ?p None fs)) k = nodes fs k) \<and>
    (fst (create_safe_directory ?p None fs) = Inr p \<longrightarrow>
       p = ?p \<and> dir_at (snd (create_safe_directory ?p None fs)) p (B @ [name]))"
  proof (cases "nodes fs (B @ [name]) = None")
    case True
    let ?fs = "set_node (B @ [name]) (Some Dir) fs"
    have g: "grows B fs ?fs" using True by (simp add: grows_set_node)
    have d': "dir_at ?fs base B" by (rule dir_at_grows[OF d g])
    have "create_safe_directory ?p None fs = (Inr ?p, ?fs)"
      using True cd ne symlink_metadata_child[OF d' n]
      by (simp add: create_safe_directory_def create_dir_all.simps[of ?p] ok_or_def)
    then show ?thesis using g dir_at_child[OF d' n] by auto
  next
    case False
    then obtain v where "nodes fs (B @ [name]) = Some v" by auto
    then have ca: "create_dir_all ?p fs = (if path_is_dir fs ?p then (Inr (), fs) else (Inl AlreadyExists, fs))"
      using cd ne by (simp add: create_dir_all.simps[of ?p])
    show ?thesis
      using ca False symlink_metadata_child[OF d n] dir_at_child[OF d n]
      by (auto simp: create_safe_directory_def ok_or_def growth.R_refl split: option.splits)
  qed
  show "grows B fs (snd (create_safe_directory ?p None fs))" using eff by simp
  show "\<forall>k. k \<noteq> B @ [name] \<longrightarrow> nodes (snd (create_safe_directory ?p None fs)) k = nodes fs k"
    using eff by simp
  show "fst (create_safe_directory ?p None fs) = Inr p \<Longrightarrow>
       p = ?p \<and> dir_at (snd (create_safe_directory ?p None fs)) p (B @ [name])"
    using eff by blast
qed

text \<open>
  Whatever the peer sends, and wherever the transfer stops, only the directory named by the root
  frame changes: no other location does, no directory is lost, no link is added or replaced.
\<close>

definition only_below :: "string list \<Rightarrow> fsys \<Rightarrow> fsys \<Rightarrow> bool" where
  "only_below K fs fs' \<longleftrightarrow>
     (\<forall>k. take (length K) k \<noteq> K \<longrightarrow> nodes fs' k = nodes fs k)
     \<and> (\<forall>k. nodes fs k = Some Dir \<longrightarrow> nodes fs' k = Some Dir)
     \<and> (\<forall>k t. nodes fs' k = Some (Symlink t) \<longleftrightarrow> nodes fs k = Some (Symlink t))"

lemma receive_directory_cases:
  obtains (early) "disk (snd (receive_directory H base s)) = disk s"
    | (rooted) name s2 where "plain_name name" "disk s2 = disk s"
        "receive_directory H base s =
           sbind (on_disk (create_safe_directory (path_push base name) None))
             (\<lambda>root. recv_loop H root (default_stats\<lparr>directories := 1\<rparr>)) s2"
proof -
  obtain r1 s1 where t: "rread_io read_u8 s = (r1, s1)" by fastforce
  obtain r2 s2 where p: "rread read_path s1 = (r2, s2)" by fastforce
  have k: "disk s1 = disk s" "disk s2 = disk s"
    using t p by (auto simp: rread_io_def rread_def sread_def split: sum.splits)
  show thesis
  proof (cases "r1 = Inr FRAME_START \<and> (\<exists>n. r2 = Inr n \<and> length (components n) = 1)")
    case False
    then have "disk (snd (receive_directory H base s)) = disk s"
      using t p k by (cases r1; cases r2) (auto simp: receive_directory_def sbind_def)
    then show thesis by (rule early)
  next
    case True
    then obtain root_name where r: "r1 = Inr FRAME_START" "r2 = Inr root_name"
      "length (components root_name) = 1" by blast
    then have w: "wire_path root_name" using p read_path_sound by (auto simp: rread_Inr)
    then have "length (segments root_name) = 1"
      using r components_of_segments[OF wire_path_plain[OF w]] by simp
    then obtain name where name: "segments root_name = [name]" by (auto simp: length_Suc_conv)
    have "safe_child base root_name = Inr (path_push base name)"
      using wire_path_child[OF w, of base] name by simp
    then show thesis
      using t p r k wire_path_plain[OF w] name
      by (intro rooted[of name s2]) (simp_all add: receive_directory_def sbind_def)
  qed
qed

lemma receive_directory_contained:
  assumes d: "dir_at (disk s) base B" and l: "no_part_links B (disk s)"
  shows "\<exists>name. plain_name name \<and>
     only_below (B @ [name]) (disk s) (disk (snd (receive_directory H base s)))"
proof (cases rule: receive_directory_cases[of H base s])
  case early
  then show ?thesis by (intro exI[of _ "''x''"]) (simp add: plain_name_def only_below_def)
next
  case (rooted name s2)
  let ?cr = "create_safe_directory (path_push base name) None (disk s)"
  note eff = create_root_effect[OF d rooted(1)]
  have "disk_grows (B @ [name]) (s2\<lparr>disk := snd ?cr\<rparr>) (snd (receive_directory H base s))"
  proof (cases "fst ?cr")
    case (Inl e)
    then show ?thesis using rooted(2,3)
      by (auto simp: sbind_def on_disk_def szoom_def dgrowth.R_refl split: prod.splits)
  next
    case (Inr p)
    then have dp: "dir_at (snd ?cr) p (B @ [name])" using eff(3) by auto
    have "no_part_links (B @ [name]) (snd ?cr)"
      using no_part_links_grows[OF l eff(1)] below_append by (auto simp: no_part_links_def)
    then have "disk_grows (B @ [name]) (s2\<lparr>disk := snd ?cr\<rparr>)
        (snd (recv_loop H p (default_stats\<lparr>directories := 1\<rparr>) (s2\<lparr>disk := snd ?cr\<rparr>)))"
      using dp by (intro recv_loop_grows) simp_all
    moreover have "on_disk (create_safe_directory (path_push base name) None) s2
        = (Inr p, s2\<lparr>disk := snd ?cr\<rparr>)"
      using Inr rooted(2) by (cases ?cr) (simp add: on_disk_Inr)
    ultimately show ?thesis using rooted(3) by (simp add: sbind_def)
  qed
  then have g: "grows (B @ [name]) (snd ?cr) (disk (snd (receive_directory H base s)))"
    by (simp add: disk_grows_def)
  have "nodes (disk (snd (receive_directory H base s))) k = nodes (disk s) k"
    if k: "take (length (B @ [name])) k \<noteq> B @ [name]" for k
  proof -
    have "k \<noteq> B @ [name]" "\<not> below (B @ [name]) k" using k by (auto simp: below_def)
    then show ?thesis using g eff(2) by (simp add: grows_def)
  qed
  then have "only_below (B @ [name]) (disk s) (disk (snd (receive_directory H base s)))"
    using eff(1) g unfolding only_below_def grows_def by blast
  then show ?thesis using rooted(1) by blast
qed

end
