(* ===== verification/Directory_Roundtrip.thy ===== *)
theory Directory_Roundtrip
  imports Directory_Receive
begin

text \<open>
  The two ends of a directory transfer together: a received frame has the effect \<open>install\<close> on
  the disk, the frame loop is the fold of it, and the frames of a tree install that tree. The
  result is the round trip of \<open>send_directory\<close> and \<open>receive_directory\<close>.
\<close>

section \<open>The effect of a frame\<close>

fun install :: "string list \<Rightarrow> frame \<Rightarrow> fsys \<Rightarrow> fsys" where
  "install K (FDirectory rel) fs = set_node (K @ segments rel) (Some Dir) fs"
| "install K (FFile rel ck c) fs =
     set_node (K @ segments rel) (Some (File c))
       (set_node (K @ butlast (segments rel) @ [partial_name (last (segments rel))]) None fs)"
| "install K (FPackStart n) fs = fs"
| "install K FPackEnd fs = fs"

text \<open>All directories along \<open>ns\<close> below \<open>K\<close> exist.\<close>

fun chain :: "string list \<Rightarrow> string list \<Rightarrow> fsys \<Rightarrow> bool" where
  "chain K [] fs \<longleftrightarrow> True"
| "chain K (n # ns) fs \<longleftrightarrow> nodes fs (K @ [n]) = Some Dir \<and> chain (K @ [n]) ns fs"

lemma chain_snoc: "chain K (ns @ [n]) fs \<longleftrightarrow> chain K ns fs \<and> nodes fs (K @ ns @ [n]) = Some Dir"
  by (induction ns arbitrary: K) auto

lemma chain_mono:
  "chain K ns fs \<Longrightarrow> (\<forall>k. nodes fs k = Some Dir \<longrightarrow> nodes fs' k = Some Dir) \<Longrightarrow> chain K ns fs'"
  by (induction ns arbitrary: K) auto

definition plain_file_slot :: "node option \<Rightarrow> bool" where
  "plain_file_slot v \<longleftrightarrow> v \<noteq> Some Dir \<and> (\<forall>t. v \<noteq> Some (Symlink t))"

text \<open>The conditions under which a frame is installed.\<close>

fun ready :: "hashing \<Rightarrow> string list \<Rightarrow> fsys \<Rightarrow> frame \<Rightarrow> bool" where
  "ready H K fs (FDirectory rel) \<longleftrightarrow>
     wire_path rel \<and> chain K (butlast (segments rel)) fs
     \<and> (nodes fs (K @ segments rel) = None \<or> nodes fs (K @ segments rel) = Some Dir)"
| "ready H K fs (FFile rel ck c) \<longleftrightarrow>
     wire_path rel \<and> chain K (butlast (segments rel)) fs
     \<and> plain_file_slot (nodes fs (K @ segments rel))
     \<and> plain_file_slot (nodes fs (K @ butlast (segments rel) @ [partial_name (last (segments rel))]))
     \<and> partial_name (last (segments rel)) \<noteq> last (segments rel)
     \<and> length c < 2 ^ 64 \<and> (ck \<longrightarrow> length (sha256 H c) = 32)"
| "ready H K fs (FPackStart n) \<longleftrightarrow> True"
| "ready H K fs FPackEnd \<longleftrightarrow> True"

lemma safe_descend_chain:
  "dir_at fs cur K \<Longrightarrow> chain K ns fs \<Longrightarrow> list_all plain_name ns \<Longrightarrow>
     safe_descend cur ns fs = (Inr (foldl path_push cur ns), fs)
     \<and> dir_at fs (foldl path_push cur ns) (K @ ns)"
proof (induction ns arbitrary: cur K)
  case (Cons n ns)
  then show ?case
    using Cons.IH[of "path_push cur n" "K @ [n]"] dir_at_child[of fs cur K n]
    by (simp add: symlink_metadata_child ok_or_def)
qed simp

lemma safe_descend_append:
  "safe_descend cur (ns @ ms) fs =
     (case safe_descend cur ns fs of
        (Inl e, fs') \<Rightarrow> (Inl e, fs') | (Inr p, fs') \<Rightarrow> safe_descend p ms fs')"
  by (induction ns arbitrary: cur fs) (auto simp: Let_def split: sum.splits node.splits prod.splits)

lemma safe_descend_last:
  assumes d: "dir_at fs cur K" and c: "chain K ns fs" and p: "list_all plain_name (ns @ [n])"
    and v: "nodes fs (K @ ns @ [n]) = None \<or> nodes fs (K @ ns @ [n]) = Some Dir"
  shows "safe_descend cur (ns @ [n]) fs =
     (Inr (foldl path_push cur (ns @ [n])), set_node (K @ ns @ [n]) (Some Dir) fs)"
proof -
  have at: "dir_at fs (foldl path_push cur ns) (K @ ns)" and n: "plain_name n"
    and first: "safe_descend cur ns fs = (Inr (foldl path_push cur ns), fs)"
    using safe_descend_chain[OF d c] p by simp_all
  have same: "nodes fs (K @ ns @ [n]) = Some Dir \<Longrightarrow> set_node (K @ ns @ [n]) (Some Dir) fs = fs"
    by (simp add: set_node_def fun_upd_idem)
  show ?thesis
    using v symlink_metadata_child[OF at n] create_dir_child[OF at n] first same
    by (auto simp: safe_descend_append ok_or_def)
qed

lemma copy_in_eq:
  assumes "pending (rd s) = c @ rest" "nodes (disk s) k = Some (File x)"
  shows "copy_in rel k (length c) h s =
     (Inr (map_option (\<lambda>h. h @ c) h),
      s\<lparr>rd := (rd s)\<lparr>pending := rest\<rparr>, disk := set_node k (Some (File (x @ c))) (disk s)\<rparr>)"
  using assms
proof (induction "length c" arbitrary: c h s x rule: less_induct)
  case less
  show ?case
  proof (cases "c = []")
    case True
    have "set_node k (Some (File x)) (disk s) = disk s"
      using less.prems by (simp add: set_node_def fun_upd_idem)
    then show ?thesis using True less.prems by (cases h) simp_all
  next
    case False
    then obtain j where j: "0 < j" "j \<le> length c" "j \<le> length (pending (rd s))"
      "read_some (rd s) (min (length c) FILE_CHUNK_SIZE)
         = Inr (take j (pending (rd s)), (rd s)\<lparr>pending := drop j (pending (rd s))\<rparr>)"
      using read_some_cases[of "rd s" "min (length c) FILE_CHUNK_SIZE"] less.prems
      by (auto simp: FILE_CHUNK_SIZE_def)
    obtain b bs where bs: "take j c = b # bs" using j False by (cases "take j c") auto
    have tk: "take j (pending (rd s)) = b # bs" "drop j (pending (rd s)) = drop j c @ rest"
      using j bs less.prems by simp_all
    have len: "length c - length (b # bs) = length (drop j c)" using j by (simp flip: bs)
    let ?s = "s\<lparr>rd := (rd s)\<lparr>pending := drop j c @ rest\<rparr>, disk := file_append k (b # bs) (disk s)\<rparr>"
    have k: "nodes (disk ?s) k = Some (File (x @ b # bs))"
      using less.prems by (simp add: file_append_def file_content_def)
    have "copy_in rel k (length c) h s
        = copy_in rel k (length (drop j c)) (map_option (\<lambda>h. h @ b # bs) h) ?s"
      using False j tk len by (simp add: copy_in.simps[of rel k "length c"] del: length_drop)
    also have "\<dots> = (Inr (map_option (\<lambda>h. h @ drop j c) (map_option (\<lambda>h. h @ b # bs) h)),
        ?s\<lparr>rd := (rd ?s)\<lparr>pending := rest\<rparr>,
            disk := set_node k (Some (File ((x @ b # bs) @ drop j c))) (disk ?s)\<rparr>)"
      using j False by (intro less.hyps[OF _ _ k]) simp_all
    finally show ?thesis
      using bs append_take_drop_id[of j c] by (cases h) (auto simp: file_append_def)
  qed
qed

section \<open>Receiving one frame\<close>

lemma rread_io_codec_u8:
  "pending (rd s) = b # rest \<Longrightarrow> rread_io read_u8 s = (Inr b, s\<lparr>rd := (rd s)\<lparr>pending := rest\<rparr>\<rparr>)"
  by (simp add: rread_io_def sread_def)

lemma rread_io_be64:
  "pending (rd s) = u64_to_be v @ rest \<Longrightarrow>
     rread_io read_be64 s = (Inr v, s\<lparr>rd := (rd s)\<lparr>pending := rest\<rparr>\<rparr>)"
  by (simp add: rread_io_def sread_def be64.dec_enc)

lemma rread_io_exact:
  "pending (rd s) = bs @ rest \<Longrightarrow> length bs = n \<Longrightarrow>
     rread_io (\<lambda>r. read_exact r n) s = (Inr bs, s\<lparr>rd := (rd s)\<lparr>pending := rest\<rparr>\<rparr>)"
  by (simp add: rread_io_def sread_def)

lemma rread_path:
  "pending (rd s) = path_bytes v @ rest \<Longrightarrow> wire_path v \<Longrightarrow>
     rread read_path s = (Inr v, s\<lparr>rd := (rd s)\<lparr>pending := rest\<rparr>\<rparr>)"
  by (simp add: rread_def sread_def read_path_enc)

lemma on_disk_ok:
  "m (disk s) = (Inr a, fs) \<Longrightarrow> on_disk m s = (Inr a, s\<lparr>disk := fs\<rparr>)"
  "n (disk s) = (Inr b, fs) \<Longrightarrow> on_disk_io n s = (Inr b, s\<lparr>disk := fs\<rparr>)"
  by (simp_all add: on_disk_Inr on_disk_io_Inr)

lemma store_file_ok:
  assumes d: "dir_at (disk s) par K" and n: "plain_name name" "utf8_valid name"
    and dst: "plain_file_slot (nodes (disk s) (K @ [name]))"
    and part: "plain_file_slot (nodes (disk s) (K @ [partial_name name]))"
    and ne: "partial_name name \<noteq> name"
    and len: "unat len = length c" "checked \<Longrightarrow> length (sha256 H c) = 32"
    and p: "pending (rd s) = c @ (if checked then sha256 H c else []) @ rest"
  shows "store_file H rel (path_push par name) par len checked s =
     (Inr (), s\<lparr>rd := (rd s)\<lparr>pending := rest\<rparr>,
       disk := set_node (K @ [name]) (Some (File c)) (set_node (K @ [partial_name name]) None (disk s))\<rparr>)"
proof -
  let ?p = "partial_name name" and ?tail = "(if checked then sha256 H c else []) @ rest"
  have pn: "plain_name ?p" by (rule partial_name_plain[OF n])
  have md: "\<not> is_link (symlink_metadata (disk s) (path_push par name))"
    using dst symlink_metadata_child[OF d n(1)]
    by (auto simp: is_link_def ok_or_def plain_file_slot_def split: option.splits node.splits)
  let ?s1 = "s\<lparr>disk := set_node (K @ [?p]) (Some (File [])) (disk s)\<rparr>"
  have fc: "on_disk_io (file_create (path_push par ?p)) s = (Inr (K @ [?p]), ?s1)"
    using file_create_child[OF d pn] part by (intro on_disk_ok) (simp add: plain_file_slot_def)
  let ?s2 = "s\<lparr>rd := (rd s)\<lparr>pending := ?tail\<rparr>, disk := set_node (K @ [?p]) (Some (File c)) (disk s)\<rparr>"
  have cp: "copy_in rel (K @ [?p]) (unat len) h ?s1 = (Inr (map_option (\<lambda>h. h @ c) h), ?s2)" for h
    using copy_in_eq[of ?s1 c ?tail "K @ [?p]" "[]" rel h] p len(1) by simp
  let ?s3 = "?s2\<lparr>rd := (rd s)\<lparr>pending := rest\<rparr>\<rparr>"
  have vd: "verify_digest H rel (path_push par ?p)
      (map_option (\<lambda>h. h @ c) (if checked then Some [] else None)) ?s2 = (Inr (), ?s3)"
  proof (cases checked)
    case True
    then have "rread_io (\<lambda>r. read_exact r 32) ?s2 = (Inr (sha256 H c), ?s3)"
      using len(2) rread_io_exact[of ?s2 "sha256 H c" rest 32] by simp
    then show ?thesis using True by (simp add: verify_digest_def sbind_ok)
  qed (simp add: verify_digest_def)
  have d3: "dir_at (disk ?s3) par K"
    using d part dir_at_grows[OF d grows_set_node[of K "K @ [?p]" "disk s" "Some (File c)"]]
    by (simp add: plain_file_slot_def)
  have slot: "nodes (disk ?s3) (K @ [name]) \<noteq> Some Dir"
    using dst ne by (simp add: plain_file_slot_def)
  have rn: "on_disk_io (rename (path_push par ?p) (path_push par name)) ?s3 =
      (Inr (), ?s3\<lparr>disk := set_node (K @ [name]) (Some (File c)) (set_node (K @ [?p]) None (disk s))\<rparr>)"
    using rename_child[OF d3 pn d3 n(1), of c] slot by (intro on_disk_ok) simp
  show ?thesis
    using md fc cp vd rn n by (simp add: store_file_def Let_def file_name_push ok_or_def sbind_ok)
qed

text \<open>A ready frame is received with exactly its effect and its count.\<close>

lemma recv_frame_ok:
  assumes d: "dir_at (disk s) root K" and r: "ready H K (disk s) f"
    and p: "pending (rd s) = frame_bytes (sha256 H) f @ rest"
  shows "recv_frame H root st s =
     (Inr (False, tally f st), s\<lparr>rd := (rd s)\<lparr>pending := rest\<rparr>, disk := install K f (disk s)\<rparr>)"
proof (cases f)
  case (FDirectory rel)
  then have w: "wire_path rel" using r by simp
  let ?ns = "butlast (segments rel)" and ?n = "last (segments rel)"
  have segs: "segments rel = ?ns @ [?n]" by simp
  have "safe_descend root (?ns @ [?n]) (disk s) =
     (Inr (foldl path_push root (?ns @ [?n])), set_node (K @ ?ns @ [?n]) (Some Dir) (disk s))"
    using d r FDirectory wire_path_plain[OF w] segs by (intro safe_descend_last) simp_all
  then have "create_safe_directory root (Some rel) (disk s)
      = (Inr (foldl path_push root (segments rel)), install K f (disk s))"
    using segs FDirectory by (simp add: create_safe_directory_wire[OF w])
  then show ?thesis using FDirectory p w
    by (simp add: recv_frame_def rread_io_codec_u8 sbind_ok recv_tagged_def frame_tags rread_path on_disk_ok)
next
  case (FFile rel ck c)
  then have w: "wire_path rel" using r by simp
  let ?ns = "butlast (segments rel)" and ?n = "last (segments rel)"
  let ?par = "foldl path_push root ?ns"
  have segs: "segments rel = ?ns @ [?n]" by simp
  have plain: "list_all plain_name ?ns"
    using wire_path_plain[OF w] by (auto simp: list_all_iff dest: in_set_butlastD)
  have sd: "safe_descend root ?ns (disk s) = (Inr ?par, disk s)" "dir_at (disk s) ?par (K @ ?ns)"
    using safe_descend_chain[OF d _ plain] r FFile by simp_all
  let ?len = "word_of_nat (length c) :: u64"
  have len: "unat ?len = length c" using r FFile by (intro unat_word_of_nat) simp
  let ?flag = "(if ck then 1 else 0) :: byte"
  let ?tail = "c @ (if ck then sha256 H c else []) @ rest"
  have pend: "pending (rd s) = FRAME_FILE # path_bytes rel @ u64_to_be ?len @ ?flag # ?tail"
    using p FFile by simp
  let ?s1 = "s\<lparr>rd := (rd s)\<lparr>pending := ?tail\<rparr>\<rparr>"
  have st: "store_file H rel (path_push ?par ?n) ?par ?len ck ?s1 =
     (Inr (), ?s1\<lparr>rd := (rd s)\<lparr>pending := rest\<rparr>, disk := install K f (disk s)\<rparr>)"
    using store_file_ok[of ?s1 ?par "K @ ?ns" ?n ?len c ck H rest rel] sd r FFile
      wire_path_last[OF w] len segs by simp
  have "on_disk (safe_descend root ?ns) ?s1 = (Inr ?par, ?s1)"
    using sd by (simp add: on_disk_Inr)
  moreover have "(?flag \<noteq> 0) = ck" by simp
  ultimately have "receive_file H root st (s\<lparr>rd := (rd s)\<lparr>pending := path_bytes rel @ u64_to_be ?len @ ?flag # ?tail\<rparr>\<rparr>)
      = (Inr (tally f st), s\<lparr>rd := (rd s)\<lparr>pending := rest\<rparr>, disk := install K f (disk s)\<rparr>)"
    using st w FFile
    by (simp add: receive_file_def rread_path sbind_ok rread_io_be64 rread_io_codec_u8
        wire_path_child parent_directory_wire)
  then show ?thesis using pend FFile
    by (simp add: recv_frame_def rread_io_codec_u8 sbind_ok recv_tagged_def frame_tags)
next
  case (FPackStart n)
  then show ?thesis using p rread_io_exact[of "s\<lparr>rd := (rd s)\<lparr>pending := u64_to_be n @ rest\<rparr>\<rparr>" "u64_to_be n" rest 8]
    by (simp add: recv_frame_def rread_io_codec_u8 sbind_ok recv_tagged_def frame_tags)
next
  case FPackEnd
  then show ?thesis using p
    by (simp add: recv_frame_def rread_io_codec_u8 sbind_ok recv_tagged_def frame_tags)
qed


section \<open>Receiving a frame sequence\<close>

fun all_ready :: "hashing \<Rightarrow> string list \<Rightarrow> fsys \<Rightarrow> frame list \<Rightarrow> bool" where
  "all_ready H K fs [] \<longleftrightarrow> True"
| "all_ready H K fs (f # fr) \<longleftrightarrow> ready H K fs f \<and> all_ready H K (install K f fs) fr"

lemma all_ready_append:
  "all_ready H K fs (xs @ ys) \<longleftrightarrow> all_ready H K fs xs \<and> all_ready H K (fold (install K) xs fs) ys"
  by (induction xs arbitrary: fs) auto

lemma install_grows: "ready H K fs f \<Longrightarrow> grows K fs (install K f fs)"
proof (cases f)
  case (FDirectory rel)
  moreover assume "ready H K fs f"
  ultimately show ?thesis by (auto intro!: grows_set_node simp: below_def)
next
  case (FFile rel ck c)
  assume r: "ready H K fs f"
  let ?p = "K @ butlast (segments rel) @ [partial_name (last (segments rel))]"
  have b: "below K ?p" "below K (K @ segments rel)" by (simp_all add: below_def)
  have "grows K fs (set_node ?p None fs)"
    using r FFile b by (intro grows_set_node) (auto simp: plain_file_slot_def)
  moreover have "grows K (set_node ?p None fs)
      (set_node (K @ segments rel) (Some (File c)) (set_node ?p None fs))"
    using r FFile b by (intro grows_set_node) (auto simp: plain_file_slot_def)
  ultimately show ?thesis using FFile growth.R_trans by simp
qed (simp_all add: growth.R_refl)

lemma recv_totals_ok:
  assumes "pending (rd s) = totals_bytes st @ rest"
  shows "recv_totals st s = (Inr st, s\<lparr>rd := (rd s)\<lparr>pending := rest\<rparr>\<rparr>)"
proof -
  have "length (totals_bytes st) = 24" by (simp add: totals_bytes_def)
  then have "rread_io (\<lambda>r. read_exact r 24) s = (Inr (totals_bytes st), s\<lparr>rd := (rd s)\<lparr>pending := rest\<rparr>\<rparr>)"
    by (rule rread_io_exact[OF assms])
  then show ?thesis by (simp add: recv_totals_def sbind_ok totals_bytes_def)
qed

lemma recv_loop_ok:
  "dir_at (disk s) root K \<Longrightarrow> all_ready H K (disk s) fr \<Longrightarrow>
     pending (rd s) = concat (map (frame_bytes (sha256 H)) fr)
       @ FRAME_END # totals_bytes (fold tally fr st) @ rest \<Longrightarrow>
     recv_loop H root st s =
       (Inr (fold tally fr st),
        s\<lparr>rd := (rd s)\<lparr>pending := rest\<rparr>, disk := fold (install K) fr (disk s)\<rparr>)"
proof (induction fr arbitrary: st s)
  case Nil
  then have "recv_frame H root st s = (Inr (True, st), s\<lparr>rd := (rd s)\<lparr>pending := rest\<rparr>\<rparr>)"
    using recv_totals_ok[of "s\<lparr>rd := (rd s)\<lparr>pending := totals_bytes st @ rest\<rparr>\<rparr>" st rest]
    by (simp add: recv_frame_def rread_io_codec_u8 sbind_ok recv_tagged_def frame_tags)
  then show ?case by (simp add: recv_loop.simps[of H root st s])
next
  case (Cons f fr)
  let ?rest = "concat (map (frame_bytes (sha256 H)) fr) @ FRAME_END # totals_bytes (fold tally (f # fr) st) @ rest"
  let ?s = "s\<lparr>rd := (rd s)\<lparr>pending := ?rest\<rparr>, disk := install K f (disk s)\<rparr>"
  have r: "ready H K (disk s) f" using Cons.prems by simp
  have "recv_frame H root st s = (Inr (False, tally f st), ?s)"
    using Cons.prems by (intro recv_frame_ok[OF _ r]) simp_all
  moreover have "dir_at (disk ?s) root K"
    using Cons.prems(1) install_grows[OF r] dir_at_grows by simp
  ultimately show ?case
    using Cons.IH[of ?s "tally f st"] Cons.prems by (simp add: recv_loop.simps[of H root st s])
qed

section \<open>Items of a tree\<close>

fun item_path :: "item \<Rightarrow> string list" where
  "item_path (IDir rel) = segments rel"
| "item_path (IFile rel c) = segments rel"

fun item_node :: "item \<Rightarrow> node" where
  "item_node (IDir rel) = Dir"
| "item_node (IFile rel c) = File c"

fun item_ok :: "hashing \<Rightarrow> bool \<Rightarrow> item \<Rightarrow> bool" where
  "item_ok H ck (IDir rel) \<longleftrightarrow> wire_path rel \<and> \<not> part_suffix (last (segments rel))"
| "item_ok H ck (IFile rel c) \<longleftrightarrow>
     wire_path rel \<and> \<not> part_suffix (last (segments rel))
     \<and> length c < 2 ^ 64 \<and> (ck \<longrightarrow> length (sha256 H c) = 32)"

fun item_frame :: "bool \<Rightarrow> item \<Rightarrow> frame" where
  "item_frame ck (IDir rel) = FDirectory rel"
| "item_frame ck (IFile rel c) = FFile rel ck c"

text \<open>Every item comes after its parent directory; \<open>D\<close> are the directories so far.\<close>

fun ordered :: "string list set \<Rightarrow> item list \<Rightarrow> bool" where
  "ordered D [] \<longleftrightarrow> True"
| "ordered D (i # is) \<longleftrightarrow>
     butlast (item_path i) \<in> D
     \<and> ordered (if item_node i = Dir then insert (item_path i) D else D) is"

text \<open>What is on the disk below \<open>K\<close>: the directories \<open>D\<close> and nothing but the paths \<open>P\<close>.\<close>

definition holds_only :: "string list \<Rightarrow> string list set \<Rightarrow> string list set \<Rightarrow> fsys \<Rightarrow> bool" where
  "holds_only K D P fs \<longleftrightarrow>
     (\<forall>d\<in>D. chain K d fs) \<and> (\<forall>k. below K k \<and> nodes fs k \<noteq> None \<longrightarrow> k \<in> (@) K ` P)
     \<and> (\<forall>p\<in>P. \<not> part_suffix (last p))"

lemma item_path_not_Nil [simp]: "item_path i \<noteq> []"
  by (cases i) simp_all

lemma item_ready:
  assumes h: "holds_only K D P fs" and i: "item_ok H ck i" "butlast (item_path i) \<in> D" "item_path i \<notin> P"
  shows "ready H K fs (item_frame ck i)"
    and "nodes (install K (item_frame ck i) fs) = (nodes fs)(K @ item_path i \<mapsto> item_node i)"
proof -
  have free: "nodes fs (K @ q) = None" if "q \<notin> P" "q \<noteq> []" for q
  proof (rule ccontr)
    assume "nodes fs (K @ q) \<noteq> None"
    moreover have "below K (K @ q)" using that by (simp add: below_def)
    ultimately have "K @ q \<in> (@) K ` P" using h unfolding holds_only_def by blast
    then show False using that by auto
  qed
  have slot: "nodes fs (K @ item_path i) = None" using free[OF i(3)] by simp
  have part: "nodes fs (K @ butlast (item_path i) @ [partial_name (last (item_path i))]) = None"
  proof -
    have "butlast (item_path i) @ [partial_name (last (item_path i))] \<notin> P"
      using h partial_name_part by (auto simp: holds_only_def)
    then show ?thesis using free by simp
  qed
  have ch: "chain K (butlast (item_path i)) fs" using h i(2) by (simp add: holds_only_def)
  have ne: "partial_name (last (item_path i)) \<noteq> last (item_path i)"
    using i(1) partial_name_part[of "last (item_path i)"] by (cases i) auto
  show "ready H K fs (item_frame ck i)"
    using i slot part ch ne by (cases i) (simp_all add: plain_file_slot_def)
  show "nodes (install K (item_frame ck i) fs) = (nodes fs)(K @ item_path i \<mapsto> item_node i)"
    using part by (cases i) (simp_all add: fun_upd_idem)
qed

lemma item_holds:
  assumes h: "holds_only K D P fs" and i: "item_ok H ck i" "butlast (item_path i) \<in> D" "item_path i \<notin> P"
  shows "holds_only K (if item_node i = Dir then insert (item_path i) D else D)
     (insert (item_path i) P) (install K (item_frame ck i) fs)"
proof -
  let ?fs = "install K (item_frame ck i) fs"
  have nd: "nodes ?fs = (nodes fs)(K @ item_path i \<mapsto> item_node i)" by (rule item_ready(2)[OF assms])
  have g: "grows K fs ?fs" by (rule install_grows[OF item_ready(1)[OF assms]])
  have old: "chain K d ?fs" if "d \<in> D" for d
    using h that g by (auto simp: holds_only_def grows_def intro: chain_mono)
  have "chain K (item_path i) ?fs" if "item_node i = Dir"
    using old[OF i(2)] that nd chain_snoc[of K "butlast (item_path i)" "last (item_path i)" ?fs] by simp
  moreover have "\<not> part_suffix (last (item_path i))" using i(1) by (cases i) auto
  ultimately show ?thesis using h old nd by (auto simp: holds_only_def)
qed

lemma frames_of_items:
  assumes "holds_only K D P fs" "ordered D is" "distinct (map item_path is)"
    "list_all (item_ok H ck) is" "set (map item_path is) \<inter> P = {}"
  shows "all_ready H K fs (frames_of target ck acc is)
     \<and> fold (install K) (frames_of target ck acc is) fs
        = fold (\<lambda>i. install K (item_frame ck i)) is fs"
  using assms
proof (induction "is" arbitrary: D P fs acc)
  case (Cons i "is")
  have ok: "item_ok H ck i" "butlast (item_path i) \<in> D" "item_path i \<notin> P"
    using Cons.prems by simp_all
  note rd = item_ready[OF Cons.prems(1) ok] and hold = item_holds[OF Cons.prems(1) ok]
  obtain fr acc' where fr: "item_frames target ck acc i = (fr, acc')"
    by (cases "item_frames target ck acc i") (rule that)
  have one: "all_ready H K fs fr \<and> fold (install K) fr fs = install K (item_frame ck i) fs"
    using fr rd(1) by (cases i; cases acc) (auto simp: Let_def split: if_splits)
  have "set (map item_path is) \<inter> insert (item_path i) P = {}"
    using Cons.prems(3,5) by auto
  then show ?case
    using Cons.IH[OF hold] Cons.prems fr one by (simp add: all_ready_append)
qed simp

lemma fold_install_nodes:
  assumes "holds_only K D P fs" "ordered D is" "distinct (map item_path is)"
    "list_all (item_ok H ck) is" "set (map item_path is) \<inter> P = {}"
  shows "(\<forall>i\<in>set is. nodes (fold (\<lambda>i. install K (item_frame ck i)) is fs) (K @ item_path i)
            = Some (item_node i))
     \<and> (\<forall>k. k \<notin> (\<lambda>i. K @ item_path i) ` set is \<longrightarrow>
            nodes (fold (\<lambda>i. install K (item_frame ck i)) is fs) k = nodes fs k)"
  using assms
proof (induction "is" arbitrary: D P fs)
  case (Cons i "is")
  have ok: "item_ok H ck i" "butlast (item_path i) \<in> D" "item_path i \<notin> P"
    using Cons.prems by simp_all
  note nd = item_ready(2)[OF Cons.prems(1) ok] and hold = item_holds[OF Cons.prems(1) ok]
  have fresh: "set (map item_path is) \<inter> insert (item_path i) P = {}"
    using Cons.prems(3,5) by auto
  have "K @ item_path i \<notin> (\<lambda>i. K @ item_path i) ` set is" using Cons.prems(3) by auto
  then show ?case
    using Cons.IH[OF hold] Cons.prems fresh nd by auto
qed simp

section \<open>Trees\<close>

fun names_of :: "entry \<Rightarrow> string list" where
  "names_of (SFile n len f) = [n]"
| "names_of (SDir n es) = [n]"
| "names_of _ = []"

definition distinct_names :: "entry list \<Rightarrow> bool" where
  "distinct_names es = distinct (concat (map names_of es))"

definition clean_name :: "string \<Rightarrow> bool" where
  "clean_name n \<longleftrightarrow> plain_name n \<and> CHR 0x5C \<notin> set n \<and> \<not> part_suffix n"

text \<open>
  The trees that are transferred without change: in every directory the names are distinct (as
  they are on a disk), have no backslash and are not names of partial files.
\<close>

fun clean :: "entry \<Rightarrow> bool" where
  "clean (SFile n len f) \<longleftrightarrow> clean_name n"
| "clean (SDir n es) \<longleftrightarrow> clean_name n \<and> distinct_names es \<and> list_all clean es"
| "clean _ \<longleftrightarrow> True"

lemma wire_text_clean:
  assumes "list_all clean_name ns" "ns \<noteq> []"
  shows "wire_text ns = join_with [slash] ns" "segments (wire_text ns) = ns"
proof -
  have c: "c \<notin> set n \<Longrightarrow> replace_char c by n = n" for c "by" n
    by (induction n) (auto simp: replace_char_def)
  have "CHR 0x5C \<notin> set (join_with [slash] ns)"
    using assms(1) by (induction "[slash]" ns rule: join_with.induct) (auto simp: clean_name_def)
  then show w: "wire_text ns = join_with [slash] ns" by (simp add: wire_text_def c)
  have "list_all plain_name ns" using assms(1) by (auto simp: list_all_iff clean_name_def)
  then show "segments (wire_text ns) = ns" using w segments_join[OF assms(2)] by simp
qed

lemma wire_ok_path: "wire_ok ns \<Longrightarrow> list_all clean_name ns \<Longrightarrow> ns \<noteq> [] \<Longrightarrow> wire_path (wire_text ns)"
  by (simp add: wire_ok_def wire_path_def wire_text_clean(1))

lemma items_path:
  "clean e \<Longrightarrow> list_all clean_name pre \<Longrightarrow> i \<in> set (items_of pre e) \<Longrightarrow>
     \<exists>n ms. names_of e = [n] \<and> item_path i = pre @ n # ms"
proof (induction pre e rule: items_of.induct)
  case (2 pre n es)
  then have c: "list_all clean_name (pre @ [n])" by simp
  show ?case
  proof (cases "i = IDir (wire_text (pre @ [n]))")
    case True
    then show ?thesis using wire_text_clean(2)[OF c] by simp
  next
    case False
    then obtain e where "e \<in> set es" "i \<in> set (items_of (pre @ [n]) e)" using 2 by auto
    then show ?thesis using 2(1)[of e] 2(2) c by (auto simp: list_all_iff)
  qed
qed (auto simp: wire_text_clean(2))

lemma ordered_mono: "ordered D is \<Longrightarrow> D \<subseteq> D' \<Longrightarrow> ordered D' is"
proof (induction "is" arbitrary: D D')
  case (Cons i "is")
  then have "(if item_node i = Dir then insert (item_path i) D else D)
      \<subseteq> (if item_node i = Dir then insert (item_path i) D' else D')" by auto
  then show ?case using Cons.IH Cons.prems by (meson ordered.simps(2) subsetD)
qed simp

lemma ordered_append: "ordered D xs \<Longrightarrow> ordered D ys \<Longrightarrow> ordered D (xs @ ys)"
proof (induction xs arbitrary: D)
  case (Cons i xs)
  have "ordered (if item_node i = Dir then insert (item_path i) D else D) ys"
    using Cons.prems(2) by (rule ordered_mono) auto
  then show ?case using Cons by simp
qed simp

lemma ordered_items: "clean e \<Longrightarrow> list_all clean_name pre \<Longrightarrow> pre \<in> D \<Longrightarrow> ordered D (items_of pre e)"
proof (induction pre e arbitrary: D rule: items_of.induct)
  case (2 pre n es)
  then have c: "list_all clean_name (pre @ [n])" by simp
  have "ordered (insert (pre @ [n]) D) (concat (map (items_of (pre @ [n])) xs))" if "set xs \<subseteq> set es" for xs
    using that
  proof (induction xs)
    case (Cons e xs)
    then show ?case using 2(1)[of e] 2(2) c by (auto simp: list_all_iff intro!: ordered_append)
  qed simp
  then show ?case using 2 wire_text_clean(2)[OF c] by simp
qed (simp_all add: wire_text_clean(2))

lemma distinct_items_list:
  assumes "distinct_names es" "list_all clean es" "list_all clean_name pre"
    and "\<forall>e\<in>set es. distinct (map item_path (items_of pre e))"
  shows "distinct (map item_path (concat (map (items_of pre) es)))"
  using assms
proof (induction es)
  case (Cons e es)
  have "item_path i \<noteq> item_path j"
    if i: "i \<in> set (items_of pre e)" and e': "e' \<in> set es" and j: "j \<in> set (items_of pre e')" for i j e'
  proof -
    obtain n ms where n: "names_of e = [n]" "item_path i = pre @ n # ms"
      using items_path[OF _ _ i] Cons.prems by auto
    obtain n' ms' where n': "names_of e' = [n']" "item_path j = pre @ n' # ms'"
      using items_path[OF _ _ j] Cons.prems e' by (auto simp: list_all_iff)
    have "n' \<in> set (concat (map names_of es))" using e' n'(1) by (auto intro!: bexI[of _ e'])
    then have "n \<noteq> n'" using Cons.prems(1) n by (auto simp: distinct_names_def)
    then show ?thesis using n n' by simp
  qed
  moreover have "distinct_names es" using Cons.prems(1) by (simp add: distinct_names_def)
  ultimately show ?case using Cons by fastforce
qed simp

lemma distinct_items:
  "clean e \<Longrightarrow> list_all clean_name pre \<Longrightarrow> distinct (map item_path (items_of pre e))"
proof (induction pre e rule: items_of.induct)
  case (2 pre n es)
  then have c: "list_all clean_name (pre @ [n])" "distinct_names es" "list_all clean es" by simp_all
  have "distinct (map item_path (concat (map (items_of (pre @ [n])) es)))"
    using c 2(1) by (intro distinct_items_list) (auto simp: list_all_iff)
  moreover have "pre @ [n] \<notin> item_path ` set (items_of (pre @ [n]) e)" if "e \<in> set es" for e
    using items_path[of e "pre @ [n]"] that c by (fastforce simp: list_all_iff)
  ultimately show ?case using wire_text_clean(2)[OF c(1)] by auto
qed simp_all

lemma items_ok:
  "sendable pre e \<Longrightarrow> clean e \<Longrightarrow> list_all clean_name pre \<Longrightarrow>
     (ck \<Longrightarrow> \<forall>c. length (sha256 H c) = 32) \<Longrightarrow> list_all (item_ok H ck) (items_of pre e)"
proof (induction pre e rule: items_of.induct)
  case (1 pre n len opened)
  then have c: "list_all clean_name (pre @ [n])" by simp
  have "unat len < 2 ^ 64" using unsigned_less[of len, where ?'a = nat] by simp
  then have "length (take (unat len) (content_of opened)) < 2 ^ 64" by (simp add: min_def)
  then show ?case
    using 1 c wire_ok_path[OF _ c] wire_text_clean(2)[OF c] by (simp add: clean_name_def)
next
  case (2 pre n es)
  then have c: "list_all clean_name (pre @ [n])" by simp
  have "list_all (item_ok H ck) (items_of (pre @ [n]) e)" if "e \<in> set es" for e
    using 2(1)[OF that _ _ c] 2(2-5) that by (auto simp: list_all_iff)
  then show ?case
    using 2(2,3) c wire_ok_path[OF _ c] wire_text_clean(2)[OF c]
    by (auto simp: clean_name_def list_all_iff)
qed simp_all

section \<open>The round trip\<close>

text \<open>A tree as a whole: what can be read, sent and received without change.\<close>

definition good_tree :: "entry list \<Rightarrow> bool" where
  "good_tree es \<longleftrightarrow> list_all (sendable []) es \<and> list_all clean es \<and> distinct_names es"

definition tree_items :: "entry list \<Rightarrow> item list" where
  "tree_items es = concat (map (items_of []) es)"

lemma tree_items_props:
  assumes "good_tree es" "ck \<Longrightarrow> \<forall>c. length (sha256 H c) = 32"
  shows "ordered {[]} (tree_items es)" "distinct (map item_path (tree_items es))"
    "list_all (item_ok H ck) (tree_items es)"
proof -
  have "ordered {[]} (concat (map (items_of []) xs))" if "set xs \<subseteq> set es" for xs
    using that assms(1)
  proof (induction xs)
    case (Cons e xs)
    then show ?case
      by (auto simp: good_tree_def list_all_iff intro!: ordered_append ordered_items)
  qed simp
  then show "ordered {[]} (tree_items es)" by (simp add: tree_items_def)
  show "distinct (map item_path (tree_items es))"
    using assms(1) unfolding tree_items_def good_tree_def
    by (intro distinct_items_list) (auto simp: list_all_iff intro: distinct_items)
  show "list_all (item_ok H ck) (tree_items es)"
    using assms items_ok[of "[]"] by (fastforce simp: tree_items_def good_tree_def list_all_iff)
qed

text \<open>The destination has room for the transfer: the root is free.\<close>

definition fresh_root :: "fsys \<Rightarrow> string list \<Rightarrow> bool" where
  "fresh_root fs K \<longleftrightarrow> (\<forall>k. take (length K) k = K \<longrightarrow> nodes fs k = None)"

text \<open>The disk after the transfer: exactly the tree, below the root.\<close>

definition delivered :: "string list \<Rightarrow> item list \<Rightarrow> fsys \<Rightarrow> fsys \<Rightarrow> bool" where
  "delivered K is fs fs' \<longleftrightarrow>
     nodes fs' K = Some Dir
     \<and> (\<forall>i\<in>set is. nodes fs' (K @ item_path i) = Some (item_node i))
     \<and> (\<forall>k. k \<noteq> K \<and> k \<notin> (\<lambda>i. K @ item_path i) ` set is \<longrightarrow> nodes fs' k = nodes fs k)"

lemma receive_transfer:
  assumes d: "dir_at (disk s) base B" and fresh: "fresh_root (disk s) (B @ [name])"
    and name: "wire_path name" "clean_name name"
    and t: "good_tree es" and sha: "ck \<Longrightarrow> \<forall>c. length (sha256 H c) = 32"
    and fs: "fs = transfer_frames prof ck (tree_items es)"
    and p: "pending (rd s) = transfer_bytes (sha256 H) name fs @ rest"
  shows "\<exists>s'. receive_directory H base s
             = (Inr (fold tally fs (default_stats\<lparr>directories := 1\<rparr>)), s')
         \<and> pending (rd s') = rest \<and> delivered (B @ [name]) (tree_items es) (disk s) (disk s')"
proof -
  let ?K = "B @ [name]" and ?root = "path_push base name" and ?is = "tree_items es"
  let ?st = "default_stats\<lparr>directories := 1\<rparr>"
  have n: "plain_name name" using name(2) by (simp add: clean_name_def)
  then have segs: "segments name = [name]" by (simp add: plain_name_def split_on_no_sep)
  let ?tail = "concat (map (frame_bytes (sha256 H)) (fs @ [FPackEnd]))
      @ FRAME_END # totals_bytes (fold tally (fs @ [FPackEnd]) ?st) @ rest"
  let ?d0 = "set_node ?K (Some Dir) (disk s)"
  let ?s1 = "s\<lparr>rd := (rd s)\<lparr>pending := ?tail\<rparr>, disk := ?d0\<rparr>"
  have free: "nodes (disk s) ?K = None" using fresh by (simp add: fresh_root_def)
  have g: "grows B (disk s) ?d0" using free by (simp add: grows_set_node)
  have d0: "dir_at ?d0 base B" by (rule dir_at_grows[OF d g])
  have "create_safe_directory ?root None (disk s) = (Inr ?root, ?d0)"
    using create_dir_child[OF d n] free push_not_Nil[OF n, of base] symlink_metadata_child[OF d0 n]
    by (simp add: create_safe_directory_def create_dir_all.simps[of ?root] ok_or_def)
  then have start: "receive_directory H base s = recv_loop H ?root ?st ?s1"
    using p name wire_path_child[OF name(1), of base] segs n
    by (simp add: receive_directory_def rread_io_codec_u8 sbind_ok rread_path transfer_bytes_def
        components_plain on_disk_ok)
  have root: "dir_at ?d0 ?root ?K" using dir_at_child[OF d0 n] by simp
  have hold: "holds_only ?K {[]} {} ?d0"
    using fresh by (auto simp: holds_only_def fresh_root_def below_def)
  have props: "ordered {[]} ?is" "distinct (map item_path ?is)" "list_all (item_ok H ck) ?is"
    using tree_items_props[OF t, of ck H] sha by blast+
  let ?fold = "fold (\<lambda>i. install ?K (item_frame ck i)) ?is ?d0"
  have ready: "all_ready H ?K ?d0 (fs @ [FPackEnd])"
    and inst: "fold (install ?K) (fs @ [FPackEnd]) ?d0 = ?fold"
    using frames_of_items[OF hold props] by (simp_all add: fs transfer_frames_def all_ready_append)
  have "recv_loop H ?root ?st ?s1 = (Inr (fold tally (fs @ [FPackEnd]) ?st),
      ?s1\<lparr>rd := (rd ?s1)\<lparr>pending := rest\<rparr>, disk := ?fold\<rparr>)"
    using recv_loop_ok[of ?s1 ?root ?K H "fs @ [FPackEnd]" ?st rest] root ready inst by simp
  moreover have "delivered ?K ?is (disk s) ?fold"
    using fold_install_nodes[OF hold props] by (fastforce simp: delivered_def)
  ultimately show ?thesis using start by auto
qed

end
