(* ===== verification/Directory_Properties.thy ===== *)
theory Directory_Properties
  imports Directory_Roundtrip
begin

text \<open>
  Properties of the directory transfer (\<open>core/src/directory.rs\<close>), each with the concrete
  instance that shows its hypotheses can hold. The lemmas before them treat the failing
  transfers (a wrong digest, a stream that stops inside a file) and the size of the packs.
\<close>

section \<open>Failing files\<close>

lemma copy_in_short:
  assumes "length (pending (rd s)) < n" "nodes (disk s) k = Some (File x)"
  shows "\<exists>s'. copy_in rel k n h s =
       (Inl (if broken (rd s) then Io ConnectionReset else EndedInside rel), s')
     \<and> (\<forall>l. l \<noteq> k \<longrightarrow> nodes (disk s') l = nodes (disk s) l)"
  using assms
proof (induction n arbitrary: h s x rule: less_induct)
  case (less n)
  show ?case
  proof (cases "pending (rd s) = []")
    case True
    then show ?thesis using less.prems
      by (intro exI[of _ s]) (auto simp: copy_in.simps[of rel k n] read_some_Nil)
  next
    case False
    then obtain j where j: "0 < j" "j \<le> n" "j \<le> length (pending (rd s))"
      "read_some (rd s) (min n FILE_CHUNK_SIZE)
         = Inr (take j (pending (rd s)), (rd s)\<lparr>pending := drop j (pending (rd s))\<rparr>)"
      using read_some_cases[of "rd s" "min n FILE_CHUNK_SIZE"] less.prems
      by (auto simp: FILE_CHUNK_SIZE_def)
    obtain b bs where bs: "take j (pending (rd s)) = b # bs"
      using j by (cases "take j (pending (rd s))") auto
    have len: "length (b # bs) = j" using j by (simp flip: bs)
    let ?s = "s\<lparr>rd := (rd s)\<lparr>pending := drop j (pending (rd s))\<rparr>,
                 disk := file_append k (b # bs) (disk s)\<rparr>"
    have "copy_in rel k n h s = copy_in rel k (n - j) (map_option (\<lambda>h. h @ b # bs) h) ?s"
      using j bs len less.prems by (simp add: copy_in.simps[of rel k n])
    moreover have "\<exists>s'. copy_in rel k (n - j) (map_option (\<lambda>h. h @ b # bs) h) ?s =
         (Inl (if broken (rd ?s) then Io ConnectionReset else EndedInside rel), s')
       \<and> (\<forall>l. l \<noteq> k \<longrightarrow> nodes (disk s') l = nodes (disk ?s) l)"
      using j less.prems
      by (intro less.IH[where x = "x @ b # bs"]) (auto simp: file_append_def file_content_def)
    ultimately show ?thesis by (auto simp: file_append_def)
  qed
qed

text \<open>A file whose digest does not match is removed again, and its destination is not touched.\<close>

lemma store_file_mismatch:
  assumes d: "dir_at (disk s) par K" and n: "plain_name name" "utf8_valid name"
    and dst: "plain_file_slot (nodes (disk s) (K @ [name]))"
    and part: "plain_file_slot (nodes (disk s) (K @ [partial_name name]))"
    and len: "unat len = length c" "length dg = 32" "dg \<noteq> sha256 H c"
    and p: "pending (rd s) = c @ dg @ rest"
  shows "store_file H rel (path_push par name) par len True s =
     (Inl (ChecksumMismatch rel), s\<lparr>rd := (rd s)\<lparr>pending := rest\<rparr>,
       disk := set_node (K @ [partial_name name]) None (disk s)\<rparr>)"
proof -
  let ?p = "partial_name name"
  have pn: "plain_name ?p" by (rule partial_name_plain[OF n])
  have md: "\<not> is_link (symlink_metadata (disk s) (path_push par name))"
    using dst symlink_metadata_child[OF d n(1)]
    by (auto simp: is_link_def ok_or_def plain_file_slot_def split: option.splits node.splits)
  let ?s1 = "s\<lparr>disk := set_node (K @ [?p]) (Some (File [])) (disk s)\<rparr>"
  have fc: "on_disk_io (file_create (path_push par ?p)) s = (Inr (K @ [?p]), ?s1)"
    using file_create_child[OF d pn] part by (intro on_disk_ok) (simp add: plain_file_slot_def)
  let ?s2 = "s\<lparr>rd := (rd s)\<lparr>pending := dg @ rest\<rparr>, disk := set_node (K @ [?p]) (Some (File c)) (disk s)\<rparr>"
  have cp: "copy_in rel (K @ [?p]) (unat len) (Some []) ?s1 = (Inr (Some c), ?s2)"
    using copy_in_eq[of ?s1 c "dg @ rest" "K @ [?p]" "[]" rel "Some []"] p len(1) by simp
  let ?s3 = "?s2\<lparr>rd := (rd s)\<lparr>pending := rest\<rparr>\<rparr>"
  have d3: "dir_at (disk ?s3) par K"
    using part dir_at_grows[OF d grows_set_node[of K "K @ [?p]" "disk s" "Some (File c)"]]
    by (simp add: plain_file_slot_def)
  have rm: "remove_file (path_push par ?p) (disk ?s3) = (Inr (), set_node (K @ [?p]) None (disk s))"
    using remove_file_child[OF d3 pn, of c] by simp
  have "rread_io (\<lambda>r. read_exact r 32) ?s2 = (Inr dg, ?s3)"
    using rread_io_exact[of ?s2 dg rest 32] len(2) by simp
  then have "verify_digest H rel (path_push par ?p) (Some c) ?s2 =
      (Inl (ChecksumMismatch rel), ?s3\<lparr>disk := set_node (K @ [?p]) None (disk s)\<rparr>)"
    using len(3) rm by (simp add: verify_digest_def sbind_ok sbind_def signore_def on_disk_io_def szoom_def)
  then show ?thesis
    using md fc cp n by (simp add: store_file_def Let_def file_name_push ok_or_def sbind_ok sbind_err)
qed

lemma receive_file_body:
  assumes w: "wire_path rel" and d: "dir_at (disk s) root K"
    and c: "chain K (butlast (segments rel)) (disk s)"
    and p: "pending (rd s) = path_bytes rel @ u64_to_be len @ flag # tail"
  defines "par \<equiv> foldl path_push root (butlast (segments rel))"
  shows "receive_file H root st s =
     sbind (store_file H rel (path_push par (last (segments rel))) par len (flag \<noteq> 0))
       (\<lambda>_. sret (st\<lparr>files := files st + 1, bytes := bytes st + len\<rparr>))
       (s\<lparr>rd := (rd s)\<lparr>pending := tail\<rparr>\<rparr>)"
    and "dir_at (disk s) par (K @ butlast (segments rel))"
proof -
  have "list_all plain_name (butlast (segments rel))"
    using wire_path_plain[OF w] by (auto simp: list_all_iff dest: in_set_butlastD)
  then have sd: "safe_descend root (butlast (segments rel)) (disk s) = (Inr par, disk s)"
    "dir_at (disk s) par (K @ butlast (segments rel))"
    using safe_descend_chain[OF d c] by (simp_all add: par_def)
  then have "on_disk (safe_descend root (butlast (segments rel))) (s\<lparr>rd := (rd s)\<lparr>pending := tail\<rparr>\<rparr>)
      = (Inr par, s\<lparr>rd := (rd s)\<lparr>pending := tail\<rparr>\<rparr>)"
    by (simp add: on_disk_Inr)
  then show "receive_file H root st s =
     sbind (store_file H rel (path_push par (last (segments rel))) par len (flag \<noteq> 0))
       (\<lambda>_. sret (st\<lparr>files := files st + 1, bytes := bytes st + len\<rparr>))
       (s\<lparr>rd := (rd s)\<lparr>pending := tail\<rparr>\<rparr>)"
    using w p
    by (simp add: receive_file_def rread_path sbind_ok rread_io_be64 rread_io_codec_u8
        wire_path_child parent_directory_wire par_def)
  show "dir_at (disk s) par (K @ butlast (segments rel))" by (rule sd(2))
qed

section \<open>Pack sizes\<close>

text \<open>The sizes of the files between one pack frame and the next.\<close>

fun pack_loads :: "nat list \<Rightarrow> frame list \<Rightarrow> nat list list" where
  "pack_loads cur [] = [cur]"
| "pack_loads cur (FPackStart n # fs) = cur # pack_loads [] fs"
| "pack_loads cur (FFile rel ck c # fs) = pack_loads (cur @ [length c]) fs"
| "pack_loads cur (_ # fs) = pack_loads cur fs"

definition load_ok :: "u64 \<Rightarrow> nat list \<Rightarrow> bool" where
  "load_ok target l \<longleftrightarrow> sum_list l \<le> unat target \<or> length (filter (\<lambda>n. 0 < n) l) \<le> 1"

fun item_len :: "item \<Rightarrow> nat" where
  "item_len (IDir rel) = 0"
| "item_len (IFile rel c) = length c"

lemma saturating_le:
  assumes "\<not> target < saturating_add a b" "target < - 1"
  shows "unat a + unat b \<le> unat target" "unat (a + b) = unat a + unat b"
proof -
  have "\<not> a + b < a" using assms by (auto simp: saturating_add_def split: if_splits)
  then have no: "unat (a + b) = unat a + unat b"
    using unat_plus_simple[of a b] by (simp add: not_less)
  then show "unat (a + b) = unat a + unat b" .
  show "unat a + unat b \<le> unat target"
    using assms no \<open>\<not> a + b < a\<close> by (simp add: saturating_add_def not_less word_le_nat_alt)
qed

lemma filter_pos_Nil: "sum_list l = 0 \<Longrightarrow> filter (\<lambda>n. 0 < n) l = ([] :: nat list)"
  by (auto simp: filter_empty_conv)

lemma pack_loads_ok:
  assumes "target < - 1" "\<forall>i\<in>set is. item_len i < 2 ^ 64"
    and "unat pb = sum_list cur" "load_ok target cur"
  shows "list_all (load_ok target) (pack_loads cur (frames_of target ck (pb, num) is))"
  using assms
proof (induction "is" arbitrary: pb num cur)
  case (Cons i "is")
  show ?case
  proof (cases i)
    case (IFile rel c)
    let ?len = "word_of_nat (length c) :: u64"
    have len: "unat ?len = length c" using Cons.prems(2) IFile by (intro unat_word_of_nat) simp
    show ?thesis
    proof (cases "pack_full target pb ?len")
      case True
      have "load_ok target [length c]" by (simp add: load_ok_def)
      then show ?thesis
        using Cons.IH[of ?len "[length c]" "num + 1"] Cons.prems True IFile len by (simp add: Let_def)
    next
      case False
      have step: "unat (pb + ?len) = sum_list (cur @ [length c]) \<and> load_ok target (cur @ [length c])"
      proof (cases "pb = 0")
        case True
        then have "sum_list cur = 0" using Cons.prems(3) by simp
        then show ?thesis using True len filter_pos_Nil[of cur] by (simp add: load_ok_def)
      next
        case pb: False
        then have "0 < pb" by (simp add: word_gt_0)
        then have "\<not> target < saturating_add pb ?len" using False by (simp add: pack_full_def)
        then show ?thesis
          using saturating_le[of target pb ?len] Cons.prems(1,3) len by (simp add: load_ok_def)
      qed
      then show ?thesis
        using Cons.IH[of "pb + ?len" "cur @ [length c]" num] Cons.prems False IFile
        by (simp add: Let_def)
    qed
  next
    case (IDir rel)
    then show ?thesis using Cons by simp
  qed
qed simp

section \<open>A concrete transfer\<close>

definition demo_hashing :: hashing where
  "demo_hashing = \<lparr>sha256 = (\<lambda>c. replicate 31 0 @ [word_of_nat (length c)]), hex_encode = string_of_bytes\<rparr>"

definition demo_disk :: fsys where
  "demo_disk = \<lparr>nodes = [[''srv''] \<mapsto> Dir, [''srv'', ''old''] \<mapsto> File [7]], cwd = []\<rparr>"

definition demo_file :: source where
  "demo_file = \<lparr>pending = [1, 2, 3], grain = (\<lambda>_. 1), broken = False\<rparr>"

definition demo_source :: source_dir where
  "demo_source = \<lparr>canonical = Inr ''/home/d'', is_a_dir = True,
     listing = Inr [SDir ''a'' [SFile ''x'' 3 (Inr demo_file)], SLink ''l'', SFile ''y'' 0 (Inr demo_file)]\<rparr>"

lemmas demo_defs = demo_hashing_def demo_disk_def demo_file_def demo_source_def

lemma demo_dir_at: "dir_at demo_disk ''/srv'' [''srv'']"
  by code_simp

lemma demo_fresh: "fresh_root demo_disk [''srv'', ''d'']"
  by (auto simp: fresh_root_def demo_disk_def)

lemma demo_no_part_links: "no_part_links [''srv''] demo_disk"
  by (auto simp: no_part_links_def demo_disk_def split: if_splits)

lemmas eval_paths = wire_ok_def wire_text_def replace_char_def validate_relative_path_def
  MAX_PATH_BYTES_def starts_with_def has_root_def components_def seg_component_def
  safe_component_def has_control_def is_cont_def code_def is_ascii_def plain_name_def
  clean_name_def part_suffix_def suffix_to_prefix

lemma demo_paths: "wire_ok [''a'']" "wire_ok [''a'', ''x'']" "wire_ok [''y'']"
  "clean_name ''a''" "clean_name ''x''" "clean_name ''y''"
  by (simp_all add: eval_paths)

lemma demo_good_tree:
  "good_tree [SDir ''a'' [SFile ''x'' 3 (Inr demo_file)], SLink ''l'', SFile ''y'' 0 (Inr demo_file)]"
  by (simp add: good_tree_def distinct_names_def demo_paths demo_file_def)

lemma demo_name [simp]: "file_name ''/home/d'' = Some ''d''" "wire_ok [''d'']" "clean_name ''d''"
  by (simp_all add: eval_paths file_name_def)

lemma demo_digest: "length (sha256 demo_hashing c) = 32"
  by (simp add: demo_hashing_def)

section \<open>Properties\<close>

text \<open>
  C1: a directory sent by \<open>send_directory\<close> and received by \<open>receive_directory\<close> into a free name of
  an existing directory arrives exactly: both ends report the same statistics, every directory and
  every file of the tree is on the receiver's disk with its content, nothing else on that disk has
  changed, and the bytes after the transfer are left on the stream. This holds for every
  fragmentation of the stream, every storage profile, with and without checksums.
\<close>

theorem directory_round_trip:
  assumes "canonical src = Inr p" "is_a_dir src" "listing src = Inr es"
    and "file_name p = Some name" "wire_ok [name]" "clean_name name" "good_tree es"
    and "dir_at fs base B" "fresh_root fs (B @ [name])"
    and "\<forall>c. length (sha256 H c) = 32"
  shows "\<exists>st w' s'. send_directory H \<lparr>written = [], room = None\<rparr> src prof ck = Inr (st, w')
     \<and> receive_directory H base
          \<lparr>rd = \<lparr>pending = written w' @ rest, grain = g, broken = b\<rparr>, disk = fs\<rparr> = (Inr st, s')
     \<and> pending (rd s') = rest \<and> delivered (B @ [name]) (tree_items es) fs (disk s')"
proof -
  let ?fs = "transfer_frames prof ck (tree_items es)"
  have names: "wire_text [name] = name" "wire_path name"
    using wire_text_clean(1)[of "[name]"] wire_ok_path[of "[name]"] assms by simp_all
  obtain w' where w': "send_directory H \<lparr>written = [], room = None\<rparr> src prof ck
      = Inr (fold tally ?fs (default_stats\<lparr>directories := 1\<rparr>), w')"
    "written w' = transfer_bytes (sha256 H) name ?fs"
    using send_directory_frames[OF assms(1-5), of "\<lparr>written = [], room = None\<rparr>" ?fs prof ck H]
      assms names by (auto simp: good_tree_def tree_items_def)
  then show ?thesis
    using receive_transfer[of "\<lparr>rd = \<lparr>pending = written w' @ rest, grain = g, broken = b\<rparr>, disk = fs\<rparr>"
        base B name es ck H ?fs prof rest] assms names
    by fastforce
qed

theorem directory_round_trip_witness:
  "\<exists>st w' s'. send_directory demo_hashing \<lparr>written = [], room = None\<rparr> demo_source Hdd True = Inr (st, w')
     \<and> receive_directory demo_hashing ''/srv''
          \<lparr>rd = \<lparr>pending = written w' @ [9], grain = (\<lambda>_. 5), broken = False\<rparr>, disk = demo_disk\<rparr> = (Inr st, s')
     \<and> pending (rd s') = [9]
     \<and> delivered ([''srv''] @ [''d''])
         (tree_items [SDir ''a'' [SFile ''x'' 3 (Inr demo_file)], SLink ''l'', SFile ''y'' 0 (Inr demo_file)])
         demo_disk (disk s')"
  by (rule directory_round_trip[where p = "''/home/d''"])
    (simp_all add: demo_source_def demo_name demo_good_tree demo_dir_at demo_fresh demo_digest)

text \<open>
  C4: whatever the peer sends, wherever the transfer stops and however it ends, the receiver
  changes nothing outside one directory directly below the destination base; directories stay
  directories and no symbolic link is added, removed or replaced. (No partial-file name below the
  base may be taken by a symbolic link beforehand: \<open>File::create\<close> would follow it.)
\<close>

theorem directory_containment:
  assumes "dir_at (disk s) base B" "no_part_links B (disk s)"
  shows "\<exists>name. plain_name name
     \<and> only_below (B @ [name]) (disk s) (disk (snd (receive_directory H base s)))"
  by (rule receive_directory_contained[OF assms])

theorem directory_containment_witness:
  "\<exists>name. plain_name name \<and> only_below ([''srv''] @ [name]) demo_disk
     (disk (snd (receive_directory demo_hashing ''/srv''
        \<lparr>rd = \<lparr>pending = FRAME_START # path_bytes ''../x'', grain = id, broken = False\<rparr>, disk = demo_disk\<rparr>)))"
  using directory_containment[of "\<lparr>rd = \<lparr>pending = FRAME_START # path_bytes ''../x'', grain = id,
      broken = False\<rparr>, disk = demo_disk\<rparr>" "''/srv''" "[''srv'']" demo_hashing]
  by (simp add: demo_dir_at demo_no_part_links)

text \<open>
  the path check accepts exactly the texts of at most \<open>MAX_PATH_BYTES\<close> bytes without NUL and
  backslash that do not start with a tilde or a dollar sign and whose every segment is an ordinary
  name (not empty, no dot, no dot-dot) without control characters; such a text, joined to a root,
  names the root's components followed by its segments.
\<close>

theorem relative_paths_safe:
  "(\<exists>p. safe_child root v = Inr p \<and> components p = components root @ map Normal (segments v))
   = (length v \<le> MAX_PATH_BYTES \<and> CHR 0x00 \<notin> set v \<and> CHR 0x5C \<notin> set v
      \<and> \<not> starts_with ''~'' v \<and> \<not> starts_with ''$'' v
      \<and> list_all (\<lambda>s. plain_name s \<and> \<not> has_control s) (segments v))"
proof (cases "validate_relative_path v")
  case (Inr u)
  then have v: "validate_relative_path v = Inr ()" by simp
  then have "safe_child root v = Inr (foldl path_push root (segments v))"
    "components (foldl path_push root (segments v)) = components root @ map Normal (segments v)"
    using safe_child_segments components_push_all[OF plain_segments] by auto
  then show ?thesis using v unfolding validate_iff[symmetric] by simp
next
  case (Inl e)
  then show ?thesis unfolding validate_iff[symmetric] by (simp add: safe_child_def)
qed

text \<open>
  the receiver reads a path from a stream exactly when the stream begins with the encoding of
  a path that may travel, and then it takes that encoding and nothing more, however the stream is
  fragmented.
\<close>

theorem paths_canonical:
  "(read_path r = Inr (v, r')) =
     (wire_path v \<and> (\<exists>rest. pending r = path_bytes v @ rest \<and> r' = r\<lparr>pending := rest\<rparr>))"
  using path_codec.dec_iff by simp

text \<open>
  C29: a received file whose digest differs from the digest of its bytes is an error, the partial
  file is gone, and every other location, the destination of the file among them, is as before.
\<close>

theorem checksum_mismatch_discards:
  assumes "wire_path rel" "dir_at (disk s) root K" "chain K (butlast (segments rel)) (disk s)"
    and "plain_file_slot (nodes (disk s) (K @ segments rel))"
    and "plain_file_slot (nodes (disk s)
           (K @ butlast (segments rel) @ [partial_name (last (segments rel))]))"
    and "pending (rd s) = path_bytes rel @ u64_to_be len @ 1 # c @ dg @ rest"
    and "unat len = length c" "length dg = 32" "dg \<noteq> sha256 H c"
  shows "fst (receive_file H root st s) = Inl (ChecksumMismatch rel)
     \<and> nodes (disk (snd (receive_file H root st s)))
        = (nodes (disk s))(K @ butlast (segments rel) @ [partial_name (last (segments rel))] := None)"
proof -
  let ?ns = "butlast (segments rel)" and ?n = "last (segments rel)"
  let ?s1 = "s\<lparr>rd := (rd s)\<lparr>pending := c @ dg @ rest\<rparr>\<rparr>"
  note body = receive_file_body[OF assms(1-3,6)]
  have segs: "?ns @ [?n] = segments rel" by simp
  have "store_file H rel (path_push (foldl path_push root ?ns) ?n) (foldl path_push root ?ns) len True ?s1
      = (Inl (ChecksumMismatch rel), ?s1\<lparr>rd := (rd s)\<lparr>pending := rest\<rparr>,
           disk := set_node (K @ ?ns @ [partial_name ?n]) None (disk s)\<rparr>)"
    using store_file_mismatch[of ?s1 "foldl path_push root ?ns" "K @ ?ns" ?n len c dg H rest rel]
      body(2) wire_path_last[OF assms(1)] assms(4-9) segs by simp
  then show ?thesis using body(1)[of H st] by (simp add: sbind_err)
qed

theorem checksum_mismatch_discards_witness:
  "\<exists>s. fst (receive_file demo_hashing ''/srv'' default_stats s) = Inl (ChecksumMismatch ''a'')
     \<and> nodes (disk (snd (receive_file demo_hashing ''/srv'' default_stats s)))
        = (nodes demo_disk)([''srv''] @ [''.a.quic-part''] := None)"
proof -
  let ?s = "\<lparr>rd = \<lparr>pending = path_bytes ''a'' @ u64_to_be 1 @ 1 # [5] @ replicate 32 1 @ [],
                   grain = (\<lambda>_. 3), broken = False\<rparr>, disk = demo_disk\<rparr>"
  have w: "wire_path ''a''" using wire_ok_path[of "[''a'']"] demo_paths by (simp add: wire_text_def replace_char_def)
  have segs: "segments ''a'' = [''a'']" by simp
  have ne: "replicate 32 (1 :: byte) \<noteq> replicate 31 0 @ [1]" by (auto dest: arg_cong[of _ _ hd])
  have pn: "partial_name ''a'' = ''.a.quic-part''"
    by (simp add: partial_name_def utf8_lossy_valid utf8_valid_ascii is_ascii_def code_def)
  have "fst (receive_file demo_hashing ''/srv'' default_stats ?s) = Inl (ChecksumMismatch ''a'')
     \<and> nodes (disk (snd (receive_file demo_hashing ''/srv'' default_stats ?s)))
        = (nodes (disk ?s))([''srv''] @ butlast (segments ''a'') @ [partial_name (last (segments ''a''))] := None)"
    by (rule checksum_mismatch_discards[where len = 1 and c = "[5]" and dg = "replicate 32 1" and rest = "[]"])
      (simp_all add: w pn demo_dir_at plain_file_slot_def demo_disk_def[THEN arg_cong[of _ _ nodes]] demo_hashing_def ne)
  then show ?thesis using segs pn by auto
qed

text \<open>
  a stream that stops inside a file is an error, and no location but that of the partial file
  has changed: the destination is never a truncated file.
\<close>

theorem truncated_file_not_installed:
  assumes "wire_path rel" "dir_at (disk s) root K" "chain K (butlast (segments rel)) (disk s)"
    and "plain_file_slot (nodes (disk s) (K @ segments rel))"
    and "plain_file_slot (nodes (disk s)
           (K @ butlast (segments rel) @ [partial_name (last (segments rel))]))"
    and "pending (rd s) = path_bytes rel @ u64_to_be len @ flag # c"
    and "length c < unat len"
  shows "fst (receive_file H root st s)
        = Inl (if broken (rd s) then Io ConnectionReset else EndedInside rel)
     \<and> (\<forall>k. k \<noteq> K @ butlast (segments rel) @ [partial_name (last (segments rel))] \<longrightarrow>
          nodes (disk (snd (receive_file H root st s))) k = nodes (disk s) k)"
proof -
  let ?ns = "butlast (segments rel)" and ?n = "last (segments rel)"
  let ?par = "foldl path_push root ?ns" and ?part = "partial_name ?n"
  let ?s1 = "s\<lparr>rd := (rd s)\<lparr>pending := c\<rparr>\<rparr>"
  note body = receive_file_body[OF assms(1-3,6)]
  have n: "plain_name ?n" "utf8_valid ?n" using wire_path_last[OF assms(1)] by simp_all
  have pn: "plain_name ?part" by (rule partial_name_plain[OF n])
  have segs: "K @ ?ns @ [?n] = K @ segments rel" by simp
  have md: "\<not> is_link (symlink_metadata (disk s) (path_push ?par ?n))"
    using assms(4) symlink_metadata_child[OF body(2) n(1)] segs
    by (auto simp: is_link_def ok_or_def plain_file_slot_def split: option.splits node.splits)
  let ?s2 = "?s1\<lparr>disk := set_node (K @ ?ns @ [?part]) (Some (File [])) (disk s)\<rparr>"
  have fc: "on_disk_io (file_create (path_push ?par ?part)) ?s1 = (Inr (K @ ?ns @ [?part]), ?s2)"
    using file_create_child[OF body(2) pn] assms(5) by (intro on_disk_ok) (simp add: plain_file_slot_def)
  obtain s3 where s3: "copy_in rel (K @ ?ns @ [?part]) (unat len) (if flag \<noteq> 0 then Some [] else None) ?s2
       = (Inl (if broken (rd s) then Io ConnectionReset else EndedInside rel), s3)"
     "\<forall>k. k \<noteq> K @ ?ns @ [?part] \<longrightarrow> nodes (disk s3) k = nodes (disk ?s2) k"
    using copy_in_short[of ?s2 "unat len" "K @ ?ns @ [?part]" "[]" rel] assms(7) by force
  have "store_file H rel (path_push ?par ?n) ?par len (flag \<noteq> 0) ?s1
      = (Inl (if broken (rd s) then Io ConnectionReset else EndedInside rel), s3)"
    using md fc s3(1) n by (simp add: store_file_def Let_def file_name_push ok_or_def sbind_ok sbind_err)
  then show ?thesis using body(1)[of H st] s3(2) by (simp add: sbind_err)
qed

theorem truncated_file_not_installed_witness:
  "\<exists>s. fst (receive_file demo_hashing ''/srv'' default_stats s) = Inl (EndedInside ''a'')
     \<and> nodes (disk (snd (receive_file demo_hashing ''/srv'' default_stats s))) [''srv'', ''a''] = None"
proof -
  let ?s = "\<lparr>rd = \<lparr>pending = path_bytes ''a'' @ u64_to_be 2 @ 0 # [5], grain = (\<lambda>_. 3), broken = False\<rparr>,
              disk = demo_disk\<rparr>"
  have w: "wire_path ''a''" using wire_ok_path[of "[''a'']"] demo_paths by (simp add: wire_text_def replace_char_def)
  have pn: "partial_name ''a'' = ''.a.quic-part''"
    by (simp add: partial_name_def utf8_lossy_valid utf8_valid_ascii is_ascii_def code_def)
  have "fst (receive_file demo_hashing ''/srv'' default_stats ?s)
        = Inl (if broken (rd ?s) then Io ConnectionReset else EndedInside ''a'')
     \<and> (\<forall>k. k \<noteq> [''srv''] @ butlast (segments ''a'') @ [partial_name (last (segments ''a''))] \<longrightarrow>
          nodes (disk (snd (receive_file demo_hashing ''/srv'' default_stats ?s))) k = nodes (disk ?s) k)"
    by (rule truncated_file_not_installed[where len = 2 and c = "[5]" and flag = 0])
      (simp_all add: w pn demo_dir_at plain_file_slot_def demo_disk_def[THEN arg_cong[of _ _ nodes]])
  then show ?thesis using pn by (intro exI[of _ ?s]) (simp add: demo_disk_def[THEN arg_cong[of _ _ nodes]])
qed



text \<open>
  C28: for a readable source the sender succeeds, the statistics it returns are the tally of the
  frames of the tree, and the bytes it has written are the frames' bytes: the loop over the stack of
  iterators and the chunked copy implement the recursive description of the transfer.
\<close>

theorem sender_refines_frames:
  assumes "canonical src = Inr p" "is_a_dir src" "listing src = Inr entries"
    and "file_name p = Some name" "wire_ok [name]" "list_all (sendable []) entries" "room w = None"
    and "fs = transfer_frames prof ck (tree_items entries)"
  shows "\<exists>w'. send_directory H w src prof ck
        = Inr (fold tally fs (default_stats\<lparr>directories := 1\<rparr>), w')
     \<and> written w' = written w @ transfer_bytes (sha256 H) (wire_text [name]) fs"
  using send_directory_frames[OF assms(1-7), of fs prof ck H] assms(8) by (simp add: tree_items_def)

theorem sender_refines_frames_witness:
  "\<exists>fs w'. fs = transfer_frames Nvme True
        (tree_items [SDir ''a'' [SFile ''x'' 3 (Inr demo_file)], SLink ''l'', SFile ''y'' 0 (Inr demo_file)])
     \<and> send_directory demo_hashing \<lparr>written = [1], room = None\<rparr> demo_source Nvme True
        = Inr (fold tally fs (default_stats\<lparr>directories := 1\<rparr>), w')
     \<and> written w' = [1] @ transfer_bytes (sha256 demo_hashing) (wire_text [''d'']) fs"
proof -
  let ?es = "[SDir ''a'' [SFile ''x'' 3 (Inr demo_file)], SLink ''l'', SFile ''y'' 0 (Inr demo_file)]"
  have "\<exists>w'. send_directory demo_hashing \<lparr>written = [1], room = None\<rparr> demo_source Nvme True
        = Inr (fold tally (transfer_frames Nvme True (tree_items ?es)) (default_stats\<lparr>directories := 1\<rparr>), w')
     \<and> written w' = written \<lparr>written = [1], room = None\<rparr>
        @ transfer_bytes (sha256 demo_hashing) (wire_text [''d'']) (transfer_frames Nvme True (tree_items ?es))"
    using demo_good_tree
    by (intro sender_refines_frames[where p = "''/home/d''" and entries = ?es])
      (simp_all add: demo_source_def good_tree_def)
  then show ?thesis by simp
qed

text \<open>
  the acknowledgement brings the receiver's outcome back: after a success the sender reads the
  file and byte counts, after an error the first \<open>MAX_ACK_ERROR_BYTES\<close> bytes of its message.
\<close>

theorem ack_round_trip:
  assumes "room w = None" "written w = []"
    and "write_directory_ack io_msg w result = Inr w'" "pending r = written w' @ rest"
  shows "read_directory_ack r =
     (case result of
        Inr st \<Rightarrow> Inr (default_stats\<lparr>files := files st, bytes := bytes st\<rparr>, r\<lparr>pending := rest\<rparr>)
      | Inl e \<Rightarrow> Inl (ReceiverRejected (take MAX_ACK_ERROR_BYTES (as_bytes (dir_message io_msg e)))))"
proof (cases result)
  case (Inl e)
  then show ?thesis using assms ack_error_roundtrip[of w io_msg e w' r rest] by simp
next
  case (Inr st)
  then show ?thesis using assms ack_ok_roundtrip[of w io_msg st w' r rest] by simp
qed

theorem ack_round_trip_witness:
  "\<exists>r. read_directory_ack r = Inl (ReceiverRejected (as_bytes ''directory transfer totals do not match received data''))"
proof -
  let ?w = "\<lparr>written = [], room = None\<rparr>" and ?e = "Inl TotalsMismatch :: dir_error + DirectoryTransferStats"
  obtain w' where w': "write_directory_ack (\<lambda>_. []) ?w ?e = Inr w'"
    by (simp add: write_directory_ack_def Let_def write_u32_def)
  have "read_directory_ack \<lparr>pending = written w' @ [], grain = id, broken = False\<rparr> =
     (case ?e of
        Inr st \<Rightarrow> Inr (default_stats\<lparr>files := files st, bytes := bytes st\<rparr>,
                     \<lparr>pending = written w' @ [], grain = id, broken = False\<rparr>\<lparr>pending := []\<rparr>)
      | Inl e \<Rightarrow> Inl (ReceiverRejected (take MAX_ACK_ERROR_BYTES (as_bytes (dir_message (\<lambda>_. []) e)))))"
    by (rule ack_round_trip[OF _ _ w']) simp_all
  then show ?thesis by (intro exI) (simp add: MAX_ACK_ERROR_BYTES_def)
qed

text \<open>
  the receiver ends a transfer successfully only if the totals the peer announces are the
  numbers of files, directories and bytes it has counted itself.
\<close>

theorem totals_checked:
  assumes "pending (rd s) = bs @ rest" "length bs = 24"
  shows "recv_totals st s =
     (if bs = totals_bytes st then Inr st else Inl TotalsMismatch, s\<lparr>rd := (rd s)\<lparr>pending := rest\<rparr>\<rparr>)"
proof -
  let ?a = "take 8 bs" and ?b = "take 8 (drop 8 bs)" and ?c = "take 8 (drop 16 bs)"
  have cut: "bs = ?a @ ?b @ ?c"
    using assms(2) append_take_drop_id[of 8 bs] append_take_drop_id[of 8 "drop 8 bs"] by simp
  have "u64_to_be (u64_from_be ?a) = ?a" "u64_to_be (u64_from_be ?b) = ?b" "u64_to_be (u64_from_be ?c) = ?c"
    using assms(2) by (simp_all add: u64_to_from_be)
  then have "bs = totals_bytes st"
    if "u64_from_be ?a = files st" "u64_from_be ?b = directories st" "u64_from_be ?c = bytes st"
    using cut that by (simp add: totals_bytes_def)
  then have "bs = totals_bytes st \<longleftrightarrow>
      u64_from_be ?a = files st \<and> u64_from_be ?b = directories st \<and> u64_from_be ?c = bytes st"
    by (auto simp: totals_bytes_def)
  moreover have "rread_io (\<lambda>r. read_exact r 24) s = (Inr bs, s\<lparr>rd := (rd s)\<lparr>pending := rest\<rparr>\<rparr>)"
    by (rule rread_io_exact[OF assms])
  ultimately show ?thesis by (simp add: recv_totals_def sbind_def)
qed

theorem totals_checked_witness:
  "fst (recv_totals default_stats
      \<lparr>rd = \<lparr>pending = replicate 24 1 @ [], grain = id, broken = False\<rparr>, disk = demo_disk\<rparr>)
   = Inl TotalsMismatch"
proof -
  have "u64_to_be 0 \<noteq> replicate 8 1" by (simp add: u64_to_be_def eval_nat_numeral)
  then have "replicate 24 1 \<noteq> totals_bytes default_stats"
    by (auto simp: totals_bytes_def default_stats_def dest: arg_cong[of _ _ "take 8"])
  then show ?thesis
    using totals_checked[of "\<lparr>rd = \<lparr>pending = replicate 24 1 @ [], grain = id, broken = False\<rparr>,
        disk = demo_disk\<rparr>" "replicate 24 1" "[]" default_stats] by simp
qed

end
