(* ===== verification/Peer_Core.thy ===== *)
theory Peer_Core
  imports Protocol_Types File_System
begin

text \<open>
  The coordination of a file transfer (\<open>core/src/peer_generic.rs\<close>, and \<open>core/src/peer.rs\<close>, whose
  loop has the same branches): the framing of control messages, and the handlers of the main
  loop as functions on the state of the loop. Channels are the lists of what has been put into
  them; the local disk is part of the state because the handlers inspect and change it.
\<close>

section \<open>Control frames\<close>

datatype control_error = ControlIo io_error | ControlTooLong nat | ControlNotUtf8

definition send_control_msg :: "sink \<Rightarrow> string \<Rightarrow> io_error + sink" where
  "send_control_msg w msg =
     rbind (write_all w (u32_to_be (word_of_nat (length msg)))) (\<lambda>w.
     if msg \<noteq> [] then write_all w (as_bytes msg) else Inr w)"

text \<open>The stream that ends at a frame boundary is \<open>None\<close>.\<close>

definition read_control_msg :: "source \<Rightarrow> control_error + (string option \<times> source)" where
  "read_control_msg r =
     (case read_exact r 4 of
        Inl e \<Rightarrow> if e = UnexpectedEof then Inr (None, r) else Inl (ControlIo e)
      | Inr (len_buf, r) \<Rightarrow>
          (let len = unat (u32_from_be len_buf) in
           if MAX_CONTROL_MESSAGE_BYTES < len then Inl (ControlTooLong len)
           else if len = 0 then Inr (Some [], r)
           else (case read_exact r len of
                   Inl e \<Rightarrow> Inl (ControlIo e)
                 | Inr (buf, r) \<Rightarrow>
                     (case from_utf8 buf of
                        None \<Rightarrow> Inl ControlNotUtf8
                      | Some s \<Rightarrow> Inr (Some s, r)))))"

definition control_frame :: "string \<Rightarrow> byte list" where
  "control_frame m = u32_to_be (word_of_nat (length m)) @ as_bytes m"

definition frameable :: "string \<Rightarrow> bool" where
  "frameable m \<longleftrightarrow> utf8_valid m \<and> length m \<le> MAX_CONTROL_MESSAGE_BYTES"

lemma send_control_msg_ok:
  "room w = None \<Longrightarrow> send_control_msg w m = Inr (w\<lparr>written := written w @ control_frame m\<rparr>)"
  by (simp add: send_control_msg_def control_frame_def)

text \<open>The reader as a codec: a message, not the end of the stream.\<close>

definition read_message :: "source \<Rightarrow> control_error + (string \<times> source)" where
  "read_message r =
     (case read_control_msg r of
        Inl e \<Rightarrow> Inl e
      | Inr (None, r) \<Rightarrow> Inl (ControlIo UnexpectedEof)
      | Inr (Some m, r) \<Rightarrow> Inr (m, r))"

lemma read_control_msg_enc:
  assumes "frameable m" "pending r = control_frame m @ rest"
  shows "read_control_msg r = Inr (Some m, r\<lparr>pending := rest\<rparr>)"
proof -
  have len: "unat (word_of_nat (length m) :: u32) = length m"
    using assms(1) by (intro unat_word_of_nat) (simp add: frameable_def MAX_CONTROL_MESSAGE_BYTES_def)
  show ?thesis
    using assms len by (auto simp: read_control_msg_def control_frame_def frameable_def Let_def)
qed

lemma read_message_enc:
  "frameable m \<Longrightarrow> pending r = control_frame m @ rest \<Longrightarrow> read_message r = Inr (m, r\<lparr>pending := rest\<rparr>)"
  by (simp add: read_message_def read_control_msg_enc)

lemma read_message_sound:
  assumes "read_message r = Inr (m, r')"
  shows "frameable m \<and> (\<exists>rest. pending r = control_frame m @ rest \<and> r' = r\<lparr>pending := rest\<rparr>)"
proof -
  obtain lb rest1 where l: "pending r = lb @ rest1" "length lb = 4"
    and n: "unat (u32_from_be lb) \<le> MAX_CONTROL_MESSAGE_BYTES"
    and e: "(unat (u32_from_be lb) = 0 \<and> m = [] \<and> r' = r\<lparr>pending := rest1\<rparr>)
      \<or> (read_exact (r\<lparr>pending := rest1\<rparr>) (unat (u32_from_be lb)) = Inr (as_bytes m, r') \<and> utf8_valid m)"
    using assms
    by (auto simp: read_message_def read_control_msg_def Let_def read_exact_Inr from_utf8_Some
        split: sum.splits option.splits if_splits)
  have lenb: "u32_to_be (word_of_nat (unat (u32_from_be lb))) = lb" using l(2) by (simp add: u32_to_from_be)
  show ?thesis
    using e
  proof
    assume z: "unat (u32_from_be lb) = 0 \<and> m = [] \<and> r' = r\<lparr>pending := rest1\<rparr>"
    then show ?thesis using lenb l by (auto simp: frameable_def control_frame_def)
  next
    assume "read_exact (r\<lparr>pending := rest1\<rparr>) (unat (u32_from_be lb)) = Inr (as_bytes m, r') \<and> utf8_valid m"
    then obtain rest where rest: "rest1 = as_bytes m @ rest" "length m = unat (u32_from_be lb)"
      "r' = r\<lparr>pending := rest\<rparr>" "utf8_valid m"
      by (auto simp: read_exact_Inr)
    then show ?thesis using lenb l n by (auto simp: frameable_def control_frame_def)
  qed
qed

interpretation control_codec: canonical_codec control_frame read_message frameable
  by unfold_locales (simp_all add: read_message_enc read_message_sound)

section \<open>Files as the peer uses them\<close>

text \<open>
  What the environment fixes: the JSON and hash crates, the length reported for a directory,
  how many bytes one \<open>read\<close> of a file returns, and the texts of the platform's I/O errors.
\<close>

record peer_env =
  env_json :: json
  env_hash :: hashing
  env_dir_len :: u64
  env_grain :: "nat \<Rightarrow> nat"
  env_error_text :: "control_error \<Rightarrow> string"

definition node_len :: "peer_env \<Rightarrow> node \<Rightarrow> u64" where
  "node_len E v = (case v of File c \<Rightarrow> word_of_nat (length c) | _ \<Rightarrow> env_dir_len E)"

definition file_open :: "peer_env \<Rightarrow> fsys \<Rightarrow> string \<Rightarrow> io_error + source" where
  "file_open E fs p =
     (case fs_metadata fs p of
        Inl e \<Rightarrow> Inl e
      | Inr (File c) \<Rightarrow> Inr \<lparr>pending = c, grain = env_grain E, broken = False\<rparr>
      | Inr _ \<Rightarrow> Inr \<lparr>pending = [], grain = env_grain E, broken = True\<rparr>)"

text \<open>\<open>metadata(p).map(|m| m.len()).unwrap_or(0)\<close>\<close>

definition len_or_zero :: "peer_env \<Rightarrow> fsys \<Rightarrow> string \<Rightarrow> u64" where
  "len_or_zero E fs p = (case fs_metadata fs p of Inl _ \<Rightarrow> 0 | Inr v \<Rightarrow> node_len E v)"

text \<open>\<open>OpenOptions::new().write(true).open(p)\<close> followed by \<open>set_len(n)\<close>; errors are dropped.\<close>

definition resize :: "nat \<Rightarrow> byte list \<Rightarrow> byte list" where
  "resize n c = take n c @ replicate (n - length c) 0"

definition set_file_len :: "string \<Rightarrow> nat \<Rightarrow> fsys \<Rightarrow> fsys" where
  "set_file_len p n fs =
     (case locate fs True p of
        Inl _ \<Rightarrow> fs
      | Inr k \<Rightarrow>
          (case node_at (nodes fs) k of
             Some (File c) \<Rightarrow> set_node k (Some (File (resize n c))) fs
           | _ \<Rightarrow> fs))"

definition prefix_hash_of :: "peer_env \<Rightarrow> fsys \<Rightarrow> string \<Rightarrow> string option" where
  "prefix_hash_of E fs p =
     result_ok (compute_prefix_hash (env_hash E) (file_open E fs p) RESUME_FINGERPRINT_SIZE)"

section \<open>The coordinator\<close>

text \<open>
  Events and commands of the loop. A progress event keeps its byte counts; the rates and times in
  it are measurements of the clock.
\<close>

datatype PeerEvent =
    Connected
  | Disconnected string
  | FileOffered string u64 bool bool
  | TransferProgress u64 u64 bool
  | TransferPaused
  | TransferResumed
  | TransferComplete file_transfer_status
  | TransferInitiationChanged bool

datatype PeerCommand =
    SendFile string bool bool
  | AcceptFile string bool bool
  | RejectFile
  | PauseTransfer
  | ResumeTransfer
  | Disconnect

text \<open>\<open>(dest_path, file_size, checksum, resume_offset, use_part)\<close>\<close>

record recv_job =
  dest_path :: string
  job_size :: u64
  job_checksum :: bool
  resume_offset :: u64
  use_part :: bool

record coord =
  pending_send_path :: "(string \<times> bool \<times> bool) option"
  offered_file_name :: "string option"
  offered_file_size :: "u64 option"
  offered_resume :: bool
  pending_accept :: "(string \<times> bool \<times> bool) option"
  pending_resume_recv :: "recv_job option"
  current_part_path :: "string option"
  local_fs :: fsys
  event_tx :: "PeerEvent list"
  control_tx :: "ControlMessage list"
  send_file_trigger :: "(string \<times> bool \<times> u64) list"
  recv_file_trigger :: "recv_job list"
  hash_tx :: "string list"
  paused :: bool
  cancelled :: bool

definition initial_coord :: "fsys \<Rightarrow> coord" where
  "initial_coord fs =
     \<lparr>pending_send_path = None, offered_file_name = None, offered_file_size = None,
      offered_resume = False, pending_accept = None, pending_resume_recv = None,
      current_part_path = None, local_fs = fs, event_tx = [Connected], control_tx = [],
      send_file_trigger = [], recv_file_trigger = [], hash_tx = [], paused = False,
      cancelled = False\<rparr>"

definition emit_event :: "PeerEvent \<Rightarrow> coord \<Rightarrow> coord" where
  "emit_event e s = s\<lparr>event_tx := event_tx s @ [e]\<rparr>"

definition queue_control :: "ControlMessage \<Rightarrow> coord \<Rightarrow> coord" where
  "queue_control m s = s\<lparr>control_tx := control_tx s @ [m]\<rparr>"

definition trigger_send :: "string \<times> bool \<times> u64 \<Rightarrow> coord \<Rightarrow> coord" where
  "trigger_send j s = s\<lparr>send_file_trigger := send_file_trigger s @ [j]\<rparr>"

definition trigger_recv :: "recv_job \<Rightarrow> coord \<Rightarrow> coord" where
  "trigger_recv j s = s\<lparr>recv_file_trigger := recv_file_trigger s @ [j]\<rparr>"

lemmas queue_defs = emit_event_def queue_control_def trigger_send_def trigger_recv_def

definition clean_text :: "string \<Rightarrow> string" where
  "clean_text s = trim_matches char_is_control s"

text \<open>\<open>Path::file_name().unwrap_or_default().to_string_lossy()\<close>\<close>

definition base_name :: "string \<Rightarrow> string" where
  "base_name p = (case file_name p of None \<Rightarrow> [] | Some n \<Rightarrow> utf8_lossy n)"

definition accept_dest :: "string \<Rightarrow> string \<Rightarrow> string" where
  "accept_dest save_dir offered = path_push (clean_text save_dir) (base_name (clean_text offered))"

definition aligned_offset :: "u64 \<Rightarrow> u64 \<Rightarrow> u64" where
  "aligned_offset existing_len sz =
     (let chunk_align = word_of_nat FILE_CHUNK_SIZE :: u64;
          aligned = (existing_len div chunk_align) * chunk_align
      in if sz < aligned then 0 else aligned)"

definition handle_accept :: "peer_env \<Rightarrow> string \<Rightarrow> bool \<Rightarrow> bool \<Rightarrow> string \<Rightarrow> u64 \<Rightarrow> bool \<Rightarrow> coord \<Rightarrow> coord" where
  "handle_accept E save_dir ck resum name sz offered s =
     (let dest = accept_dest save_dir name;
          job = (\<lambda>off part. \<lparr>dest_path = dest, job_size = sz, job_checksum = ck,
                             resume_offset = off, use_part = part\<rparr>)
      in if RESUME_THRESHOLD_BYTES \<le> sz then
        (let part_path = get_part_path dest;
             s = s\<lparr>current_part_path := Some part_path\<rparr>;
             fresh = queue_control Ready (trigger_recv (job 0 True) s)
         in if \<not> (offered \<and> resum) then fresh
         else if path_exists (local_fs s) part_path then
           (let off = aligned_offset (len_or_zero E (local_fs s) part_path) sz
            in if 0 < off then
              (let fs = set_file_len part_path (unat off) (local_fs s);
                   fingerprint = prefix_hash_of E fs part_path
               in queue_control (ResumeReady off fingerprint)
                    (s\<lparr>local_fs := fs, pending_resume_recv := Some (job off True)\<rparr>))
            else fresh)
         else if path_exists (local_fs s) dest \<and> len_or_zero E (local_fs s) dest = sz then
           queue_control (ResumeReady sz (prefix_hash_of E (local_fs s) dest))
             (s\<lparr>pending_resume_recv := Some (job sz False)\<rparr>)
         else fresh)
      else
        queue_control Ready (trigger_recv (job 0 False) (s\<lparr>current_part_path := None\<rparr>)))"

text \<open>\<open>Metadata\<close>: the offer is announced, and taken at once if an acceptance is waiting.\<close>

definition on_metadata :: "peer_env \<Rightarrow> string \<Rightarrow> u64 \<Rightarrow> bool \<Rightarrow> bool \<Rightarrow> coord \<Rightarrow> coord" where
  "on_metadata E name sz resum ck s =
     (let s = s\<lparr>offered_file_name := Some name, offered_file_size := Some sz, offered_resume := resum\<rparr>;
          s = emit_event (FileOffered name sz resum ck) (emit_event (TransferInitiationChanged True) s)
      in case pending_accept s of
           None \<Rightarrow> s
         | Some (save_dir, ck', accept_resume) \<Rightarrow>
             handle_accept E save_dir ck' accept_resume name sz (offered_resume s)
               (s\<lparr>pending_accept := None, offered_file_name := None, offered_file_size := None\<rparr>))"

definition on_ready :: "coord \<Rightarrow> coord" where
  "on_ready s =
     (case pending_send_path s of
        None \<Rightarrow> s
      | Some (path, ck, _) \<Rightarrow> trigger_send (path, ck, 0) (s\<lparr>pending_send_path := None\<rparr>))"

definition on_resume_ready :: "peer_env \<Rightarrow> u64 \<Rightarrow> string option \<Rightarrow> coord \<Rightarrow> coord" where
  "on_resume_ready E off hash s =
     (case pending_send_path s of
        None \<Rightarrow> s
      | Some (path, ck, _) \<Rightarrow>
          (let s = s\<lparr>pending_send_path := None\<rparr> in
           if 0 < off then
             (if prefix_hash_of E (local_fs s) path = hash
              then trigger_send (path, ck, off) (queue_control ResumeOk s)
              else queue_control RestartFromZero (s\<lparr>pending_send_path := Some (path, ck, False)\<rparr>))
           else trigger_send (path, ck, 0) s))"

definition on_resume_ok :: "coord \<Rightarrow> coord" where
  "on_resume_ok s =
     (case pending_resume_recv s of
        None \<Rightarrow> s
      | Some job \<Rightarrow> trigger_recv job (s\<lparr>pending_resume_recv := None\<rparr>))"

definition on_restart_from_zero :: "coord \<Rightarrow> coord" where
  "on_restart_from_zero s =
     (case pending_resume_recv s of
        None \<Rightarrow> s
      | Some job \<Rightarrow>
          (let s = s\<lparr>pending_resume_recv := None\<rparr>;
               s = (case current_part_path s of
                      None \<Rightarrow> s
                    | Some part_path \<Rightarrow> s\<lparr>local_fs := snd (file_create part_path (local_fs s))\<rparr>)
           in queue_control Ready (trigger_recv (job\<lparr>resume_offset := 0\<rparr>) s)))"

definition on_control :: "peer_env \<Rightarrow> ControlMessage \<Rightarrow> coord \<Rightarrow> coord" where
  "on_control E m s =
     (case m of
        Metadata name sz resum ck \<Rightarrow> on_metadata E name sz resum ck s
      | Ready \<Rightarrow> on_ready s
      | ResumeReady off hash \<Rightarrow> on_resume_ready E off hash s
      | ResumeOk \<Rightarrow> on_resume_ok s
      | RestartFromZero \<Rightarrow> on_restart_from_zero s
      | Pause \<Rightarrow> emit_event TransferPaused (s\<lparr>paused := True\<rparr>)
      | Resume \<Rightarrow> emit_event TransferResumed (s\<lparr>paused := False\<rparr>)
      | FileSent hash \<Rightarrow> s\<lparr>hash_tx := hash_tx s @ [hash]\<rparr>
      | ReceivedFileOk \<Rightarrow> emit_event (TransferComplete Completed) s
      | ReceivedFileFailed \<Rightarrow> emit_event (TransferComplete HashFailed) (s\<lparr>cancelled := True\<rparr>)
      | RejectedUnwanted \<Rightarrow> emit_event (TransferComplete StatusUnwanted) s
      | RejectedAlreadyReceiving \<Rightarrow> emit_event (TransferComplete StatusAlreadyReceiving) s
      | RejectedAlreadySending \<Rightarrow> emit_event (TransferComplete StatusAlreadySending) s)"

text \<open>One received text: an empty one is a keep-alive, an unknown one is ignored.\<close>

definition on_message :: "peer_env \<Rightarrow> string \<Rightarrow> coord \<Rightarrow> coord" where
  "on_message E msg s =
     (if msg = [] then s
      else (case parse (env_json E) msg of None \<Rightarrow> s | Some m \<Rightarrow> on_control E m s))"

text \<open>One command; \<open>None\<close> ends the loop.\<close>

definition on_command :: "peer_env \<Rightarrow> PeerCommand \<Rightarrow> coord \<Rightarrow> coord option" where
  "on_command E c s =
     (case c of
        SendFile path ck resum \<Rightarrow>
          Some (case fs_metadata (local_fs s) path of
             Inl _ \<Rightarrow> s
           | Inr v \<Rightarrow>
               queue_control (Metadata (base_name path) (node_len E v) resum ck)
                 (emit_event (TransferInitiationChanged True)
                   (s\<lparr>pending_send_path := Some (path, ck, resum)\<rparr>)))
      | AcceptFile save_dir ck resum \<Rightarrow>
          (let taken = s\<lparr>offered_file_name := None, offered_file_size := None\<rparr> in
           Some (case (offered_file_name s, offered_file_size s) of
             (Some name, Some sz) \<Rightarrow>
               handle_accept E save_dir ck resum name sz (offered_resume s) taken
           | _ \<Rightarrow> taken\<lparr>pending_accept := Some (save_dir, ck, resum)\<rparr>))
      | RejectFile \<Rightarrow>
          Some (queue_control RejectedUnwanted
            (s\<lparr>offered_file_name := None, offered_file_size := None\<rparr>))
      | PauseTransfer \<Rightarrow>
          Some (emit_event TransferPaused (queue_control Pause (s\<lparr>paused := True\<rparr>)))
      | ResumeTransfer \<Rightarrow>
          Some (emit_event TransferResumed (queue_control Resume (s\<lparr>paused := False\<rparr>)))
      | Disconnect \<Rightarrow> None)"

section \<open>The loop\<close>

text \<open>
  A turn of \<open>select!\<close>: a control frame was read (or its reading ended), a command arrived (or the
  channel was closed), or the token was cancelled. The flag says that the loop goes on.
\<close>

datatype loop_input =
    Received "control_error + string option"
  | Command "PeerCommand option"
  | CancelSignal

definition error_text :: "peer_env \<Rightarrow> control_error \<Rightarrow> string" where
  "error_text E e =
     (case e of
        ControlTooLong len \<Rightarrow>
          ''control message length '' @ show_nat len @ '' exceeds maximum allowed ''
            @ show_nat MAX_CONTROL_MESSAGE_BYTES
      | _ \<Rightarrow> env_error_text E e)"

definition loop_turn :: "peer_env \<Rightarrow> loop_input \<Rightarrow> coord \<Rightarrow> coord \<times> bool" where
  "loop_turn E inp s =
     (case inp of
        Received (Inr (Some msg)) \<Rightarrow> (on_message E msg s, True)
      | Received (Inr None) \<Rightarrow> (emit_event (Disconnected ''Peer closed connection'') s, False)
      | Received (Inl e) \<Rightarrow> (emit_event (Disconnected (error_text E e)) s, False)
      | Command (Some c) \<Rightarrow>
          (case on_command E c s of None \<Rightarrow> (s, False) | Some s' \<Rightarrow> (s', True))
      | Command None \<Rightarrow> (s, False)
      | CancelSignal \<Rightarrow> (s, False))"

fun run_loop :: "peer_env \<Rightarrow> loop_input list \<Rightarrow> coord \<Rightarrow> coord \<times> bool" where
  "run_loop E [] s = (s, True)"
| "run_loop E (i # is) s =
     (case loop_turn E i s of (s', True) \<Rightarrow> run_loop E is s' | (s', False) \<Rightarrow> (s', False))"

text \<open>
  \<open>run_peer\<close> has the same branches; when the control stream ends it asks the connection up to
  eleven times why it was shut down (\<open>polls\<close> are the answers), and after the loop it shuts the
  connection down.
\<close>

definition disconnect_reason :: "string option list \<Rightarrow> string \<Rightarrow> string" where
  "disconnect_reason polls fallback =
     (case filter (\<lambda>r. r \<noteq> None) (take 11 polls) of Some r # _ \<Rightarrow> r | _ \<Rightarrow> fallback)"

definition quic_loop_turn :: "peer_env \<Rightarrow> string option list \<Rightarrow> loop_input \<Rightarrow> coord \<Rightarrow> coord \<times> bool" where
  "quic_loop_turn E polls inp s =
     (case inp of
        Received (Inr None) \<Rightarrow>
          (emit_event (Disconnected (disconnect_reason polls ''Peer closed connection'')) s, False)
      | Received (Inl e) \<Rightarrow>
          (emit_event (Disconnected (disconnect_reason polls (error_text E e))) s, False)
      | _ \<Rightarrow> loop_turn E inp s)"

fun run_quic_loop :: "peer_env \<Rightarrow> string option list \<Rightarrow> loop_input list \<Rightarrow> coord \<Rightarrow> coord \<times> bool" where
  "run_quic_loop E polls [] s = (s, True)"
| "run_quic_loop E polls (i # is) s =
     (case quic_loop_turn E polls i s of
        (s', True) \<Rightarrow> run_quic_loop E polls is s' | (s', False) \<Rightarrow> (s', False))"

text \<open>The two loops agree on everything but the text of the last event.\<close>

lemma quic_loop_turn_eq:
  "(\<forall>e. inp \<noteq> Received (Inl e)) \<Longrightarrow> inp \<noteq> Received (Inr None) \<Longrightarrow>
     quic_loop_turn E polls inp s = loop_turn E inp s"
  by (auto simp: quic_loop_turn_def split: loop_input.splits sum.splits option.splits)

section \<open>Invariants of the coordinator\<close>

text \<open>A reception job never starts behind the end of the file, and only large files use a partial file.\<close>

definition job_ok :: "recv_job \<Rightarrow> bool" where
  "job_ok j \<longleftrightarrow>
     resume_offset j \<le> job_size j
     \<and> (use_part j \<or> 0 < resume_offset j \<longrightarrow> RESUME_THRESHOLD_BYTES \<le> job_size j)
     \<and> (resume_offset j = job_size j \<or> unat (resume_offset j) mod FILE_CHUNK_SIZE = 0)"

definition jobs_ok :: "coord \<Rightarrow> bool" where
  "jobs_ok s \<longleftrightarrow>
     list_all job_ok (recv_file_trigger s)
     \<and> (\<forall>j. pending_resume_recv s = Some j \<longrightarrow> job_ok j)"

lemma aligned_offset_props:
  "aligned_offset len sz \<le> sz" "unat (aligned_offset len sz) mod FILE_CHUNK_SIZE = 0"
proof -
  let ?a = "word_of_nat FILE_CHUNK_SIZE :: u64"
  have a: "unat ?a = FILE_CHUNK_SIZE" by (simp add: FILE_CHUNK_SIZE_def)
  have "unat ((len div ?a) * ?a) = unat len div FILE_CHUNK_SIZE * FILE_CHUNK_SIZE"
  proof -
    have "unat len div FILE_CHUNK_SIZE * FILE_CHUNK_SIZE \<le> unat len" by simp
    also have "\<dots> < 2 ^ 64" using unsigned_less[of len, where ?'a = nat] by simp
    finally show ?thesis by (simp add: unat_mult_lem[THEN iffD1] unat_div a)
  qed
  then show "unat (aligned_offset len sz) mod FILE_CHUNK_SIZE = 0"
    by (simp add: aligned_offset_def Let_def)
  show "aligned_offset len sz \<le> sz" by (simp add: aligned_offset_def Let_def not_less)
qed

lemma handle_accept_jobs:
  assumes "jobs_ok s"
  shows "jobs_ok (handle_accept E dir ck resum name sz offered s)"
proof -
  let ?part = "get_part_path (accept_dest dir name)"
  have off: "aligned_offset len sz \<le> sz" "unat (aligned_offset len sz) mod FILE_CHUNK_SIZE = 0" for len
    by (rule aligned_offset_props)+
  show ?thesis
    using assms off
    by (simp add: handle_accept_def Let_def jobs_ok_def queue_defs job_ok_def)
qed

lemma on_metadata_jobs: "jobs_ok s \<Longrightarrow> jobs_ok (on_metadata E name sz resum ck s)"
  by (auto simp: on_metadata_def Let_def queue_defs jobs_ok_def intro!: handle_accept_jobs[unfolded jobs_ok_def]
      split: option.splits)

lemma on_control_jobs: "jobs_ok s \<Longrightarrow> jobs_ok (on_control E m s)"
proof (cases m)
  case (Metadata name sz resum ck)
  then show "jobs_ok s \<Longrightarrow> ?thesis" by (simp add: on_control_def on_metadata_jobs)
next
  case RestartFromZero
  then show "jobs_ok s \<Longrightarrow> ?thesis"
    by (auto simp: on_control_def on_restart_from_zero_def Let_def queue_defs jobs_ok_def job_ok_def
        split: option.splits)
qed (auto simp: on_control_def on_ready_def on_resume_ready_def on_resume_ok_def Let_def queue_defs
      jobs_ok_def split: option.splits)

lemma on_command_jobs: "jobs_ok s \<Longrightarrow> on_command E c s = Some s' \<Longrightarrow> jobs_ok s'"
proof (cases c)
  case (AcceptFile dir ck resum)
  assume j: "jobs_ok s" and c: "on_command E c s = Some s'"
  let ?t = "s\<lparr>offered_file_name := None, offered_file_size := None\<rparr>"
  have t: "jobs_ok ?t" using j by (simp add: jobs_ok_def)
  then show ?thesis
    using c AcceptFile handle_accept_jobs[OF t]
    by (auto simp: on_command_def Let_def jobs_ok_def split: option.splits)
qed (auto simp: on_command_def queue_defs jobs_ok_def split: sum.splits)

lemma loop_turn_jobs: "jobs_ok s \<Longrightarrow> jobs_ok (fst (loop_turn E inp s))"
  by (auto simp: loop_turn_def on_message_def on_control_jobs emit_event_def jobs_ok_def[of "s\<lparr>event_tx := _\<rparr>"]
      dest: on_command_jobs split: loop_input.splits sum.splits option.splits)
    (auto simp: jobs_ok_def)

lemma run_loop_jobs: "jobs_ok s \<Longrightarrow> jobs_ok (fst (run_loop E is s))"
proof (induction "is" arbitrary: s)
  case (Cons i "is")
  then show ?case using loop_turn_jobs[of s E i]
    by (cases "loop_turn E i s"; cases "snd (loop_turn E i s)") auto
qed simp

text \<open>
  Bounds of the form "at most one job per request": a resource that grows by at most the cost of
  an input at every turn grows by at most the costs of the inputs of a run.
\<close>

locale budget =
  fixes turn :: "'i \<Rightarrow> 's \<Rightarrow> 's \<times> bool" and run :: "'i list \<Rightarrow> 's \<Rightarrow> 's \<times> bool"
    and used :: "'s \<Rightarrow> nat" and cost :: "'i \<Rightarrow> nat"
  assumes run_Nil: "fst (run [] s) = s"
    and run_Cons: "fst (run (i # is) s) =
      (if snd (turn i s) then fst (run is (fst (turn i s))) else fst (turn i s))"
    and turn_cost: "used (fst (turn i s)) \<le> used s + cost i"
begin

lemma run_cost: "used (fst (run is s)) \<le> used s + sum_list (map cost is)"
proof (induction "is" arbitrary: s)
  case Nil
  then show ?case by (simp add: run_Nil)
next
  case (Cons i "is")
  let ?s = "fst (turn i s)"
  have "used (fst (run is ?s)) \<le> used ?s + sum_list (map cost is)" by (rule Cons.IH)
  then have "used (fst (run (i # is) s)) \<le> used ?s + sum_list (map cost is)"
    by (simp add: run_Cons)
  also have "\<dots> \<le> used s + cost i + sum_list (map cost is)" using turn_cost[of i s] by simp
  finally show ?case by simp
qed

end

definition one_if :: "bool \<Rightarrow> nat" where
  "one_if b = (if b then 1 else 0)"

definition recv_used :: "coord \<Rightarrow> nat" where
  "recv_used s = length (recv_file_trigger s) + one_if (pending_resume_recv s \<noteq> None)
     + one_if (offered_file_name s \<noteq> None)"

definition send_used :: "coord \<Rightarrow> nat" where
  "send_used s = length (send_file_trigger s) + one_if (pending_send_path s \<noteq> None)"

definition offers :: "peer_env \<Rightarrow> loop_input \<Rightarrow> nat" where
  "offers E inp =
     (case inp of
        Received (Inr (Some msg)) \<Rightarrow>
          (case parse (env_json E) msg of Some (Metadata _ _ _ _) \<Rightarrow> 1 | _ \<Rightarrow> 0)
      | _ \<Rightarrow> 0)"

definition send_requests :: "loop_input \<Rightarrow> nat" where
  "send_requests inp = (case inp of Command (Some (SendFile _ _ _)) \<Rightarrow> 1 | _ \<Rightarrow> 0)"

lemma handle_accept_used:
  "recv_used (handle_accept E dir ck resum name sz offered s) \<le> recv_used s + 1"
  by (simp add: handle_accept_def Let_def recv_used_def queue_defs one_if_def)

lemma handle_accept_send [simp]:
  "send_used (handle_accept E dir ck resum name sz offered s) = send_used s"
  by (simp add: handle_accept_def Let_def send_used_def queue_defs)

lemma on_metadata_used: "recv_used (on_metadata E name sz resum ck s) \<le> recv_used s + 1"
proof (cases "pending_accept s")
  case None
  then show ?thesis by (simp add: on_metadata_def Let_def recv_used_def queue_defs one_if_def)
next
  case (Some a)
  obtain dir ck' r where a: "a = (dir, ck', r)" by (cases a)
  define s1 where "s1 = (emit_event (FileOffered name sz resum ck) (emit_event (TransferInitiationChanged True)
      (s\<lparr>offered_file_name := Some name, offered_file_size := Some sz, offered_resume := resum\<rparr>)))
      \<lparr>pending_accept := None, offered_file_name := None, offered_file_size := None\<rparr>"
  have "on_metadata E name sz resum ck s = handle_accept E dir ck' r name sz resum s1"
    using Some a by (simp add: on_metadata_def Let_def queue_defs s1_def)
  moreover have "recv_used s1 \<le> recv_used s"
    by (simp add: s1_def recv_used_def queue_defs one_if_def)
  ultimately show ?thesis using handle_accept_used[of E dir ck' r name sz resum s1] by simp
qed

lemma on_metadata_send [simp]: "send_used (on_metadata E name sz resum ck s) = send_used s"
proof (cases "pending_accept s")
  case (Some a)
  then show ?thesis
    by (cases a) (simp add: on_metadata_def Let_def queue_defs, simp add: send_used_def)
qed (simp add: on_metadata_def Let_def send_used_def queue_defs)

lemmas handler_defs = on_control_def on_ready_def on_resume_ready_def on_resume_ok_def
  on_restart_from_zero_def Let_def queue_defs

lemma on_control_used:
  "recv_used (on_control E m s) \<le> recv_used s + (case m of Metadata _ _ _ _ \<Rightarrow> 1 | _ \<Rightarrow> 0)"
proof (cases m)
  case (Metadata name sz resum ck)
  then show ?thesis using on_metadata_used by (simp add: on_control_def)
qed (auto simp: handler_defs recv_used_def one_if_def split: option.splits)

lemma on_control_send: "send_used (on_control E m s) \<le> send_used s"
proof (cases m)
  case (Metadata name sz resum ck)
  then show ?thesis by (simp add: on_control_def)
qed (auto simp: handler_defs send_used_def one_if_def split: option.splits)

lemma on_command_used: "on_command E c s = Some s' \<Longrightarrow> recv_used s' \<le> recv_used s"
proof (cases c)
  case (AcceptFile dir ck resum)
  assume c: "on_command E c s = Some s'"
  let ?t = "s\<lparr>offered_file_name := None, offered_file_size := None\<rparr>"
  have t: "recv_used ?t \<le> recv_used s" "offered_file_name s \<noteq> None \<Longrightarrow> recv_used ?t + 1 = recv_used s"
    by (simp_all add: recv_used_def one_if_def)
  have p: "recv_used (?t\<lparr>pending_accept := x\<rparr>) = recv_used ?t" for x by (simp add: recv_used_def)
  have h: "recv_used (handle_accept E dir ck resum n z off ?t) \<le> recv_used ?t + 1" for n z off
    by (rule handle_accept_used)
  show ?thesis
  proof (cases "offered_file_name s = None \<or> offered_file_size s = None")
    case True
    then have "s' = ?t\<lparr>pending_accept := Some (dir, ck, resum)\<rparr>"
      using c AcceptFile by (auto simp: on_command_def Let_def split: option.splits)
    then show ?thesis using p t(1) by metis
  next
    case False
    then obtain n z where "s' = handle_accept E dir ck resum n z (offered_resume s) ?t"
      using c AcceptFile by (auto simp: on_command_def Let_def)
    then show ?thesis using h t(2) False by metis
  qed
qed (auto simp: on_command_def queue_defs recv_used_def one_if_def split: sum.splits)

lemma on_command_send:
  "on_command E c s = Some s' \<Longrightarrow> send_used s' \<le> send_used s + send_requests (Command (Some c))"
proof (cases c)
  case (AcceptFile dir ck resum)
  assume c: "on_command E c s = Some s'"
  have t: "send_used (s\<lparr>offered_file_name := None, offered_file_size := None\<rparr>) = send_used s"
    "send_used (s\<lparr>offered_file_name := None, offered_file_size := None, pending_accept := x\<rparr>) = send_used s" for x
    by (simp_all add: send_used_def)
  show ?thesis using c AcceptFile t
    by (auto simp: on_command_def Let_def split: option.splits)
qed (auto simp: on_command_def send_requests_def queue_defs one_if_def send_used_def split: sum.splits)

lemma run_loop_Cons:
  "fst (run_loop E (i # is) s) =
     (if snd (loop_turn E i s) then fst (run_loop E is (fst (loop_turn E i s))) else fst (loop_turn E i s))"
  by (cases "loop_turn E i s"; cases "snd (loop_turn E i s)") auto

lemma recv_used_event [simp]: "recv_used (emit_event e s) = recv_used s"
  by (simp add: recv_used_def emit_event_def)

lemma send_used_event [simp]: "send_used (emit_event e s) = send_used s"
  by (simp add: send_used_def emit_event_def)

interpretation recv_budget: budget "loop_turn E" "run_loop E" recv_used "offers E" for E
proof (unfold_locales, goal_cases)
  case (3 i s)
  show ?case
  proof (cases i)
    case (Received x)
    then show ?thesis using on_control_used[of E _ s]
      by (auto simp: loop_turn_def on_message_def offers_def split: sum.splits option.splits)
  next
    case (Command c)
    then show ?thesis using on_command_used[of E _ s]
      by (auto simp: loop_turn_def offers_def split: option.splits)
  qed (simp add: loop_turn_def)
qed (simp, rule run_loop_Cons)

interpretation send_budget: budget "loop_turn E" "run_loop E" send_used send_requests for E
proof (unfold_locales, goal_cases)
  case (3 i s)
  show ?case
  proof (cases i)
    case (Received x)
    then show ?thesis using on_control_send[of E _ s]
      by (auto simp: loop_turn_def on_message_def send_requests_def split: sum.splits option.splits)
  next
    case (Command c)
    then show ?thesis using on_command_send[of E _ s]
      by (auto simp: loop_turn_def split: option.splits)
  qed (simp add: loop_turn_def)
qed (simp, rule run_loop_Cons)

end
