(* ===== verification/Peer_Tasks.thy ===== *)
theory Peer_Tasks
  imports Peer_Core
begin

text \<open>
  The file tasks of \<open>run_peer_generic\<close> and \<open>run_peer\<close> (\<open>core/src/peer_generic.rs\<close>,
  \<open>core/src/peer.rs\<close>): one job of the sender (disk reader, optional hasher, stream writer) and one
  job of the receiver (stream reader, optional hasher, disk writer, check and rename), and the loops
  over their job queues. Reader and writer of a job are joined by a bounded channel that keeps the
  order of the chunks, so a job is the composition of the two loops. What the outside decides is a
  parameter: at which chunk a cancellation is seen, how much the disk accepts, how reads are split.
  Pausing delays a chunk and changes no data.
\<close>

section \<open>The sender's job\<close>

text \<open>Task 3a: reads the file to its end; the hasher has seen every byte of every chunk.\<close>

function read_chunks :: "nat option \<Rightarrow> nat \<Rightarrow> source \<Rightarrow> byte list option \<Rightarrow> byte list list
    \<Rightarrow> byte list list \<times> (byte list option) option" where
  "read_chunks stop i file hasher acc =
     (if stop = Some i then (acc, None)
      else (case read_some file FILE_CHUNK_SIZE of
              Inl e \<Rightarrow> (acc, None)
            | Inr ([], _) \<Rightarrow> (acc, Some hasher)
            | Inr (b # bs, file') \<Rightarrow>
                read_chunks stop (Suc i) file' (map_option (\<lambda>h. h @ b # bs) hasher) (acc @ [b # bs])))"
  by pat_completeness auto
termination
proof (relation "measure (\<lambda>(st, i, f, h, a). length (pending f))", goal_cases)
  case (2 stop i f hasher acc p q f' b bs)
  then show ?case
    by (auto simp: read_some_def Let_def FILE_CHUNK_SIZE_def split: if_splits)
qed simp

declare read_chunks.simps [simp del]

text \<open>Task 3b: writes the chunks; \<open>stop\<close> is the chunk at which a cancellation is noticed.\<close>

fun write_chunks :: "nat option \<Rightarrow> nat \<Rightarrow> byte list list \<Rightarrow> sink \<Rightarrow> u64 \<Rightarrow> bool \<times> sink \<times> u64" where
  "write_chunks stop i [] w transferred = (stop \<noteq> Some i, w, transferred)"
| "write_chunks stop i (c # cs) w transferred =
     (if stop = Some i then (False, w, transferred)
      else (case write_all w c of
              Inl e \<Rightarrow> (False, w, transferred)
            | Inr w' \<Rightarrow> write_chunks stop (Suc i) cs w' (transferred + word_of_nat (length c))))"

record send_plan =
  read_stop :: "nat option"
  write_stop :: "nat option"

record send_result =
  stream_out :: sink
  send_events :: "PeerEvent list"
  send_control :: "ControlMessage list"

definition none_hash :: string where
  "none_hash = ''NONE''"

definition full_file_hash :: "peer_env \<Rightarrow> fsys \<Rightarrow> string \<Rightarrow> string" where
  "full_file_hash E fs p =
     (case compute_file_sha256_blocking (env_hash E) (file_open E fs p) of
        Inl _ \<Rightarrow> none_hash | Inr h \<Rightarrow> h)"

definition seek_to :: "u64 \<Rightarrow> source \<Rightarrow> source" where
  "seek_to off f = f\<lparr>pending := drop (unat off) (pending f)\<rparr>"

text \<open>The texts of open errors are the platform's; \<open>open_error_text\<close> is what is printed for them.\<close>

definition open_error_text :: "peer_env \<Rightarrow> io_error \<Rightarrow> string" where
  "open_error_text E e = ''Failed to open file to send: '' @ env_error_text E (ControlIo e)"

definition send_job :: "peer_env \<Rightarrow> fsys \<Rightarrow> send_plan \<Rightarrow> sink \<Rightarrow> string \<times> bool \<times> u64 \<Rightarrow> send_result" where
  "send_job E fs plan w job =
     (let (path, ck, off) = job in
      case file_open E fs path of
        Inl e \<Rightarrow>
          \<lparr>stream_out = w, send_events = [Disconnected (open_error_text E e)], send_control = []\<rparr>
      | Inr file \<Rightarrow>
          (let total = len_or_zero E fs path;
               (chunks, read) = read_chunks (read_stop plan) 0 (seek_to off file)
                                  (if ck \<and> off = 0 then Some [] else None) [];
               (sent, w', transferred) = write_chunks (write_stop plan) 0 chunks w off
           in case (sent, read) of
                (True, Some hasher) \<Rightarrow>
                  (let inline_hash = (case hasher of None \<Rightarrow> none_hash
                                      | Some bs \<Rightarrow> hex_digest (env_hash E) bs);
                       final_hash = (if ck \<and> 0 < off then full_file_hash E fs path else inline_hash)
                   in \<lparr>stream_out = w', send_events = [TransferProgress transferred total True],
                       send_control = [FileSent final_hash]\<rparr>)
              | _ \<Rightarrow> \<lparr>stream_out = w', send_events = [], send_control = []\<rparr>))"

section \<open>The receiver's job\<close>

text \<open>Task 4b: takes the announced number of bytes from the stream, chunk by chunk.\<close>

function recv_chunks :: "nat option \<Rightarrow> nat \<Rightarrow> source \<Rightarrow> nat \<Rightarrow> byte list list
    \<Rightarrow> bool \<times> byte list list \<times> source" where
  "recv_chunks stop i r remaining acc =
     (if remaining = 0 then (True, acc, r)
      else (case read_some r (min remaining FILE_CHUNK_SIZE) of
              Inl e \<Rightarrow> (False, acc, r)
            | Inr ([], r') \<Rightarrow> (False, acc, r')
            | Inr (b # bs, r') \<Rightarrow>
                if stop = Some i then (False, acc @ [b # bs], r')
                else recv_chunks stop (Suc i) r' (remaining - length (b # bs)) (acc @ [b # bs])))"
  by pat_completeness auto
termination
  by (relation "measure (\<lambda>(st, i, r, n, a). n)") auto

declare recv_chunks.simps [simp del]

lemma recv_chunks_0 [simp]: "recv_chunks stop i r 0 acc = (True, acc, r)"
  by (simp add: recv_chunks.simps)

definition overwrite :: "nat \<Rightarrow> byte list \<Rightarrow> byte list \<Rightarrow> byte list" where
  "overwrite pos bs c = resize pos c @ bs @ drop (pos + length bs) c"

definition write_at :: "string list \<Rightarrow> nat \<Rightarrow> byte list \<Rightarrow> fsys \<Rightarrow> fsys" where
  "write_at k pos bs fs = set_node k (Some (File (overwrite pos bs (file_content fs k)))) fs"

text \<open>Task 4a: writes the chunks from the position on; \<open>limit\<close> is what the disk still accepts.\<close>

fun disk_writer :: "nat option \<Rightarrow> string list \<Rightarrow> nat \<Rightarrow> byte list list \<Rightarrow> fsys \<Rightarrow> bool \<times> fsys" where
  "disk_writer limit k pos [] fs = (True, fs)"
| "disk_writer limit k pos (c # cs) fs =
     (case limit of
        None \<Rightarrow> disk_writer None k (pos + length c) cs (write_at k pos c fs)
      | Some q \<Rightarrow>
          if q < length c then (False, write_at k pos (take q c) fs)
          else disk_writer (Some (q - length c)) k (pos + length c) cs (write_at k pos c fs))"

text \<open>\<open>OpenOptions::new().read(true).write(true).create(true).truncate(false)\<close>\<close>

definition open_keep :: "string \<Rightarrow> string list fs_op" where
  "open_keep p fs =
     (case locate fs True p of
        Inl e \<Rightarrow> (Inl e, fs)
      | Inr k \<Rightarrow>
          (case node_at (nodes fs) k of
             Some (File _) \<Rightarrow> (Inr k, fs)
           | None \<Rightarrow> if wants_dir p then (Inl IsADirectory, fs)
                     else (Inr k, set_node k (Some (File [])) fs)
           | Some _ \<Rightarrow> (Inl IsADirectory, fs)))"

record recv_plan =
  net_stop :: "nat option"
  disk_limit :: "nat option"
  expected_hash :: "string option"

record recv_result =
  fs_after :: fsys
  stream_left :: source
  recv_events :: "PeerEvent list"
  recv_control :: "ControlMessage list"
  task_alive :: bool

definition recv_failed :: "file_transfer_status \<Rightarrow> PeerEvent list \<Rightarrow> fsys \<Rightarrow> source \<Rightarrow> recv_result" where
  "recv_failed status evs fs r =
     \<lparr>fs_after = fs, stream_left = r, recv_events = evs @ [TransferComplete status],
      recv_control = [ReceivedFileFailed], task_alive = False\<rparr>"

definition hash_matches :: "string \<Rightarrow> string \<Rightarrow> bool" where
  "hash_matches expected actual \<longleftrightarrow>
     expected = ''NONE'' \<or> expected = ''SKIP'' \<or> actual = ''NONE''
     \<or> eq_ignore_ascii_case actual expected"

definition write_target :: "recv_job \<Rightarrow> string" where
  "write_target job = (if use_part job then get_part_path (dest_path job) else dest_path job)"

definition open_target :: "recv_job \<Rightarrow> string list fs_op" where
  "open_target job =
     (if 0 < resume_offset job then open_keep (write_target job) else file_create (write_target job))"

text \<open>After the data: the hash that was announced is awaited, compared, and the file put in place.\<close>

definition finish_job :: "peer_env \<Rightarrow> recv_plan \<Rightarrow> recv_job \<Rightarrow> byte list option \<Rightarrow> fsys \<Rightarrow> source \<Rightarrow> recv_result" where
  "finish_job E plan job hasher fs r =
     (let inline_hash = (case hasher of None \<Rightarrow> none_hash | Some bs \<Rightarrow> hex_digest (env_hash E) bs);
          actual = (if job_checksum job \<and> 0 < resume_offset job
                    then full_file_hash E fs (write_target job) else inline_hash);
          done_evs = [TransferProgress (job_size job) (job_size job) True]
      in case expected_hash plan of
           None \<Rightarrow> \<lparr>fs_after = fs, stream_left = r, recv_events = [], recv_control = [], task_alive = True\<rparr>
         | Some expected \<Rightarrow>
             if hash_matches expected actual then
               (let (moved, fs') = (if use_part job then rename (write_target job) (dest_path job) fs
                                    else (Inr (), fs))
                in case moved of
                     Inl _ \<Rightarrow> recv_failed HashFailed done_evs fs' r
                   | Inr _ \<Rightarrow>
                       \<lparr>fs_after = fs', stream_left = r, recv_events = done_evs @ [TransferComplete Completed],
                        recv_control = [ReceivedFileOk], task_alive = True\<rparr>)
             else recv_failed HashFailed done_evs fs r)"

definition receive_job :: "peer_env \<Rightarrow> recv_plan \<Rightarrow> recv_job \<Rightarrow> fsys \<Rightarrow> source \<Rightarrow> recv_result" where
  "receive_job E plan job fs r =
     (let (made, fs) = (case parent (dest_path job) of None \<Rightarrow> (Inr (), fs) | Some q \<Rightarrow> create_dir_all q fs) in
      case made of
        Inl _ \<Rightarrow> recv_failed Etc [] fs r
      | Inr _ \<Rightarrow>
          (case open_target job fs of
             (Inl _, fs) \<Rightarrow> recv_failed Etc [] fs r
           | (Inr k, fs) \<Rightarrow>
               (let (ok, chunks, r) = recv_chunks (net_stop plan) 0 r
                                        (unat (job_size job) - unat (resume_offset job)) [];
                    (written_ok, fs) = disk_writer (disk_limit plan) k (unat (resume_offset job)) chunks fs
                in if \<not> (ok \<and> written_ok) then recv_failed Etc [] fs r
                   else finish_job E plan job
                          (if job_checksum job \<and> resume_offset job = 0 then Some (concat chunks) else None)
                          fs r)))"

section \<open>The loops, in terms of bytes\<close>

lemma read_chunks_eq:
  "\<exists>chunks. concat chunks = pending f \<and>
     read_chunks None i f h acc =
       (acc @ chunks, if broken f then None else Some (map_option (\<lambda>h. h @ pending f) h))"
proof (induction "length (pending f)" arbitrary: f h i acc rule: less_induct)
  case less
  show ?case
  proof (cases "pending f = []")
    case True
    then show ?thesis
      by (intro exI[of _ "[]"]) (cases h; simp add: read_chunks.simps[of None i f] read_some_Nil)
  next
    case False
    then obtain n where n: "0 < n" "n \<le> length (pending f)"
      "read_some f FILE_CHUNK_SIZE = Inr (take n (pending f), f\<lparr>pending := drop n (pending f)\<rparr>)"
      using read_some_cases[of f FILE_CHUNK_SIZE] by (auto simp: FILE_CHUNK_SIZE_def)
    then obtain b bs where bs: "take n (pending f) = b # bs" by (cases "take n (pending f)") auto
    let ?f = "f\<lparr>pending := drop n (pending f)\<rparr>"
    obtain chunks where c: "concat chunks = pending ?f"
      "read_chunks None (Suc i) ?f (map_option (\<lambda>h. h @ b # bs) h) (acc @ [b # bs]) =
        ((acc @ [b # bs]) @ chunks,
         if broken ?f then None else Some (map_option (\<lambda>h. h @ pending ?f) (map_option (\<lambda>h. h @ b # bs) h)))"
      using less(1)[of ?f] n by fastforce
    have "concat ((b # bs) # chunks) = pending f"
      using c(1) bs append_take_drop_id[of n "pending f"] by simp
    then show ?thesis
      using c n bs
      by (intro exI[of _ "(b # bs) # chunks"]) (cases h; simp add: read_chunks.simps[of None i f])
  qed
qed

lemma write_chunks_eq:
  "room w = None \<Longrightarrow>
     write_chunks None i cs w t =
       (True, w\<lparr>written := written w @ concat cs\<rparr>, t + word_of_nat (length (concat cs)))"
  by (induction cs arbitrary: i w t) (simp_all add: add.assoc)

lemma recv_chunks_eq:
  "\<exists>chunks. concat chunks = take n (pending r) \<and>
     recv_chunks None i r n acc =
       (n \<le> length (pending r), acc @ chunks, r\<lparr>pending := drop n (pending r)\<rparr>)"
proof (induction n arbitrary: r i acc rule: less_induct)
  case (less n)
  show ?case
  proof (cases "n = 0 \<or> pending r = []")
    case True
    then show ?thesis
      by (intro exI[of _ "[]"]) (auto simp: recv_chunks.simps[of None i r n] read_some_Nil)
  next
    case False
    then obtain k where k: "0 < k" "k \<le> n" "k \<le> length (pending r)"
      "read_some r (min n FILE_CHUNK_SIZE) = Inr (take k (pending r), r\<lparr>pending := drop k (pending r)\<rparr>)"
      using read_some_cases[of r "min n FILE_CHUNK_SIZE"] by (auto simp: FILE_CHUNK_SIZE_def)
    then obtain b bs where bs: "take k (pending r) = b # bs" by (cases "take k (pending r)") auto
    have len: "length (b # bs) = k" using k by (simp flip: bs)
    let ?r = "r\<lparr>pending := drop k (pending r)\<rparr>"
    obtain chunks where c: "concat chunks = take (n - k) (pending ?r)"
      "recv_chunks None (Suc i) ?r (n - k) (acc @ [b # bs]) =
        (n - k \<le> length (pending ?r), (acc @ [b # bs]) @ chunks, ?r\<lparr>pending := drop (n - k) (pending ?r)\<rparr>)"
      using less[of "n - k" ?r "Suc i" "acc @ [b # bs]"] k by auto
    have "concat ((b # bs) # chunks) = take n (pending r)"
      using c(1) bs k by simp (metis append_Cons le_add_diff_inverse take_add)
    then show ?thesis
      using c k bs len False
      by (intro exI[of _ "(b # bs) # chunks"]) (auto simp: recv_chunks.simps[of None i r n])
  qed
qed

text \<open>Whatever interrupts it, a reception that succeeds has taken exactly the announced bytes.\<close>

lemma recv_chunks_ok:
  "recv_chunks stop i r n acc = (True, chunks, r') \<Longrightarrow>
     n \<le> length (pending r) \<and> concat chunks = concat acc @ take n (pending r)
     \<and> r' = r\<lparr>pending := drop n (pending r)\<rparr>"
proof (induction stop i r n acc rule: recv_chunks.induct)
  case (1 stop i r n acc)
  show ?case
  proof (cases "n = 0 \<or> pending r = []")
    case True
    then show ?thesis using 1(2)
      by (auto simp: recv_chunks.simps[of stop i r n] read_some_Nil split: if_splits)
  next
    case False
    then obtain k where k: "0 < k" "k \<le> n" "k \<le> length (pending r)"
      "read_some r (min n FILE_CHUNK_SIZE) = Inr (take k (pending r), r\<lparr>pending := drop k (pending r)\<rparr>)"
      using read_some_cases[of r "min n FILE_CHUNK_SIZE"] by (auto simp: FILE_CHUNK_SIZE_def)
    then obtain b bs where bs: "take k (pending r) = b # bs" by (cases "take k (pending r)") auto
    have len: "length (b # bs) = k" using k by (simp flip: bs)
    have st: "stop \<noteq> Some i"
      using 1(2) False k bs by (auto simp: recv_chunks.simps[of stop i r n])
    have rec: "recv_chunks stop (Suc i) (r\<lparr>pending := drop k (pending r)\<rparr>) (n - length (b # bs)) (acc @ [b # bs])
        = (True, chunks, r')"
      using 1(2) False k bs st by (simp add: recv_chunks.simps[of stop i r n])
    have "n - k \<le> length (drop k (pending r))
      \<and> concat chunks = concat (acc @ [b # bs]) @ take (n - k) (drop k (pending r))
      \<and> r' = r\<lparr>pending := drop (n - k) (drop k (pending r))\<rparr>"
      using 1(1)[OF _ k(4) refl bs st] rec False len by simp
    moreover have "(b # bs) @ take (n - k) (drop k (pending r)) = take n (pending r)"
      using bs k by (metis le_add_diff_inverse take_add)
    ultimately show ?thesis using k by auto
  qed
qed

lemma length_resize [simp]: "length (resize n c) = n"
  by (simp add: resize_def)

lemma recv_chunks_no_stop:
  "recv_chunks stop i r n acc = (True, chunks, r') \<Longrightarrow> recv_chunks None i r n acc = (True, chunks, r')"
proof (induction stop i r n acc rule: recv_chunks.induct)
  case (1 stop i r n acc)
  show ?case
  proof (cases "n = 0")
    case True
    then show ?thesis using 1(2) by simp
  next
    case False
    show ?thesis
    proof (cases "read_some r (min n FILE_CHUNK_SIZE)")
      case (Inl e)
      then show ?thesis using 1(2) False by (simp add: recv_chunks.simps[of _ i r n])
    next
      case (Inr x)
      obtain bs r1 where x: "x = (bs, r1)" by (cases x)
      show ?thesis
      proof (cases bs)
        case Nil
        then show ?thesis using 1(2) False Inr x by (simp add: recv_chunks.simps[of _ i r n])
      next
        case (Cons b bs')
        then have st: "stop \<noteq> Some i" using 1(2) False Inr x by (auto simp: recv_chunks.simps[of _ i r n])
        then show ?thesis
          using 1(1)[OF False Inr x[symmetric] Cons st] 1(2) False Inr x Cons
          by (simp add: recv_chunks.simps[of _ i r n])
      qed
    qed
  qed
qed

lemma overwrite_append:
  "overwrite (pos + length a) b (overwrite pos a c) = overwrite pos (a @ b) c"
  by (simp add: overwrite_def resize_def[of "pos + length a"] add.commute add.left_commute)

lemma write_at_twice:
  assumes "nodes fs k = Some (File c)"
  shows "write_at k (pos + length a) b (write_at k pos a fs) = write_at k pos (a @ b) fs"
  using assms by (simp add: write_at_def file_content_def overwrite_append)

lemma disk_writer_eq:
  "nodes fs k = Some (File c) \<Longrightarrow> cs \<noteq> [] \<Longrightarrow>
     disk_writer None k pos cs fs = (True, write_at k pos (concat cs) fs)"
proof (induction cs arbitrary: pos fs c)
  case (Cons x cs)
  have f: "nodes (write_at k pos x fs) k = Some (File (overwrite pos x c))"
    using Cons.prems(1) by (simp add: write_at_def file_content_def)
  show ?case
  proof (cases "cs = []")
    case False
    then show ?thesis using Cons.IH[OF f False] write_at_twice[OF Cons.prems(1)] by simp
  qed simp
qed simp

section \<open>A reception that is not interrupted\<close>

lemma plain_part_name: "plain_name n \<Longrightarrow> plain_name (n @ PARTIAL_FILE_SUFFIX)"
  by (auto simp: plain_name_def PARTIAL_FILE_SUFFIX_def)

text \<open>The partial file is the sibling of the destination with the suffix.\<close>

lemma get_part_path_push:
  assumes "plain_name n"
  shows "\<exists>q. get_part_path (path_push dir n) = path_push q (n @ PARTIAL_FILE_SUFFIX)
     \<and> components q = components dir"
proof -
  obtain q where "parent (path_push dir n) = Some q" "components q = components dir"
    using parent_push[OF assms] by blast
  then show ?thesis
    using assms by (auto simp: get_part_path_def with_file_name_def file_name_push)
qed

definition target_name :: "recv_job \<Rightarrow> string \<Rightarrow> string" where
  "target_name job n = (if use_part job then n @ PARTIAL_FILE_SUFFIX else n)"

lemma write_target_push:
  assumes "dest_path job = path_push dir n" "plain_name n"
  shows "plain_name (target_name job n) \<and>
     (\<exists>q. write_target job = path_push q (target_name job n) \<and> components q = components dir)"
  using assms get_part_path_push[of n dir] plain_part_name[of n]
  by (auto simp: write_target_def target_name_def)

lemma open_keep_child:
  "dir_at fs p B \<Longrightarrow> plain_name s \<Longrightarrow> nodes fs (B @ [s]) = Some (File c) \<Longrightarrow>
     open_keep (path_push p s) fs = (Inr (B @ [s]), fs)"
  by (simp add: open_keep_def locate_child)

lemma disk_writer_content:
  assumes "nodes fs k = Some (File c)" "pos \<le> length c"
  shows "disk_writer None k pos cs fs =
     (True, set_node k (Some (File (take pos c @ concat cs @ drop (pos + length (concat cs)) c))) fs)"
proof (cases "cs = []")
  case True
  have "set_node k (Some (File c)) fs = fs" using assms(1) by (simp add: set_node_def fun_upd_idem)
  then show ?thesis using True by simp
next
  case False
  then show ?thesis
    using disk_writer_eq[OF assms(1) False] assms
    by (simp add: write_at_def file_content_def overwrite_def resize_def)
qed

lemma full_file_hash_child:
  assumes "dir_at fs p B" "plain_name s" "nodes fs (B @ [s]) = Some (File c)"
  shows "full_file_hash E fs (path_push p s) = hex_digest (env_hash E) c"
  using fs_metadata_child[OF assms(1,2)] assms(3)
  by (simp add: full_file_hash_def file_open_def ok_or_def compute_file_sha256_eq)

text \<open>What the job starts from: a target it may write, of at least the resumed length.\<close>

definition slot_ready :: "recv_job \<Rightarrow> node option \<Rightarrow> byte list \<Rightarrow> bool" where
  "slot_ready job v old \<longleftrightarrow>
     (if 0 < resume_offset job
      then v = Some (File old) \<and> unat (resume_offset job) \<le> length old
      else old = [] \<and> v \<noteq> Some Dir \<and> (\<forall>t. v \<noteq> Some (Symlink t)))"

definition new_content :: "recv_job \<Rightarrow> byte list \<Rightarrow> byte list \<Rightarrow> byte list" where
  "new_content job old data =
     take (unat (resume_offset job)) old @ data @ drop (unat (resume_offset job) + length data) old"

definition actual_hash :: "peer_env \<Rightarrow> recv_job \<Rightarrow> byte list \<Rightarrow> string" where
  "actual_hash E job c = (if job_checksum job then hex_digest (env_hash E) c else none_hash)"

definition free_run :: "string \<Rightarrow> recv_plan" where
  "free_run e = \<lparr>net_stop = None, disk_limit = None, expected_hash = Some e\<rparr>"

lemma open_target_ready:
  assumes d: "dir_at fs q B" and t: "plain_name t" "write_target job = path_push q t"
    and slot: "slot_ready job (nodes fs (B @ [t])) old"
  shows "\<exists>fs1. open_target job fs = (Inr (B @ [t]), fs1) \<and> nodes fs1 (B @ [t]) = Some (File old)
     \<and> (\<forall>v. set_node (B @ [t]) v fs1 = set_node (B @ [t]) v fs)"
proof (cases "0 < resume_offset job")
  case True
  then show ?thesis
    using open_keep_child[OF d t(1)] t(2) slot by (simp add: open_target_def slot_ready_def)
next
  case False
  then show ?thesis
    using file_create_child[OF d t(1)] t(2) slot by (simp add: open_target_def slot_ready_def)
qed

lemma receive_job_free:
  assumes d: "dir_at fs dir B" and n: "plain_name n" "dest_path job = path_push dir n"
    and slot: "slot_ready job (nodes fs (B @ [target_name job n])) old"
    and dst: "nodes fs (B @ [n]) \<noteq> Some Dir" "\<forall>t. nodes fs (B @ [n]) \<noteq> Some (Symlink t)"
    and p: "pending r = data @ rest" "unat (job_size job) = unat (resume_offset job) + length data"
  defines "c \<equiv> new_content job old data"
    and "evs \<equiv> [TransferProgress (job_size job) (job_size job) True]"
  shows "receive_job E (free_run e) job fs r =
     (if hash_matches e (actual_hash E job c)
      then \<lparr>fs_after = set_node (B @ [n]) (Some (File c))
              (if use_part job then set_node (B @ [target_name job n]) None fs else fs),
            stream_left = r\<lparr>pending := rest\<rparr>, recv_events = evs @ [TransferComplete Completed],
            recv_control = [ReceivedFileOk], task_alive = True\<rparr>
      else recv_failed HashFailed evs (set_node (B @ [target_name job n]) (Some (File c)) fs)
             (r\<lparr>pending := rest\<rparr>))"
proof -
  let ?t = "target_name job n" and ?off = "unat (resume_offset job)"
  obtain q where t: "plain_name ?t" "write_target job = path_push q ?t" "components q = components dir"
    using write_target_push[OF n(2,1)] by blast
  have dq: "dir_at fs' q B" if "dir_at fs' dir B" for fs' using that dir_at_components[OF t(3)] by simp
  obtain q0 where q0: "parent (path_push dir n) = Some q0" "components q0 = components dir"
    using parent_push[OF n(1)] by blast
  have mk: "create_dir_all q0 fs = (Inr (), fs)"
    using d dir_at_components[OF q0(2)] by (intro create_dir_all_existing) simp
  obtain fs1 where fs1: "open_target job fs = (Inr (B @ [?t]), fs1)" "nodes fs1 (B @ [?t]) = Some (File old)"
    "\<forall>v. set_node (B @ [?t]) v fs1 = set_node (B @ [?t]) v fs"
    using open_target_ready[OF dq[OF d] t(1,2) slot] by blast
  obtain chunks where ch: "concat chunks = data"
    "recv_chunks None 0 r (unat (job_size job) - ?off) [] = (True, chunks, r\<lparr>pending := rest\<rparr>)"
    using recv_chunks_eq[of "unat (job_size job) - ?off" r 0 "[]"] p by auto
  let ?fs2 = "set_node (B @ [?t]) (Some (File c)) fs"
  have len: "?off \<le> length old" using slot by (cases "0 < resume_offset job") (auto simp: slot_ready_def word_gt_0)
  have wr: "disk_writer None (B @ [?t]) ?off chunks fs1 = (True, ?fs2)"
    using disk_writer_content[OF fs1(2) len, of chunks] fs1(3) ch(1) by (simp add: c_def new_content_def)
  have g: "grows B fs ?fs2"
    using slot by (intro grows_set_node) (auto simp: slot_ready_def split: if_splits)
  have d2: "dir_at ?fs2 dir B" by (rule dir_at_grows[OF d g])
  have hash: "(if job_checksum job \<and> 0 < resume_offset job then full_file_hash E ?fs2 (write_target job)
      else (case (if job_checksum job \<and> resume_offset job = 0 then Some (concat chunks) else None) of
              None \<Rightarrow> none_hash | Some bs \<Rightarrow> hex_digest (env_hash E) bs)) = actual_hash E job c"
  proof (cases "0 < resume_offset job")
    case True
    then show ?thesis
      using full_file_hash_child[OF dq[OF d2] t(1), of c E] t(2) by (simp add: actual_hash_def)
  next
    case False
    then have z: "resume_offset job = 0" by (simp add: word_gt_0)
    then have "c = data" using slot by (simp add: c_def new_content_def slot_ready_def)
    then show ?thesis using z ch(1) by (simp add: actual_hash_def)
  qed
  have mv: "rename (write_target job) (dest_path job) ?fs2 =
      (Inr (), set_node (B @ [n]) (Some (File c)) (set_node (B @ [?t]) None fs))" if "use_part job"
  proof -
    have "n @ PARTIAL_FILE_SUFFIX \<noteq> n" by (simp add: PARTIAL_FILE_SUFFIX_def)
    then have "nodes ?fs2 (B @ [n]) \<noteq> Some Dir" using dst that by (simp add: target_name_def)
    then show ?thesis using rename_child[OF dq[OF d2] t(1) d2 n(1), of c] t(2) n(2) by simp
  qed
  have fin: "receive_job E (free_run e) job fs r =
      finish_job E (free_run e) job
        (if job_checksum job \<and> resume_offset job = 0 then Some (concat chunks) else None)
        ?fs2 (r\<lparr>pending := rest\<rparr>)"
    using mk q0 n(2) fs1(1) ch(2) wr by (simp add: receive_job_def free_run_def)
  show ?thesis
    unfolding fin finish_job_def hash Let_def
    using mv by (cases "use_part job") (simp_all add: free_run_def evs_def target_name_def)
qed

section \<open>A sending job that is not interrupted\<close>

definition free_send :: send_plan where
  "free_send = \<lparr>read_stop = None, write_stop = None\<rparr>"

definition sent_hash :: "peer_env \<Rightarrow> bool \<Rightarrow> byte list \<Rightarrow> string" where
  "sent_hash E ck c = (if ck then hex_digest (env_hash E) c else none_hash)"

lemma send_job_free:
  assumes f: "fs_metadata fs path = Inr (File c)" and w: "room w = None"
  shows "send_job E fs free_send w (path, ck, off) =
     \<lparr>stream_out = w\<lparr>written := written w @ drop (unat off) c\<rparr>,
      send_events = [TransferProgress (off + word_of_nat (length (drop (unat off) c)))
                       (word_of_nat (length c)) True],
      send_control = [FileSent (sent_hash E ck c)]\<rparr>"
proof -
  let ?f = "\<lparr>pending = c, grain = env_grain E, broken = False\<rparr>"
  let ?h = "if ck \<and> off = 0 then Some [] else None :: byte list option"
  have o: "file_open E fs path = Inr ?f" and l: "len_or_zero E fs path = word_of_nat (length c)"
    using f by (simp_all add: file_open_def len_or_zero_def node_len_def)
  obtain chunks where ch: "concat chunks = drop (unat off) c"
    "read_chunks None 0 (seek_to off ?f) ?h [] =
       (chunks, Some (map_option (\<lambda>h. h @ drop (unat off) c) ?h))"
    using read_chunks_eq[of "seek_to off ?f" 0 ?h "[]"] by (auto simp: seek_to_def)
  have wr: "write_chunks None 0 chunks w off =
      (True, w\<lparr>written := written w @ drop (unat off) c\<rparr>, off + word_of_nat (length (drop (unat off) c)))"
    using write_chunks_eq[OF w, of 0 chunks off] ch(1) by simp
  have full: "full_file_hash E fs path = hex_digest (env_hash E) c"
    using o by (simp add: full_file_hash_def compute_file_sha256_eq)
  show ?thesis
    using o l ch(2) wr full
    by (cases "ck \<and> off = 0") (auto simp: send_job_def free_send_def sent_hash_def word_gt_0)
qed

text \<open>However a sending job is interrupted, it announces a hash only after the whole rest was written.\<close>

lemma read_chunks_some:
  "read_chunks stop i f h acc = (chunks, Some h') \<Longrightarrow>
     concat chunks = concat acc @ pending f \<and> h' = map_option (\<lambda>h. h @ pending f) h"
proof (induction stop i f h acc rule: read_chunks.induct)
  case (1 stop i f h acc)
  show ?case
  proof (cases "pending f = []")
    case True
    then show ?thesis using 1(2)
      by (cases h) (auto simp: read_chunks.simps[of stop i f] read_some_Nil split: if_splits)
  next
    case False
    then obtain n where n: "0 < n" "n \<le> length (pending f)"
      "read_some f FILE_CHUNK_SIZE = Inr (take n (pending f), f\<lparr>pending := drop n (pending f)\<rparr>)"
      using read_some_cases[of f FILE_CHUNK_SIZE] by (auto simp: FILE_CHUNK_SIZE_def)
    then obtain b bs where bs: "take n (pending f) = b # bs" by (cases "take n (pending f)") auto
    have st: "stop \<noteq> Some i" using 1(2) by (auto simp: read_chunks.simps[of stop i f])
    have "read_chunks stop (Suc i) (f\<lparr>pending := drop n (pending f)\<rparr>)
        (map_option (\<lambda>h. h @ b # bs) h) (acc @ [b # bs]) = (chunks, Some h')"
      using 1(2) n bs st by (simp add: read_chunks.simps[of stop i f])
    then have "concat chunks = concat (acc @ [b # bs]) @ drop n (pending f)
      \<and> h' = map_option (\<lambda>h. h @ drop n (pending f)) (map_option (\<lambda>h. h @ b # bs) h)"
      using 1(1)[OF st n(3) refl bs] by simp
    then show ?thesis using bs append_take_drop_id[of n "pending f"] by (cases h) auto
  qed
qed

lemma write_chunks_ok:
  "write_chunks stop i cs w t = (True, w', t') \<Longrightarrow> written w' = written w @ concat cs"
proof (induction cs arbitrary: i w t)
  case (Cons c cs)
  then show ?case
    by (cases "write_all w c") (auto dest: write_all_written split: if_splits)
qed simp

lemma disk_writer_limit_ok:
  "disk_writer lim k pos cs fs = (True, fs') \<Longrightarrow> disk_writer None k pos cs fs = (True, fs')"
  by (induction cs arbitrary: lim pos fs) (auto split: option.splits if_splits)

text \<open>A reception that reports success went like an uninterrupted one.\<close>

lemma receive_job_ok_free:
  assumes "recv_control (receive_job E plan job fs r) = [ReceivedFileOk]"
  shows "\<exists>e. expected_hash plan = Some e
     \<and> receive_job E plan job fs r = receive_job E (free_run e) job fs r
     \<and> unat (job_size job) - unat (resume_offset job) \<le> length (pending r)"
proof -
  let ?n = "unat (job_size job) - unat (resume_offset job)"
  obtain made fs1 where mk: "(case parent (dest_path job) of None \<Rightarrow> (Inr (), fs)
      | Some q \<Rightarrow> create_dir_all q fs) = (made, fs1)" by fastforce
  obtain u where u: "made = Inr u"
    using assms mk by (cases made) (auto simp: receive_job_def recv_failed_def)
  obtain res fs2 where op: "open_target job fs1 = (res, fs2)" by fastforce
  obtain k where k: "res = Inr k"
    using assms mk u op by (cases res) (auto simp: receive_job_def recv_failed_def)
  obtain ok chunks r' where rc: "recv_chunks (net_stop plan) 0 r ?n [] = (ok, chunks, r')"
    using prod_cases3 by blast
  obtain wok fs3 where dw: "disk_writer (disk_limit plan) k (unat (resume_offset job)) chunks fs2 = (wok, fs3)"
    by fastforce
  let ?h = "if job_checksum job \<and> resume_offset job = 0 then Some (concat chunks) else None"
  have t: "ok" "wok" and fin: "receive_job E plan job fs r = finish_job E plan job ?h fs3 r'"
    using assms mk u op k rc dw by (auto simp: receive_job_def recv_failed_def split: if_splits)
  obtain e where e: "expected_hash plan = Some e"
    using assms unfolding fin by (cases "expected_hash plan") (auto simp: finish_job_def)
  have ok: "?n \<le> length (pending r)" "concat chunks = take ?n (pending r)" "r' = r\<lparr>pending := drop ?n (pending r)\<rparr>"
    using recv_chunks_ok[of "net_stop plan" 0 r ?n "[]" chunks r'] rc t by auto
  have rc': "recv_chunks None 0 r ?n [] = (True, chunks, r')"
    using recv_chunks_no_stop[of "net_stop plan" 0 r ?n "[]" chunks r'] rc t(1) by simp
  have dw': "disk_writer None k (unat (resume_offset job)) chunks fs2 = (True, fs3)"
    using disk_writer_limit_ok[of "disk_limit plan"] dw t(2) by simp
  have "receive_job E (free_run e) job fs r = finish_job E (free_run e) job ?h fs3 r'"
    using mk u op k rc' dw' by (simp add: receive_job_def free_run_def)
  also have "\<dots> = finish_job E plan job ?h fs3 r'" using e by (simp add: finish_job_def free_run_def)
  finally show ?thesis using e fin ok(1) by simp
qed

section \<open>The task loops\<close>

text \<open>
  Both tasks take their jobs in order. The sender goes on after any job; the receiver stops for
  good after a failed one, since the file stream has no frames to resynchronise on.
\<close>

fun send_task :: "peer_env \<Rightarrow> fsys \<Rightarrow> (send_plan \<times> string \<times> bool \<times> u64) list \<Rightarrow> sink
    \<Rightarrow> sink \<times> PeerEvent list \<times> ControlMessage list" where
  "send_task E fs [] w = (w, [], [])"
| "send_task E fs ((plan, job) # js) w =
     (let res = send_job E fs plan w job;
          (w', evs, ctl) = send_task E fs js (stream_out res)
      in (w', send_events res @ evs, send_control res @ ctl))"

fun receive_task :: "peer_env \<Rightarrow> (recv_plan \<times> recv_job) list \<Rightarrow> fsys \<Rightarrow> source
    \<Rightarrow> fsys \<times> PeerEvent list \<times> ControlMessage list" where
  "receive_task E [] fs r = (fs, [], [])"
| "receive_task E ((plan, job) # js) fs r =
     (let res = receive_job E plan job fs r in
      if task_alive res then
        (let (fs', evs, ctl) = receive_task E js (fs_after res) (stream_left res)
         in (fs', recv_events res @ evs, recv_control res @ ctl))
      else (fs_after res, recv_events res, recv_control res))"

section \<open>The control task\<close>

text \<open>
  Task 1 writes the queued texts in order until the token is cancelled (seen before message
  \<open>stop\<close>) or a write fails; the flag says that it was not stopped. Task 2 queues an empty text,
  the keep-alive, every two seconds.
\<close>

fun control_task :: "nat option \<Rightarrow> nat \<Rightarrow> string list \<Rightarrow> sink \<Rightarrow> bool \<times> sink" where
  "control_task stop i [] w = (stop \<noteq> Some i, w)"
| "control_task stop i (m # ms) w =
     (if stop = Some i then (False, w)
      else (case send_control_msg w m of
              Inl e \<Rightarrow> (False, w)
            | Inr w' \<Rightarrow> control_task stop (Suc i) ms w'))"

definition keep_alive :: string where
  "keep_alive = []"

section \<open>The same over MsQuic\<close>

text \<open>
  \<open>core/src/peer.rs\<close> repeats the code of \<open>peer_generic.rs\<close> for the streams of MsQuic; apart from
  the reason of a disconnection its functions are these.
\<close>

definition handle_accept_quic :: "peer_env \<Rightarrow> string \<Rightarrow> bool \<Rightarrow> bool \<Rightarrow> string \<Rightarrow> u64 \<Rightarrow> bool \<Rightarrow> coord \<Rightarrow> coord" where
  "handle_accept_quic = handle_accept"

definition send_control_message :: "sink \<Rightarrow> string \<Rightarrow> io_error + sink" where
  "send_control_message = send_control_msg"

definition read_control_message :: "source \<Rightarrow> control_error + (string option \<times> source)" where
  "read_control_message = read_control_msg"

definition quic_send_job :: "peer_env \<Rightarrow> fsys \<Rightarrow> send_plan \<Rightarrow> sink \<Rightarrow> string \<times> bool \<times> u64 \<Rightarrow> send_result" where
  "quic_send_job = send_job"

definition quic_receive_job :: "peer_env \<Rightarrow> recv_plan \<Rightarrow> recv_job \<Rightarrow> fsys \<Rightarrow> source \<Rightarrow> recv_result" where
  "quic_receive_job = receive_job"

definition quic_finish_job :: "peer_env \<Rightarrow> recv_plan \<Rightarrow> recv_job \<Rightarrow> byte list option \<Rightarrow> fsys \<Rightarrow> source \<Rightarrow> recv_result" where
  "quic_finish_job = finish_job"

definition quic_on_control :: "peer_env \<Rightarrow> ControlMessage \<Rightarrow> coord \<Rightarrow> coord" where
  "quic_on_control = on_control"

definition quic_on_command :: "peer_env \<Rightarrow> PeerCommand \<Rightarrow> coord \<Rightarrow> coord option" where
  "quic_on_command = on_command"

end
