(* ===== verification/Peer_Session.thy ===== *)
theory Peer_Session
  imports Peer_Tasks
begin

text \<open>
  Two peers together: the control texts of one are the input of the other, the bytes of the
  sender's job are the stream of the receiver's job. The lemmas evaluate the two protocols of a
  transfer, the fresh one and the one that resumes a partial file.
\<close>

definition texts :: "peer_env \<Rightarrow> ControlMessage list \<Rightarrow> loop_input list" where
  "texts E ms = map (\<lambda>m. Received (Inr (Some (serialize (env_json E) m)))) ms"

definition after :: "peer_env \<Rightarrow> loop_input list \<Rightarrow> coord \<Rightarrow> coord" where
  "after E is s = fst (run_loop E is s)"

lemma serialize_not_Nil [simp]: "serialize J m \<noteq> []"
  by (cases m) simp_all

lemma on_message_serialize:
  "json_ok (env_json E) m \<Longrightarrow> on_message E (serialize (env_json E) m) s = on_control E m s"
  by (simp add: on_message_def parse_serialize)

lemma after_Nil [simp]: "after E [] s = s"
  by (simp add: after_def)

lemma after_text [simp]:
  "json_ok (env_json E) m \<Longrightarrow> after E (texts E (m # ms)) s = after E (texts E ms) (on_control E m s)"
  "after E (texts E []) s = s"
  by (simp_all add: after_def texts_def loop_turn_def on_message_serialize)

lemma after_command:
  "on_command E c s = Some s' \<Longrightarrow> after E (Command (Some c) # is) s = after E is s'"
  by (simp add: after_def loop_turn_def)

text \<open>The offered file: a regular file with a name that is not changed by the receiver's cleaning.\<close>

definition offerable :: "fsys \<Rightarrow> string \<Rightarrow> string \<Rightarrow> byte list \<Rightarrow> bool" where
  "offerable fs path name c \<longleftrightarrow>
     fs_metadata fs path = Inr (File c) \<and> file_name path = Some name \<and> utf8_valid name
     \<and> clean_text name = name \<and> length c < 2 ^ 64"

definition offer_of :: "string \<Rightarrow> byte list \<Rightarrow> bool \<Rightarrow> bool \<Rightarrow> ControlMessage" where
  "offer_of name c resum ck = Metadata name (word_of_nat (length c)) resum ck"

lemma send_command:
  assumes "offerable fs path name c"
  shows "on_command E (SendFile path ck resum) (initial_coord fs) =
     Some (queue_control (offer_of name c resum ck) (emit_event (TransferInitiationChanged True)
       ((initial_coord fs)\<lparr>pending_send_path := Some (path, ck, resum)\<rparr>)))"
  using assms
  by (simp add: on_command_def offerable_def initial_coord_def node_len_def base_name_def
      offer_of_def utf8_lossy_valid)

lemma accept_dest_name:
  assumes "plain_name name" "utf8_valid name" "clean_text name = name"
  shows "accept_dest dir name = path_push (clean_text dir) name"
  using assms components_plain[of name]
  by (simp add: accept_dest_def base_name_def file_name_def utf8_lossy_valid)

definition fresh_job :: "string \<Rightarrow> string \<Rightarrow> u64 \<Rightarrow> bool \<Rightarrow> recv_job" where
  "fresh_job dir name sz ck =
     \<lparr>dest_path = path_push (clean_text dir) name, job_size = sz, job_checksum = ck,
      resume_offset = 0, use_part = (RESUME_THRESHOLD_BYTES \<le> sz)\<rparr>"

text \<open>An offer that is not resumed is accepted with a job from offset zero and \<open>Ready\<close>.\<close>

lemma handle_accept_fresh:
  assumes n: "plain_name name" "utf8_valid name" "clean_text name = name"
    and r: "\<not> (offered \<and> resum) \<or> sz < RESUME_THRESHOLD_BYTES"
  shows "control_tx (handle_accept E dir ck resum name sz offered s) = control_tx s @ [Ready]
     \<and> recv_file_trigger (handle_accept E dir ck resum name sz offered s)
         = recv_file_trigger s @ [fresh_job dir name sz ck]
     \<and> local_fs (handle_accept E dir ck resum name sz offered s) = local_fs s"
  using accept_dest_name[OF n] r
  by (auto simp: handle_accept_def Let_def queue_defs fresh_job_def)

lemma accept_then_offer:
  assumes n: "plain_name name" "utf8_valid name" "clean_text name = name"
    and r: "\<not> (rA \<and> rB) \<or> word_of_nat (length c) < RESUME_THRESHOLD_BYTES"
    and j: "json_ok (env_json E) (offer_of name c rA ck)"
    and b_def: "b = after E (Command (Some (AcceptFile dir ck' rB)) # texts E [offer_of name c rA ck])
                 (initial_coord fs)"
  shows "control_tx b = [Ready]" "local_fs b = fs"
    "recv_file_trigger b = [fresh_job dir name (word_of_nat (length c)) ck']"
proof -
  let ?s = "(initial_coord fs)\<lparr>pending_accept := Some (dir, ck', rB)\<rparr>"
  have "on_command E (AcceptFile dir ck' rB) (initial_coord fs) = Some ?s"
    by (simp add: on_command_def initial_coord_def)
  then have b: "b = on_control E (offer_of name c rA ck) ?s"
    using j by (simp add: b_def after_command)
  show "control_tx b = [Ready]" "local_fs b = fs"
    "recv_file_trigger b = [fresh_job dir name (word_of_nat (length c)) ck']"
    using handle_accept_fresh[OF n r] 
    by (simp_all add: b on_control_def offer_of_def on_metadata_def Let_def queue_defs initial_coord_def)
qed

lemma ready_starts_sending:
  assumes "offerable fs path name c"
  shows "send_file_trigger (after E (texts E [Ready])
      (after E [Command (Some (SendFile path ck resum))] (initial_coord fs))) = [(path, ck, 0)]"
    "control_tx (after E [Command (Some (SendFile path ck resum))] (initial_coord fs))
       = [offer_of name c resum ck]"
  using send_command[OF assms, of E ck resum]
  by (simp_all add: after_command on_control_def on_ready_def queue_defs initial_coord_def)

lemma hash_matches_sent: "hash_matches (sent_hash E ck c) (if ck' then hex_digest (env_hash E) c else none_hash)"
  by (cases ck; cases ck') (simp_all add: hash_matches_def sent_hash_def none_hash_def)

text \<open>The receiving side may write the file and, for large files, its partial sibling.\<close>

definition free_slot :: "fsys \<Rightarrow> string list \<Rightarrow> bool" where
  "free_slot fs k \<longleftrightarrow> nodes fs k \<noteq> Some Dir \<and> (\<forall>t. nodes fs k \<noteq> Some (Symlink t))"

lemma fresh_job_delivers:
  assumes d: "dir_at fs (clean_text dir) B" and n: "plain_name name"
    and slots: "free_slot fs (B @ [name])" "free_slot fs (B @ [name @ PARTIAL_FILE_SUFFIX])"
    and len: "length c < 2 ^ 64" and p: "pending r = c @ rest"
    and job_def: "job = fresh_job dir name (word_of_nat (length c)) ck'"
  shows "\<exists>evs. receive_job E (free_run (sent_hash E ck c)) job fs r =
     \<lparr>fs_after = set_node (B @ [name]) (Some (File c))
        (if use_part job then set_node (B @ [name @ PARTIAL_FILE_SUFFIX]) None fs else fs),
      stream_left = r\<lparr>pending := rest\<rparr>, recv_events = evs @ [TransferComplete Completed],
      recv_control = [ReceivedFileOk], task_alive = True\<rparr>"
proof -
  have sz: "unat (word_of_nat (length c) :: u64) = length c" using len by (intro unat_word_of_nat) simp
  have slot: "slot_ready job (nodes fs (B @ [target_name job name])) []"
    using slots by (simp add: slot_ready_def job_def fresh_job_def free_slot_def target_name_def)
  have "hash_matches (sent_hash E ck c) (actual_hash E job (new_content job [] c))"
    using hash_matches_sent[of E ck c ck'] by (simp add: actual_hash_def new_content_def job_def fresh_job_def)
  then show ?thesis
    using receive_job_free[OF d n, of job "[]" r c rest E "sent_hash E ck c"] slot slots p sz
    by (auto simp: job_def fresh_job_def free_slot_def new_content_def target_name_def)
qed

section \<open>Resuming\<close>

text \<open>A read of a regular file returns what was asked for, as far as there is that much.\<close>

definition full_reads :: "peer_env \<Rightarrow> bool" where
  "full_reads E \<longleftrightarrow> (\<forall>n. n \<le> env_grain E n)"

lemma prefix_hash_full:
  assumes "full_reads E" "fs_metadata fs p = Inr (File c)"
  shows "prefix_hash_of E fs p = Some (hex_digest (env_hash E) (take RESUME_FINGERPRINT_SIZE c))"
proof -
  let ?f = "\<lparr>pending = c, grain = env_grain E, broken = False\<rparr>"
  have "\<exists>f'. read_some ?f RESUME_FINGERPRINT_SIZE = Inr (take RESUME_FINGERPRINT_SIZE c, f')"
  proof (cases "c = []")
    case False
    have "length c \<le> max 1 (env_grain E (length c))" using assms(1) by (simp add: full_reads_def le_max_iff_disj)
    then show ?thesis using False
      by (auto simp: read_some_def Let_def min_absorb1 min_def)
  qed (simp add: read_some_Nil)
  then show ?thesis using assms(2)
    by (auto simp: prefix_hash_of_def file_open_def compute_prefix_hash_def)
qed

definition part_job :: "string \<Rightarrow> string \<Rightarrow> u64 \<Rightarrow> bool \<Rightarrow> u64 \<Rightarrow> recv_job" where
  "part_job dir name sz ck off =
     \<lparr>dest_path = path_push (clean_text dir) name, job_size = sz, job_checksum = ck,
      resume_offset = off, use_part = True\<rparr>"

text \<open>The state of the receiving side: a partial file of content \<open>pc\<close> next to the destination.\<close>

definition has_part :: "fsys \<Rightarrow> string \<Rightarrow> string list \<Rightarrow> string \<Rightarrow> byte list \<Rightarrow> bool" where
  "has_part fs dir B name pc \<longleftrightarrow>
     dir_at fs (clean_text dir) B \<and> nodes fs (B @ [name @ PARTIAL_FILE_SUFFIX]) = Some (File pc)
     \<and> free_slot fs (B @ [name]) \<and> length pc < 2 ^ 64"

definition resume_from :: "byte list \<Rightarrow> byte list \<Rightarrow> u64" where
  "resume_from pc c = aligned_offset (word_of_nat (length pc)) (word_of_nat (length c))"

lemma resume_from_le:
  assumes "length pc < 2 ^ 64" "length c < 2 ^ 64"
  shows "unat (resume_from pc c) \<le> length c" "unat (resume_from pc c) \<le> length pc"
proof -
  have u: "unat (word_of_nat (length c) :: u64) = length c" "unat (word_of_nat (length pc) :: u64) = length pc"
    using assms by (simp_all add: unat_word_of_nat)
  show "unat (resume_from pc c) \<le> length c"
    using aligned_offset_props(1)[of "word_of_nat (length pc)" "word_of_nat (length c)"] u
    by (simp add: resume_from_def word_le_nat_alt)
  have "(x div y) * y \<le> x" for x y :: u64
    by (simp add: word_le_nat_alt unat_div)
      (metis div_times_less_eq_dividend le_unat_uoi unat_div word_arith_nat_mult)
  then have "resume_from pc c \<le> word_of_nat (length pc)"
    by (simp add: resume_from_def aligned_offset_def Let_def)
  then show "unat (resume_from pc c) \<le> length pc" using u by (simp add: word_le_nat_alt)
qed

lemma set_file_len_child:
  assumes "dir_at fs p B" "plain_name s" "nodes fs (B @ [s]) = Some (File c)"
  shows "set_file_len (path_push p s) n fs = set_node (B @ [s]) (Some (File (resize n c))) fs"
  using assms by (simp add: set_file_len_def locate_child)

text \<open>The receiver offers to resume at the aligned length of its partial file.\<close>

lemma handle_accept_resume:
  assumes n: "plain_name name" "utf8_valid name" "clean_text name = name"
    and part: "has_part (local_fs s) dir B name pc" and big: "RESUME_THRESHOLD_BYTES \<le> sz"
    and off: "off = aligned_offset (word_of_nat (length pc)) sz" "0 < off" "unat off \<le> length pc"
    and full: "full_reads E"
    and s'_def: "s' = handle_accept E dir ck True name sz True s"
  shows "control_tx s' = control_tx s
       @ [ResumeReady off (Some (hex_digest (env_hash E) (take RESUME_FINGERPRINT_SIZE (take (unat off) pc))))]"
    and "pending_resume_recv s' = Some (part_job dir name sz ck off)"
    and "recv_file_trigger s' = recv_file_trigger s"
    and "local_fs s' = set_node (B @ [name @ PARTIAL_FILE_SUFFIX]) (Some (File (take (unat off) pc))) (local_fs s)"
    and "\<exists>q. current_part_path s' = Some (path_push q (name @ PARTIAL_FILE_SUFFIX)) \<and> components q = components (clean_text dir)"
proof -
  let ?pn = "name @ PARTIAL_FILE_SUFFIX" and ?dir = "clean_text dir"
  let ?part = "get_part_path (path_push ?dir name)"
  obtain q where q: "?part = path_push q ?pn" "components q = components ?dir"
    using get_part_path_push[OF n(1)] by blast
  have pn: "plain_name ?pn" by (rule plain_part_name[OF n(1)])
  have dq: "dir_at (local_fs s) q B" "nodes (local_fs s) (B @ [?pn]) = Some (File pc)"
    using part dir_at_components[OF q(2)] by (auto simp: has_part_def)
  have md: "fs_metadata (local_fs s) ?part = Inr (File pc)"
    using fs_metadata_child[OF dq(1) pn] dq(2) q(1) by (simp add: ok_or_def)
  let ?fs = "set_node (B @ [?pn]) (Some (File (take (unat off) pc))) (local_fs s)"
  have cut: "set_file_len ?part (unat off) (local_fs s) = ?fs"
    using set_file_len_child[OF dq(1) pn dq(2)] off(3) q(1) by (simp add: resize_def)
  have g: "grows B (local_fs s) ?fs" using dq(2) by (intro grows_set_node) simp_all
  have "fs_metadata ?fs ?part = Inr (File (take (unat off) pc))"
    using fs_metadata_child[OF dir_at_grows[OF dq(1) g] pn] q(1) by (simp add: ok_or_def)
  then have fp: "prefix_hash_of E ?fs ?part
      = Some (hex_digest (env_hash E) (take RESUME_FINGERPRINT_SIZE (take (unat off) pc)))"
    by (rule prefix_hash_full[OF full])
  have ev: "s' = queue_control (ResumeReady off (Some (hex_digest (env_hash E)
          (take RESUME_FINGERPRINT_SIZE (take (unat off) pc)))))
        (s\<lparr>current_part_path := Some ?part, local_fs := ?fs,
           pending_resume_recv := Some (part_job dir name sz ck off)\<rparr>)"
    using md cut fp big off(1,2) accept_dest_name[OF n]
    by (simp add: s'_def handle_accept_def Let_def path_exists_def len_or_zero_def node_len_def
        part_job_def[symmetric])
  show "control_tx s' = control_tx s
       @ [ResumeReady off (Some (hex_digest (env_hash E) (take RESUME_FINGERPRINT_SIZE (take (unat off) pc))))]"
    "pending_resume_recv s' = Some (part_job dir name sz ck off)"
    "recv_file_trigger s' = recv_file_trigger s"
    "local_fs s' = ?fs"
    "\<exists>q. current_part_path s' = Some (path_push q ?pn) \<and> components q = components ?dir"
    using q by (auto simp: ev queue_defs)
qed

text \<open>The sender resumes if its own prefix has the fingerprint, and restarts otherwise.\<close>

lemma resume_decision:
  assumes f: "offerable fs path name c" and off: "0 < off" and full: "full_reads E"
    and a_def: "a = after E [Command (Some (SendFile path ck True))] (initial_coord fs)"
  shows "on_control E (ResumeReady off (Some h)) a =
     (if hex_digest (env_hash E) (take RESUME_FINGERPRINT_SIZE c) = h
      then trigger_send (path, ck, off) (queue_control ResumeOk (a\<lparr>pending_send_path := None\<rparr>))
      else queue_control RestartFromZero (a\<lparr>pending_send_path := Some (path, ck, False)\<rparr>))"
proof -
  have a: "a = queue_control (offer_of name c True ck) (emit_event (TransferInitiationChanged True)
       ((initial_coord fs)\<lparr>pending_send_path := Some (path, ck, True)\<rparr>))"
    using send_command[OF f, of E ck True] by (simp add: a_def after_command)
  have md: "fs_metadata fs path = Inr (File c)" using f by (simp add: offerable_def)
  show ?thesis
    using off prefix_hash_full[OF full md]
    by (simp add: a on_control_def on_resume_ready_def Let_def queue_defs initial_coord_def)
qed

lemma resume_job_delivers:
  assumes d: "dir_at fs (clean_text dir) B" and n: "plain_name name"
    and slot: "nodes fs (B @ [name @ PARTIAL_FILE_SUFFIX]) = Some (File (take (unat off) c))"
    and dst: "free_slot fs (B @ [name])"
    and len: "length c < 2 ^ 64" "unat off \<le> length c" "0 < off" and p: "pending r = drop (unat off) c @ rest"
    and job_def: "job = part_job dir name (word_of_nat (length c)) ck' off"
  shows "\<exists>evs. receive_job E (free_run (sent_hash E ck c)) job fs r =
     \<lparr>fs_after = set_node (B @ [name]) (Some (File c)) (set_node (B @ [name @ PARTIAL_FILE_SUFFIX]) None fs),
      stream_left = r\<lparr>pending := rest\<rparr>, recv_events = evs @ [TransferComplete Completed],
      recv_control = [ReceivedFileOk], task_alive = True\<rparr>"
proof -
  have sz: "unat (word_of_nat (length c) :: u64) = length c" using len by (intro unat_word_of_nat) simp
  have slot': "slot_ready job (nodes fs (B @ [target_name job name])) (take (unat off) c)"
    using slot len by (simp add: slot_ready_def job_def part_job_def target_name_def)
  have new: "new_content job (take (unat off) c) (drop (unat off) c) = c"
    using len by (simp add: new_content_def job_def part_job_def)
  have "hash_matches (sent_hash E ck c) (actual_hash E job c)"
    using hash_matches_sent[of E ck c ck'] by (simp add: actual_hash_def job_def part_job_def)
  then show ?thesis
    using receive_job_free[OF d n, of job "take (unat off) c" r "drop (unat off) c" rest E "sent_hash E ck c"]
      slot' dst p sz new len
    by (auto simp: job_def part_job_def free_slot_def target_name_def)
qed

section \<open>Whole sessions\<close>

text \<open>
  A session: the sender offers a file, the receiver accepts, and the control messages go back and
  forth until both have started their job; then the jobs run, joined by the file stream and the
  announced hash. \<open>None\<close> means that the two sides did not agree on one job each.
\<close>

definition news :: "coord \<Rightarrow> coord \<Rightarrow> ControlMessage list" where
  "news s s' = drop (length (control_tx s)) (control_tx s')"

record session =
  sender_fs :: fsys
  receiver_fs :: fsys
  send_path :: string
  save_directory :: string
  sender_checksum :: bool
  receiver_checksum :: bool
  sender_resume :: bool
  receiver_resume :: bool
  stream_grain :: "nat \<Rightarrow> nat"
  stream_rest :: "byte list"

definition offer_state :: "peer_env \<Rightarrow> session \<Rightarrow> coord" where
  "offer_state E S =
     after E [Command (Some (SendFile (send_path S) (sender_checksum S) (sender_resume S)))]
       (initial_coord (sender_fs S))"

definition accept_state :: "peer_env \<Rightarrow> session \<Rightarrow> coord" where
  "accept_state E S =
     after E (Command (Some (AcceptFile (save_directory S) (receiver_checksum S) (receiver_resume S)))
                # texts E (control_tx (offer_state E S)))
       (initial_coord (receiver_fs S))"

definition run_jobs :: "peer_env \<Rightarrow> session \<Rightarrow> coord \<Rightarrow> coord \<Rightarrow> recv_result option" where
  "run_jobs E S a b =
     (case (send_file_trigger a, recv_file_trigger b) of
        ([sjob], [rjob]) \<Rightarrow>
          (let res = send_job E (sender_fs S) free_send \<lparr>written = [], room = None\<rparr> sjob in
           (case send_control res of
              [FileSent h] \<Rightarrow>
                Some (receive_job E (free_run h) rjob (local_fs b)
                  \<lparr>pending = written (stream_out res) @ stream_rest S, grain = stream_grain S,
                   broken = False\<rparr>)
            | _ \<Rightarrow> None))
      | _ \<Rightarrow> None)"

definition transfer_session :: "peer_env \<Rightarrow> session \<Rightarrow> recv_result option" where
  "transfer_session E S =
     (let a1 = offer_state E S;
          b1 = accept_state E S;
          a2 = after E (texts E (control_tx b1)) a1;
          b2 = after E (texts E (news a1 a2)) b1;
          a3 = after E (texts E (news b1 b2)) a2
      in run_jobs E S a3 b2)"

text \<open>The file has arrived with content \<open>c\<close> and nothing else has changed but the partial file.\<close>

definition arrived :: "fsys \<Rightarrow> string list \<Rightarrow> string \<Rightarrow> byte list \<Rightarrow> recv_result \<Rightarrow> bool" where
  "arrived fs B name c out \<longleftrightarrow>
     recv_control out = [ReceivedFileOk] \<and> last (recv_events out) = TransferComplete Completed
     \<and> nodes (fs_after out) (B @ [name]) = Some (File c)
     \<and> (\<forall>k. k \<noteq> B @ [name] \<and> k \<noteq> B @ [name @ PARTIAL_FILE_SUFFIX] \<longrightarrow>
            nodes (fs_after out) k = nodes fs k)"

lemma run_jobs_eq:
  assumes "fs_metadata (sender_fs S) path = Inr (File c)"
    and "send_file_trigger a = [(path, ck, off)]" "recv_file_trigger b = [rjob]"
  shows "run_jobs E S a b = Some (receive_job E (free_run (sent_hash E ck c)) rjob (local_fs b)
     \<lparr>pending = drop (unat off) c @ stream_rest S, grain = stream_grain S, broken = False\<rparr>)"
  using assms send_job_free[OF assms(1), of "\<lparr>written = [], room = None\<rparr>" E ck off]
  by (simp add: run_jobs_def Let_def)

lemma offer_state_eq:
  assumes "offerable (sender_fs S) (send_path S) name c"
  shows "offer_state E S = queue_control (offer_of name c (sender_resume S) (sender_checksum S))
     (emit_event (TransferInitiationChanged True) ((initial_coord (sender_fs S))
       \<lparr>pending_send_path := Some (send_path S, sender_checksum S, sender_resume S)\<rparr>))"
  using send_command[OF assms, of E] by (simp add: offer_state_def after_command)

lemma offerable_name:
  "offerable fs p name c \<Longrightarrow> plain_name name \<and> utf8_valid name \<and> clean_text name = name \<and> length c < 2 ^ 64"
  using file_name_plain[of p name] by (simp add: offerable_def)

lemma session_fresh:
  assumes o: "offerable (sender_fs S) (send_path S) name c"
    and j: "json_ok (env_json E) (offer_of name c (sender_resume S) (sender_checksum S))"
    and d: "dir_at (receiver_fs S) (clean_text (save_directory S)) B"
    and slots: "free_slot (receiver_fs S) (B @ [name])"
      "free_slot (receiver_fs S) (B @ [name @ PARTIAL_FILE_SUFFIX])"
    and r: "\<not> (sender_resume S \<and> receiver_resume S) \<or> word_of_nat (length c) < RESUME_THRESHOLD_BYTES"
  shows "\<exists>out. transfer_session E S = Some out \<and> arrived (receiver_fs S) B name c out"
proof -
  note n = offerable_name[OF o]
  let ?a1 = "offer_state E S" and ?b1 = "accept_state E S"
  let ?job = "fresh_job (save_directory S) name (word_of_nat (length c)) (receiver_checksum S)"
  have ctl: "control_tx ?a1 = [offer_of name c (sender_resume S) (sender_checksum S)]"
    using offer_state_eq[OF o, of E] by (simp add: queue_defs initial_coord_def)
  have b: "control_tx ?b1 = [Ready]" "local_fs ?b1 = receiver_fs S" "recv_file_trigger ?b1 = [?job]"
    using accept_then_offer[of name "sender_resume S" "receiver_resume S" c E "sender_checksum S" ?b1
        "save_directory S" "receiver_checksum S" "receiver_fs S"] n r j
    by (simp_all add: accept_state_def ctl)
  let ?a2 = "on_control E Ready ?a1"
  have a2: "control_tx ?a2 = control_tx ?a1"
    "send_file_trigger ?a2 = [(send_path S, sender_checksum S, 0)]"
    by (simp_all add: offer_state_eq[OF o] on_control_def on_ready_def queue_defs initial_coord_def)
  have "transfer_session E S = run_jobs E S ?a2 ?b1"
    using b a2(1) by (simp add: transfer_session_def Let_def news_def)
  also have "\<dots> = Some (receive_job E (free_run (sent_hash E (sender_checksum S) c)) ?job (receiver_fs S)
      \<lparr>pending = c @ stream_rest S, grain = stream_grain S, broken = False\<rparr>)"
    using run_jobs_eq[of S "send_path S" c ?a2 "sender_checksum S" 0 ?b1 ?job E] o a2(2) b
    by (simp add: offerable_def)
  finally show ?thesis
    using fresh_job_delivers[OF d _ slots, of c "\<lparr>pending = c @ stream_rest S, grain = stream_grain S,
        broken = False\<rparr>" "stream_rest S" ?job "receiver_checksum S" E "sender_checksum S"] n
    by (auto simp: arrived_def)
qed

text \<open>A session in which both sides resume a partial file of the receiver.\<close>

definition resumable :: "peer_env \<Rightarrow> session \<Rightarrow> string list \<Rightarrow> string \<Rightarrow> byte list \<Rightarrow> byte list \<Rightarrow> bool" where
  "resumable E S B name c pc \<longleftrightarrow>
     offerable (sender_fs S) (send_path S) name c
     \<and> json_ok (env_json E) (offer_of name c True (sender_checksum S))
     \<and> sender_resume S \<and> receiver_resume S \<and> RESUME_THRESHOLD_BYTES \<le> (word_of_nat (length c) :: u64)
     \<and> has_part (receiver_fs S) (save_directory S) B name pc \<and> 0 < resume_from pc c \<and> full_reads E
     \<and> json_ok (env_json E) (ResumeReady (resume_from pc c)
          (Some (hex_digest (env_hash E) (take RESUME_FINGERPRINT_SIZE (take (unat (resume_from pc c)) pc)))))"

abbreviation fingerprint :: "peer_env \<Rightarrow> byte list \<Rightarrow> string" where
  "fingerprint E c \<equiv> hex_digest (env_hash E) (take RESUME_FINGERPRINT_SIZE c)"

lemma resume_accepted:
  assumes r: "resumable E S B name c pc"
  defines "off \<equiv> resume_from pc c" and "b \<equiv> accept_state E S"
  shows "control_tx b = [ResumeReady off (Some (fingerprint E (take (unat off) pc)))]"
    "pending_resume_recv b
       = Some (part_job (save_directory S) name (word_of_nat (length c)) (receiver_checksum S) off)"
    "recv_file_trigger b = []"
    "local_fs b = set_node (B @ [name @ PARTIAL_FILE_SUFFIX]) (Some (File (take (unat off) pc))) (receiver_fs S)"
    "\<exists>q. current_part_path b = Some (path_push q (name @ PARTIAL_FILE_SUFFIX))
       \<and> components q = components (clean_text (save_directory S))"
proof -
  have o: "offerable (sender_fs S) (send_path S) name c" using r by (simp add: resumable_def)
  note n = offerable_name[OF o]
  have len: "length pc < 2 ^ 64" "length c < 2 ^ 64" using r n by (auto simp: resumable_def has_part_def)
  define s1 where "s1 = (emit_event (FileOffered name (word_of_nat (length c)) True (sender_checksum S))
      (emit_event (TransferInitiationChanged True)
      ((initial_coord (receiver_fs S))\<lparr>offered_file_name := Some name,
         offered_file_size := Some (word_of_nat (length c)), offered_resume := True\<rparr>)))
      \<lparr>pending_accept := None, offered_file_name := None, offered_file_size := None\<rparr>"
  have ctl: "control_tx (offer_state E S) = [offer_of name c True (sender_checksum S)]"
    using offer_state_eq[OF o, of E] r by (simp add: queue_defs initial_coord_def resumable_def)
  have cmd: "on_command E (AcceptFile (save_directory S) (receiver_checksum S) True) (initial_coord (receiver_fs S))
      = Some ((initial_coord (receiver_fs S))\<lparr>pending_accept := Some (save_directory S, receiver_checksum S, True)\<rparr>)"
    by (simp add: on_command_def initial_coord_def)
  have b: "b = handle_accept E (save_directory S) (receiver_checksum S) True name (word_of_nat (length c)) True s1"
    using r cmd
    by (simp add: b_def accept_state_def ctl after_command resumable_def on_control_def offer_of_def
        on_metadata_def Let_def queue_defs s1_def initial_coord_def)
  have s1: "local_fs s1 = receiver_fs S" "control_tx s1 = []" "recv_file_trigger s1 = []"
    by (simp_all add: s1_def queue_defs initial_coord_def)
  have part: "has_part (local_fs s1) (save_directory S) B name pc" using r s1 by (simp add: resumable_def)
  have le: "unat off \<le> length pc" using resume_from_le[OF len] by (simp add: off_def)
  have off: "off = aligned_offset (word_of_nat (length pc)) (word_of_nat (length c))" "0 < off"
    using r by (simp_all add: off_def resume_from_def resumable_def)
  have big: "RESUME_THRESHOLD_BYTES \<le> (word_of_nat (length c) :: u64)" "full_reads E"
    using r by (simp_all add: resumable_def)
  note h = handle_accept_resume[OF _ _ _ part big(1) off le big(2) b]
  show "control_tx b = [ResumeReady off (Some (fingerprint E (take (unat off) pc)))]"
    "pending_resume_recv b
       = Some (part_job (save_directory S) name (word_of_nat (length c)) (receiver_checksum S) off)"
    "recv_file_trigger b = []"
    "local_fs b = set_node (B @ [name @ PARTIAL_FILE_SUFFIX]) (Some (File (take (unat off) pc))) (receiver_fs S)"
    "\<exists>q. current_part_path b = Some (path_push q (name @ PARTIAL_FILE_SUFFIX))
       \<and> components q = components (clean_text (save_directory S))"
    using h n s1 by simp_all
qed

lemma resume_session_states:
  assumes r: "resumable E S B name c pc"
  defines "off \<equiv> resume_from pc c"
    and "b \<equiv> accept_state E S" and "a \<equiv> offer_state E S"
  shows "fingerprint E c = fingerprint E (take (unat off) pc) \<Longrightarrow>
      \<exists>a3 b2. transfer_session E S = run_jobs E S a3 b2
        \<and> send_file_trigger a3 = [(send_path S, sender_checksum S, off)]
        \<and> recv_file_trigger b2 = [part_job (save_directory S) name (word_of_nat (length c)) (receiver_checksum S) off]
        \<and> local_fs b2 = local_fs b"
    and "fingerprint E c \<noteq> fingerprint E (take (unat off) pc) \<Longrightarrow>
      \<exists>a3 b2 part. transfer_session E S = run_jobs E S a3 b2
        \<and> send_file_trigger a3 = [(send_path S, sender_checksum S, 0)]
        \<and> recv_file_trigger b2 = [part_job (save_directory S) name (word_of_nat (length c)) (receiver_checksum S) 0]
        \<and> current_part_path b = Some part \<and> local_fs b2 = snd (file_create part (local_fs b))"
proof -
  have o: "offerable (sender_fs S) (send_path S) name c" and sr: "sender_resume S"
    and off: "0 < off" and full: "full_reads E"
    and j: "json_ok (env_json E) (ResumeReady off (Some (fingerprint E (take (unat off) pc))))"
    using r by (auto simp: resumable_def off_def)
  note acc = resume_accepted[OF r, folded off_def b_def]
  have a: "a = after E [Command (Some (SendFile (send_path S) (sender_checksum S) True))] (initial_coord (sender_fs S))"
    using sr by (simp add: a_def offer_state_def)
  note dec = resume_decision[OF o off full a, of "fingerprint E (take (unat off) pc)"]
  let ?m = "ResumeReady off (Some (fingerprint E (take (unat off) pc)))"
  have trig: "send_file_trigger a = []"
    using offer_state_eq[OF o, of E] by (simp add: a_def queue_defs initial_coord_def)
  have t: "transfer_session E S =
      (let a2 = on_control E ?m a; b2 = after E (texts E (news a a2)) b;
           a3 = after E (texts E (news b b2)) a2 in run_jobs E S a3 b2)"
    using acc(1) j by (simp add: transfer_session_def Let_def flip: a_def b_def)
  show "fingerprint E c = fingerprint E (take (unat off) pc) \<Longrightarrow>
      \<exists>a3 b2. transfer_session E S = run_jobs E S a3 b2
        \<and> send_file_trigger a3 = [(send_path S, sender_checksum S, off)]
        \<and> recv_file_trigger b2 = [part_job (save_directory S) name (word_of_nat (length c)) (receiver_checksum S) off]
        \<and> local_fs b2 = local_fs b"
  proof -
    assume "fingerprint E c = fingerprint E (take (unat off) pc)"
    then have a2: "on_control E ?m a =
        trigger_send (send_path S, sender_checksum S, off) (queue_control ResumeOk (a\<lparr>pending_send_path := None\<rparr>))"
      using dec by simp
    let ?b2 = "on_control E ResumeOk b"
    have b2: "?b2 = trigger_recv (part_job (save_directory S) name (word_of_nat (length c))
        (receiver_checksum S) off) (b\<lparr>pending_resume_recv := None\<rparr>)"
      using acc(2) by (simp add: on_control_def on_resume_ok_def)
    have "transfer_session E S = run_jobs E S (on_control E ?m a) ?b2"
      unfolding t a2 using b2 by (simp add: Let_def news_def queue_defs)
    moreover have "send_file_trigger (on_control E ?m a) = [(send_path S, sender_checksum S, off)]"
      unfolding a2 using trig by (simp add: queue_defs)
    moreover have "recv_file_trigger ?b2 = [part_job (save_directory S) name (word_of_nat (length c)) (receiver_checksum S) off]"
      "local_fs ?b2 = local_fs b"
      unfolding b2 using acc(3) by (simp_all add: queue_defs)
    ultimately show ?thesis by blast
  qed
  show "fingerprint E c \<noteq> fingerprint E (take (unat off) pc) \<Longrightarrow>
      \<exists>a3 b2 part. transfer_session E S = run_jobs E S a3 b2
        \<and> send_file_trigger a3 = [(send_path S, sender_checksum S, 0)]
        \<and> recv_file_trigger b2 = [part_job (save_directory S) name (word_of_nat (length c)) (receiver_checksum S) 0]
        \<and> current_part_path b = Some part \<and> local_fs b2 = snd (file_create part (local_fs b))"
  proof -
    assume "fingerprint E c \<noteq> fingerprint E (take (unat off) pc)"
    then have a2: "on_control E ?m a =
        queue_control RestartFromZero (a\<lparr>pending_send_path := Some (send_path S, sender_checksum S, False)\<rparr>)"
      using dec by simp
    obtain part where part: "current_part_path b = Some part" using acc(5) by blast
    let ?b2 = "on_control E RestartFromZero b" and ?a2 = "on_control E ?m a"
    have b2: "?b2 = queue_control Ready (trigger_recv (part_job (save_directory S) name
        (word_of_nat (length c)) (receiver_checksum S) 0)
        (b\<lparr>pending_resume_recv := None, local_fs := snd (file_create part (local_fs b))\<rparr>))"
      using acc(2) part by (simp add: on_control_def on_restart_from_zero_def part_job_def)
    have "transfer_session E S = run_jobs E S (on_control E Ready ?a2) ?b2"
      unfolding t a2 using b2 by (simp add: Let_def news_def queue_defs)
    moreover have "send_file_trigger (on_control E Ready ?a2) = [(send_path S, sender_checksum S, 0)]"
      unfolding a2 using trig by (simp add: on_control_def on_ready_def queue_defs)
    moreover have "recv_file_trigger ?b2 = [part_job (save_directory S) name (word_of_nat (length c)) (receiver_checksum S) 0]"
      "local_fs ?b2 = snd (file_create part (local_fs b))"
      unfolding b2 using acc(3) by (simp_all add: queue_defs)
    ultimately show ?thesis using part by blast
  qed
qed

lemma session_resumed:
  assumes r: "resumable E S B name c pc"
    and same: "take (unat (resume_from pc c)) pc = take (unat (resume_from pc c)) c"
  shows "\<exists>out. transfer_session E S = Some out \<and> arrived (receiver_fs S) B name c out
     \<and> nodes (fs_after out) (B @ [name @ PARTIAL_FILE_SUFFIX]) = None"
proof -
  let ?off = "resume_from pc c" and ?pn = "name @ PARTIAL_FILE_SUFFIX"
  have o: "offerable (sender_fs S) (send_path S) name c" and part: "has_part (receiver_fs S) (save_directory S) B name pc"
    and off: "0 < ?off" and big: "RESUME_THRESHOLD_BYTES \<le> (word_of_nat (length c) :: u64)"
    using r by (auto simp: resumable_def)
  note n = offerable_name[OF o]
  have "length pc < 2 ^ 64" using part by (simp add: has_part_def)
  then have le: "unat ?off \<le> length c" using resume_from_le[of pc c] n by simp
  have fp: "fingerprint E c = fingerprint E (take (unat ?off) pc)"
  proof -
    have "unat ?off mod FILE_CHUNK_SIZE = 0" by (simp add: resume_from_def aligned_offset_props)
    then have "RESUME_FINGERPRINT_SIZE \<le> unat ?off"
      using off mod_less[of "unat ?off" FILE_CHUNK_SIZE]
      by (cases "unat ?off < FILE_CHUNK_SIZE")
        (auto simp: RESUME_FINGERPRINT_SIZE_def FILE_CHUNK_SIZE_def unat_eq_zero)
    then show ?thesis by (simp add: same min_absorb1)
  qed
  obtain a3 b2 where s: "transfer_session E S = run_jobs E S a3 b2"
    "send_file_trigger a3 = [(send_path S, sender_checksum S, ?off)]"
    "recv_file_trigger b2 = [part_job (save_directory S) name (word_of_nat (length c)) (receiver_checksum S) ?off]"
    "local_fs b2 = set_node (B @ [?pn]) (Some (File (take (unat ?off) c))) (receiver_fs S)"
    using resume_session_states(1)[OF r fp] resume_accepted(4)[OF r] same by auto
  let ?fs = "set_node (B @ [?pn]) (Some (File (take (unat ?off) c))) (receiver_fs S)"
  have g: "grows B (receiver_fs S) ?fs" using part by (intro grows_set_node) (auto simp: has_part_def)
  have d: "dir_at ?fs (clean_text (save_directory S)) B"
    using part dir_at_grows[OF _ g] by (simp add: has_part_def)
  have dst: "free_slot ?fs (B @ [name])" using part by (auto simp: has_part_def free_slot_def)
  let ?r = "\<lparr>pending = drop (unat ?off) c @ stream_rest S, grain = stream_grain S, broken = False\<rparr>"
  let ?job = "part_job (save_directory S) name (word_of_nat (length c)) (receiver_checksum S) ?off"
  have run: "transfer_session E S = Some (receive_job E (free_run (sent_hash E (sender_checksum S) c)) ?job ?fs ?r)"
    using run_jobs_eq[of S "send_path S" c a3 "sender_checksum S" ?off b2 ?job E] o s by (simp add: offerable_def)
  obtain evs where "receive_job E (free_run (sent_hash E (sender_checksum S) c)) ?job ?fs ?r
      = \<lparr>fs_after = set_node (B @ [name]) (Some (File c)) (set_node (B @ [?pn]) None ?fs),
        stream_left = ?r\<lparr>pending := stream_rest S\<rparr>,
        recv_events = evs @ [TransferComplete Completed], recv_control = [ReceivedFileOk], task_alive = True\<rparr>"
    using resume_job_delivers[OF d _ _ dst, of ?off c ?r "stream_rest S" ?job "receiver_checksum S" E
        "sender_checksum S"] n le off by auto
  with run have "transfer_session E S = Some \<lparr>fs_after = set_node (B @ [name]) (Some (File c))
        (set_node (B @ [?pn]) None ?fs), stream_left = ?r\<lparr>pending := stream_rest S\<rparr>,
        recv_events = evs @ [TransferComplete Completed], recv_control = [ReceivedFileOk], task_alive = True\<rparr>"
    by simp
  then show ?thesis by (simp add: arrived_def PARTIAL_FILE_SUFFIX_def)
qed

lemma session_fallback:
  assumes r: "resumable E S B name c pc"
    and differ: "fingerprint E c \<noteq> fingerprint E (take (unat (resume_from pc c)) pc)"
  shows "\<exists>out. transfer_session E S = Some out \<and> arrived (receiver_fs S) B name c out
     \<and> nodes (fs_after out) (B @ [name @ PARTIAL_FILE_SUFFIX]) = None"
proof -
  let ?pn = "name @ PARTIAL_FILE_SUFFIX"
  have o: "offerable (sender_fs S) (send_path S) name c" and part: "has_part (receiver_fs S) (save_directory S) B name pc"
    and big: "RESUME_THRESHOLD_BYTES \<le> (word_of_nat (length c) :: u64)"
    using r by (auto simp: resumable_def)
  note n = offerable_name[OF o]
  have pn: "plain_name ?pn" using n plain_part_name by blast
  obtain a3 b2 p where s: "transfer_session E S = run_jobs E S a3 b2"
    "send_file_trigger a3 = [(send_path S, sender_checksum S, 0)]"
    "recv_file_trigger b2 = [part_job (save_directory S) name (word_of_nat (length c)) (receiver_checksum S) 0]"
    "current_part_path (accept_state E S) = Some p"
    "local_fs b2 = snd (file_create p (local_fs (accept_state E S)))"
    using resume_session_states(2)[OF r differ] by blast
  obtain q where q: "p = path_push q ?pn" "components q = components (clean_text (save_directory S))"
    using resume_accepted(5)[OF r] s(4) by auto
  let ?fs1 = "local_fs (accept_state E S)"
  let ?fs = "set_node (B @ [?pn]) (Some (File [])) (receiver_fs S)"
  have fs1: "?fs1 = set_node (B @ [?pn]) (Some (File (take (unat (resume_from pc c)) pc))) (receiver_fs S)"
    by (rule resume_accepted(4)[OF r])
  have g: "grows B (receiver_fs S) ?fs1" "grows B (receiver_fs S) ?fs"
    unfolding fs1 using part by (intro grows_set_node; auto simp: has_part_def)+
  have d0: "dir_at (receiver_fs S) (clean_text (save_directory S)) B" using part by (simp add: has_part_def)
  have "dir_at ?fs1 q B" using dir_at_grows[OF d0 g(1)] dir_at_components[OF q(2)] by simp
  then have fs: "local_fs b2 = ?fs"
    using s(5) q(1) file_create_child[of ?fs1 q B ?pn] pn fs1 by simp
  have d: "dir_at ?fs (clean_text (save_directory S)) B" by (rule dir_at_grows[OF d0 g(2)])
  have slots: "free_slot ?fs (B @ [name])" "free_slot ?fs (B @ [?pn])"
    using part by (auto simp: has_part_def free_slot_def)
  have job: "part_job (save_directory S) name (word_of_nat (length c)) (receiver_checksum S) 0
      = fresh_job (save_directory S) name (word_of_nat (length c)) (receiver_checksum S)"
    using big by (simp add: part_job_def fresh_job_def)
  let ?r = "\<lparr>pending = c @ stream_rest S, grain = stream_grain S, broken = False\<rparr>"
  let ?job = "fresh_job (save_directory S) name (word_of_nat (length c)) (receiver_checksum S)"
  have run: "transfer_session E S = Some (receive_job E (free_run (sent_hash E (sender_checksum S) c)) ?job ?fs ?r)"
    using run_jobs_eq[of S "send_path S" c a3 "sender_checksum S" 0 b2 ?job E] o s(1,2,3) fs job
    by (simp add: offerable_def)
  have up: "use_part ?job" using big by (simp add: fresh_job_def)
  obtain evs where "receive_job E (free_run (sent_hash E (sender_checksum S) c)) ?job ?fs ?r
      = \<lparr>fs_after = set_node (B @ [name]) (Some (File c)) (set_node (B @ [?pn]) None ?fs),
        stream_left = ?r\<lparr>pending := stream_rest S\<rparr>,
        recv_events = evs @ [TransferComplete Completed], recv_control = [ReceivedFileOk], task_alive = True\<rparr>"
    using fresh_job_delivers[OF d _ slots, of c ?r "stream_rest S" ?job "receiver_checksum S" E
        "sender_checksum S"] n up by auto
  with run have "transfer_session E S = Some \<lparr>fs_after = set_node (B @ [name]) (Some (File c))
        (set_node (B @ [?pn]) None ?fs), stream_left = ?r\<lparr>pending := stream_rest S\<rparr>,
        recv_events = evs @ [TransferComplete Completed], recv_control = [ReceivedFileOk], task_alive = True\<rparr>"
    by simp
  then show ?thesis by (simp add: arrived_def PARTIAL_FILE_SUFFIX_def)
qed

end
