(* ===== verification/Peer_Properties.thy ===== *)
theory Peer_Properties
  imports Peer_Session
begin

text \<open>
  Properties of the file transfer between two peers (\<open>core/src/peer_generic.rs\<close>,
  \<open>core/src/peer.rs\<close> and the protocol texts of \<open>core/src/types.rs\<close>), each with the concrete
  instance that shows its hypotheses can hold. The lemmas before them treat the stream of
  control frames and the receptions that fail.
\<close>

section \<open>The control stream\<close>

text \<open>What the loop's reader branch makes of a stream: frames until the end or an error.\<close>

lemma read_control_msg_shrinks:
  assumes "read_control_msg r = Inr (Some m, r')"
  shows "length (pending r') < length (pending r)"
proof -
  have "read_message r = Inr (m, r')" using assms by (simp add: read_message_def)
  then show ?thesis using read_message_sound by (fastforce simp: control_frame_def)
qed

function control_inputs :: "source \<Rightarrow> loop_input list" where
  "control_inputs r =
     (case read_control_msg r of
        Inl e \<Rightarrow> [Received (Inl e)]
      | Inr (None, _) \<Rightarrow> [Received (Inr None)]
      | Inr (Some m, r') \<Rightarrow> Received (Inr (Some m)) # control_inputs r')"
  by pat_completeness auto
termination
  by (relation "measure (\<lambda>r. length (pending r))") (auto simp: read_control_msg_shrinks)

declare control_inputs.simps [simp del]

text \<open>What is queued for the control stream: messages, and keep-alives (\<open>None\<close>) in between.\<close>

definition queued_text :: "json \<Rightarrow> ControlMessage option \<Rightarrow> string" where
  "queued_text J q = (case q of None \<Rightarrow> keep_alive | Some m \<Rightarrow> serialize J m)"

definition transmissible :: "json \<Rightarrow> ControlMessage option \<Rightarrow> bool" where
  "transmissible J q \<longleftrightarrow> (case q of None \<Rightarrow> True | Some m \<Rightarrow> json_ok J m \<and> frameable (serialize J m))"

definition messages :: "ControlMessage option list \<Rightarrow> ControlMessage list" where
  "messages qs = concat (map (\<lambda>q. case q of None \<Rightarrow> [] | Some m \<Rightarrow> [m]) qs)"

lemma queued_frameable: "transmissible J q \<Longrightarrow> frameable (queued_text J q)"
  by (auto simp: transmissible_def queued_text_def keep_alive_def frameable_def split: option.splits)

lemma control_task_frames:
  "room w = None \<Longrightarrow> control_task None i ms w = (True, w\<lparr>written := written w @ concat (map control_frame ms)\<rparr>)"
  by (induction ms arbitrary: i w) (simp_all add: send_control_msg_ok)

lemma control_inputs_frames:
  "list_all frameable ms \<Longrightarrow> pending r = concat (map control_frame ms) \<Longrightarrow> \<not> broken r \<Longrightarrow>
     control_inputs r = map (\<lambda>m. Received (Inr (Some m))) ms @ [Received (Inr None)]"
proof (induction ms arbitrary: r)
  case Nil
  then have "read_control_msg r = Inr (None, r)"
    by (simp add: read_control_msg_def read_exact_eq eof_error_def)
  then show ?case by (simp add: control_inputs.simps)
next
  case (Cons m ms)
  let ?rest = "concat (map control_frame ms)"
  have "read_control_msg r = Inr (Some m, r\<lparr>pending := ?rest\<rparr>)"
    using Cons.prems by (intro read_control_msg_enc) simp_all
  moreover have "control_inputs (r\<lparr>pending := ?rest\<rparr>) = map (\<lambda>m. Received (Inr (Some m))) ms @ [Received (Inr None)]"
    using Cons.prems by (intro Cons.IH) simp_all
  ultimately show ?case by (subst control_inputs.simps) simp
qed

lemma run_loop_queued:
  "list_all (transmissible (env_json E)) qs \<Longrightarrow>
     run_loop E (map (\<lambda>q. Received (Inr (Some (queued_text (env_json E) q)))) qs @ is) s
       = run_loop E is (fold (on_control E) (messages qs) s)"
proof (induction qs arbitrary: s)
  case (Cons q qs)
  then show ?case
    by (cases q) (simp_all add: loop_turn_def on_message_serialize transmissible_def queued_text_def messages_def,
        simp add: on_message_def keep_alive_def)
qed (simp add: messages_def)

section \<open>Receptions that fail\<close>

lemma disk_writer_frame:
  "disk_writer lim k pos cs fs = (ok, fs') \<Longrightarrow> k' \<noteq> k \<Longrightarrow> nodes fs' k' = nodes fs k'"
  by (induction cs arbitrary: lim pos fs)
    (auto simp: write_at_def split: option.splits if_splits)

lemma receive_job_alive:
  "recv_control (receive_job E plan job fs r) \<in> {[], [ReceivedFileOk], [ReceivedFileFailed]}"
  "recv_control (receive_job E plan job fs r) = [ReceivedFileFailed] \<Longrightarrow> \<not> task_alive (receive_job E plan job fs r)"
  by (auto simp: receive_job_def finish_job_def recv_failed_def Let_def split: prod.splits sum.splits option.splits if_splits)

lemma finish_job_failed:
  assumes "recv_control (finish_job E plan job h fs r) \<noteq> [ReceivedFileOk]" "use_part job"
  shows "fs_after (finish_job E plan job h fs r) = fs"
proof (cases "expected_hash plan")
  case (Some e)
  obtain m fs' where m: "rename (write_target job) (dest_path job) fs = (m, fs')" by fastforce
  have "m = Inl x \<Longrightarrow> fs' = fs" for x
    using m by (auto simp: rename_def split: sum.splits option.splits node.splits if_splits)
  then show ?thesis using assms Some m
    by (cases m) (auto simp: finish_job_def Let_def recv_failed_def)
qed (simp add: finish_job_def Let_def)

text \<open>A reception that does not succeed leaves the destination of a large file alone.\<close>

lemma receive_job_failed_frame:
  assumes d: "dir_at fs dir B" and n: "plain_name n" "dest_path job = path_push dir n" and up: "use_part job"
    and slot: "slot_ready job (nodes fs (B @ [target_name job n])) old"
    and free: "free_slot fs (B @ [n])"
    and fail: "recv_control (receive_job E plan job fs r) \<noteq> [ReceivedFileOk]"
  shows "nodes (fs_after (receive_job E plan job fs r)) (B @ [n]) = nodes fs (B @ [n])"
proof -
  let ?t = "target_name job n" and ?off = "unat (resume_offset job)"
  have ne: "B @ [n] \<noteq> B @ [?t]" using up by (simp add: target_name_def PARTIAL_FILE_SUFFIX_def)
  obtain q where t: "plain_name ?t" "write_target job = path_push q ?t" "components q = components dir"
    using write_target_push[OF n(2,1)] by blast
  have dq: "dir_at fs' q B" if "dir_at fs' dir B" for fs' using that dir_at_components[OF t(3)] by simp
  obtain q0 where q0: "parent (path_push dir n) = Some q0" "components q0 = components dir"
    using parent_push[OF n(1)] by blast
  have mk: "create_dir_all q0 fs = (Inr (), fs)"
    using d dir_at_components[OF q0(2)] by (intro create_dir_all_existing) simp
  obtain fs1 where fs1: "open_target job fs = (Inr (B @ [?t]), fs1)" "nodes fs1 (B @ [?t]) = Some (File old)"
    "\<forall>v. set_node (B @ [?t]) v fs1 = set_node (B @ [?t]) v fs"
    using open_target_ready[OF dq[OF d] t(1,2) slot] by blast
  have keep1: "nodes fs1 (B @ [n]) = nodes fs (B @ [n])"
  proof -
    have "nodes (set_node (B @ [?t]) None fs1) (B @ [n]) = nodes (set_node (B @ [?t]) None fs) (B @ [n])"
      using fs1(3) by simp
    then show ?thesis using ne by simp
  qed
  obtain ok chunks r' where rc: "recv_chunks (net_stop plan) 0 r (unat (job_size job) - ?off) [] = (ok, chunks, r')"
    using prod_cases3 by blast
  obtain wok fs2 where dw: "disk_writer (disk_limit plan) (B @ [?t]) ?off chunks fs1 = (wok, fs2)" by fastforce
  have keep2: "nodes fs2 (B @ [n]) = nodes fs (B @ [n])" using disk_writer_frame[OF dw ne] keep1 by simp
  let ?h = "if job_checksum job \<and> resume_offset job = 0 then Some (concat chunks) else None"
  have res: "receive_job E plan job fs r =
      (if \<not> (ok \<and> wok) then recv_failed Etc [] fs2 r' else finish_job E plan job ?h fs2 r')"
    using mk q0 n(2) fs1(1) rc dw by (simp add: receive_job_def)
  show ?thesis
    using fail keep2 finish_job_failed[OF _ up, of E plan ?h fs2 r'] unfolding res
    by (cases "ok \<and> wok") (auto simp: recv_failed_def)
qed

section \<open>A concrete environment for the instances\<close>

text \<open>A JSON codec in miniature, and a hash that keeps the first 32 bytes.\<close>

definition demo_flag :: "bool \<Rightarrow> string" where
  "demo_flag b = (if b then ''t'' else ''f'')"

definition demo_json :: json where
  "demo_json =
     \<lparr>metadata_to_json = (\<lambda>p. demo_flag (mp_resume p) @ demo_flag (mp_checksum p) @ mp_file_size p @ '':'' @ mp_file_name p),
      metadata_from_json = (\<lambda>s. case s of
         r # c # t \<Rightarrow> Some \<lparr>mp_file_name = tl (dropWhile (\<lambda>x. x \<noteq> CHR '':'') t),
             mp_file_size = takeWhile (\<lambda>x. x \<noteq> CHR '':'') t, mp_resume = (r = CHR ''t''), mp_checksum = (c = CHR ''t'')\<rparr>
       | _ \<Rightarrow> None),
      resume_to_json = (\<lambda>p. rp_offset p @ (case rp_prefix_hash p of None \<Rightarrow> [] | Some h \<Rightarrow> '':'' @ h)),
      resume_from_json = (\<lambda>s. Some \<lparr>rp_offset = takeWhile (\<lambda>x. x \<noteq> CHR '':'') s,
         rp_prefix_hash = (case dropWhile (\<lambda>x. x \<noteq> CHR '':'') s of [] \<Rightarrow> None | _ # h \<Rightarrow> Some h)\<rparr>)\<rparr>"

definition demo_env :: peer_env where
  "demo_env = \<lparr>env_json = demo_json,
     env_hash = \<lparr>sha256 = (\<lambda>c. take 32 (c @ replicate 32 0)), hex_encode = string_of_bytes\<rparr>,
     env_dir_len = 4096, env_grain = (\<lambda>n. n), env_error_text = (\<lambda>_. ''error'')\<rparr>"

lemma show_word_no_colon: "\<forall>x \<in> set (show_word w). x \<noteq> CHR '':''"
  using show_nat_digits[of "unat w"] by (auto simp: show_word_def list_all_iff is_ascii_digit_def code_def)

lemma demo_json_ok [simp]: "json_ok demo_json m"
proof (cases m)
  case (Metadata n sz r c)
  have "takeWhile (\<lambda>x. x \<noteq> CHR '':'') (show_word sz @ '':'' @ n) = show_word sz"
    "dropWhile (\<lambda>x. x \<noteq> CHR '':'') (show_word sz @ '':'' @ n) = '':'' @ n"
    using show_word_no_colon[of sz] by (simp_all add: takeWhile_append dropWhile_append)
  then show ?thesis using Metadata by (simp add: demo_json_def metadata_payload_def demo_flag_def)
next
  case (ResumeReady off h)
  have "takeWhile (\<lambda>x. x \<noteq> CHR '':'') (show_word off @ y) = show_word off @ takeWhile (\<lambda>x. x \<noteq> CHR '':'') y"
    "dropWhile (\<lambda>x. x \<noteq> CHR '':'') (show_word off @ y) = dropWhile (\<lambda>x. x \<noteq> CHR '':'') y" for y
    using show_word_no_colon[of off] by (simp_all add: takeWhile_append dropWhile_append)
  moreover have "dropWhile (\<lambda>x. x \<noteq> CHR '':'') (show_word off) = []"
    using show_word_no_colon[of off] by (simp add: dropWhile_eq_Nil_conv)
  ultimately show ?thesis using ResumeReady show_word_no_colon[of off]
    by (cases h) (simp_all add: demo_json_def resume_payload_def del: dropWhile_eq_Nil_conv)
qed simp_all

lemma demo_env_simps [simp]:
  "env_json demo_env = demo_json" "full_reads demo_env" "env_grain demo_env n = n"
  by (simp_all add: demo_env_def full_reads_def)

definition demo_server :: fsys where
  "demo_server = \<lparr>nodes = [[''in''] \<mapsto> Dir, [''in'', ''a.quic-part''] \<mapsto> File (replicate FILE_CHUNK_SIZE 7)], cwd = []\<rparr>"

definition demo_client :: "byte list \<Rightarrow> fsys" where
  "demo_client c = \<lparr>nodes = [[''a''] \<mapsto> File c], cwd = []\<rparr>"

definition demo_session :: "bool \<Rightarrow> byte list \<Rightarrow> session" where
  "demo_session res c =
     \<lparr>sender_fs = demo_client c, receiver_fs = demo_server, send_path = ''/a'', save_directory = ''/in'',
      sender_checksum = True, receiver_checksum = True, sender_resume = res, receiver_resume = True,
      stream_grain = (\<lambda>n. 1000), stream_rest = [9]\<rparr>"

lemma demo_components: "components ''/in'' = [RootDir, Normal ''in'']" "components ''/a'' = [RootDir, Normal ''a'']"
  "components ''/'' = [RootDir]"
  by code_simp+

lemma demo_server_dir: "dir_at demo_server ''/in'' [''in'']"
  unfolding dir_at_def demo_components by (simp add: demo_server_def node_at_def)

lemma demo_clean: "clean_text ''/in'' = ''/in''" "clean_text ''a'' = ''a''"
  by code_simp+

lemma demo_offerable: "length c < 2 ^ 64 \<Longrightarrow> offerable (demo_client c) ''/a'' ''a'' c"
proof -
  assume c: "length c < 2 ^ 64"
  have "dir_at (demo_client c) ''/'' []"
    unfolding dir_at_def demo_components by (simp add: demo_client_def node_at_def)
  then have "fs_metadata (demo_client c) (path_push ''/'' ''a'') = Inr (File c)"
    by (subst fs_metadata_child) (simp_all add: demo_client_def ok_or_def plain_name_def)
  moreover have "path_push ''/'' ''a'' = ''/a''" "file_name ''/a'' = Some ''a''" "utf8_valid ''a''" by code_simp+
  ultimately show ?thesis using c by (simp add: offerable_def demo_clean)
qed

section \<open>The two loops\<close>

lemma run_quic_loop_agrees:
  "snd (run_quic_loop E polls is s) = snd (run_loop E is s)
   \<and> (fst (run_quic_loop E polls is s))\<lparr>event_tx := []\<rparr> = (fst (run_loop E is s))\<lparr>event_tx := []\<rparr>"
proof (induction "is" arbitrary: s)
  case (Cons i "is")
  show ?case
  proof (cases "i = Received (Inr None) \<or> (\<exists>e. i = Received (Inl e))")
    case True
    then show ?thesis by (auto simp: quic_loop_turn_def loop_turn_def emit_event_def)
  next
    case False
    then have "quic_loop_turn E polls i s = loop_turn E i s" by (intro quic_loop_turn_eq) auto
    then show ?thesis using Cons.IH
      by (cases "loop_turn E i s"; cases "snd (loop_turn E i s)") auto
  qed
qed simp

section \<open>The properties\<close>

text \<open>
  C27: the control messages one peer queues reach the other: written by the control task, with
  keep-alives in between, and read back by the loop of the other side under any fragmentation of
  the stream, they run its handlers in the order in which they were queued; keep-alives change
  nothing, and the end of the stream ends the loop.
\<close>

theorem control_stream_delivers:
  assumes "list_all (transmissible (env_json E)) qs"
  shows "\<exists>w. control_task None 0 (map (queued_text (env_json E)) qs) \<lparr>written = [], room = None\<rparr> = (True, w)
     \<and> run_loop E (control_inputs \<lparr>pending = written w, grain = g, broken = False\<rparr>) s
         = (emit_event (Disconnected ''Peer closed connection'') (fold (on_control E) (messages qs) s), False)"
proof -
  let ?ms = "map (queued_text (env_json E)) qs"
  have "list_all frameable ?ms" using assms by (auto simp: list_all_iff queued_frameable)
  then have "control_inputs \<lparr>pending = concat (map control_frame ?ms), grain = g, broken = False\<rparr>
      = map (\<lambda>q. Received (Inr (Some (queued_text (env_json E) q)))) qs @ [Received (Inr None)]"
    using control_inputs_frames[of ?ms "\<lparr>pending = concat (map control_frame ?ms), grain = g, broken = False\<rparr>"]
    by (simp add: comp_def)
  then show ?thesis
    using run_loop_queued[OF assms, of "[Received (Inr None)]" s]
      control_task_frames[of "\<lparr>written = [], room = None\<rparr>" 0 ?ms]
    by (simp add: loop_turn_def)
qed

theorem control_stream_delivers_witness:
  "\<exists>w. control_task None 0 (map (queued_text (env_json demo_env)) [Some Ready, None, Some (FileSent ''ab'')])
         \<lparr>written = [], room = None\<rparr> = (True, w)
     \<and> run_loop demo_env (control_inputs \<lparr>pending = written w, grain = (\<lambda>_. 1), broken = False\<rparr>) (initial_coord demo_server)
         = (emit_event (Disconnected ''Peer closed connection'')
              (fold (on_control demo_env) (messages [Some Ready, None, Some (FileSent ''ab'')])
                 (initial_coord demo_server)), False)"
  by (rule control_stream_delivers)
    (simp add: transmissible_def frameable_def MAX_CONTROL_MESSAGE_BYTES_def is_ascii_def code_def)

text \<open>
  the control framing is canonical: a message is read exactly when the stream starts with the
  frame of a text of valid UTF-8 that is not longer than the limit, and what follows is left.
\<close>

theorem control_frames_canonical:
  "read_message r = Inr (m, r') \<longleftrightarrow>
     frameable m \<and> pending r = control_frame m @ pending r' \<and> r' = r\<lparr>pending := pending r'\<rparr>"
  using read_message_enc[of m r "pending r'"] read_message_sound[of r m r'] by fastforce

text \<open>
  a frame that announces more than \<open>MAX_CONTROL_MESSAGE_BYTES\<close> is refused before any of it is
  read or allocated, and ends the loop with the error as the reason of the disconnection.
\<close>

theorem control_length_checked:
  assumes "pending r = lb @ rest" "length lb = 4" "MAX_CONTROL_MESSAGE_BYTES < unat (u32_from_be lb)"
  shows "read_control_msg r = Inl (ControlTooLong (unat (u32_from_be lb)))
     \<and> run_loop E (control_inputs r) s =
         (emit_event (Disconnected (''control message length '' @ show_nat (unat (u32_from_be lb))
            @ '' exceeds maximum allowed '' @ show_nat MAX_CONTROL_MESSAGE_BYTES)) s, False)"
proof -
  have r: "read_control_msg r = Inl (ControlTooLong (unat (u32_from_be lb)))"
    using assms by (simp add: read_control_msg_def Let_def)
  then show ?thesis
    by (subst control_inputs.simps) (simp add: loop_turn_def error_text_def)
qed

theorem control_length_checked_witness:
  "read_control_msg \<lparr>pending = [255, 0, 0, 0, 1], grain = (\<lambda>_. 1), broken = False\<rparr> = Inl (ControlTooLong 4278190080)"
proof -
  have u: "unat (u32_from_be [255, 0, 0, 0]) = 4278190080" by (simp add: u32_from_be_def be_snoc_def push_bit_eq_mult unsigned_ucast_eq)
  show ?thesis
    using control_length_checked[of "\<lparr>pending = [255, 0, 0, 0, 1], grain = (\<lambda>_. 1), broken = False\<rparr>"
        "[255, 0, 0, 0]" "[1]" demo_env "initial_coord demo_server"]
    by (simp add: u MAX_CONTROL_MESSAGE_BYTES_def)
qed


text \<open>
  C25: whatever messages and commands the loop sees, every reception job it starts resumes at an
  aligned offset (or at the end) inside the announced size, and only files of at least
  \<open>RESUME_THRESHOLD_BYTES\<close> are resumed or received into a partial file.
\<close>

theorem reception_jobs_sound:
  "list_all job_ok (recv_file_trigger (fst (run_loop E is (initial_coord fs))))"
  using run_loop_jobs[of "initial_coord fs" E "is"] by (simp add: jobs_ok_def initial_coord_def)

text \<open>
  a run starts at most one reception per offer received and at most one sending job per
  \<open>SendFile\<close> command, however often \<open>Ready\<close>, \<open>ResumeReady\<close>, \<open>ResumeOk\<close> or \<open>RestartFromZero\<close> are
  repeated by the peer.
\<close>

theorem one_job_per_request:
  "length (recv_file_trigger (fst (run_loop E is (initial_coord fs)))) \<le> sum_list (map (offers E) is)
   \<and> length (send_file_trigger (fst (run_loop E is (initial_coord fs)))) \<le> sum_list (map send_requests is)"
  using recv_budget.run_cost[of E "is" "initial_coord fs"] send_budget.run_cost[of E "is" "initial_coord fs"]
  by (simp add: recv_used_def send_used_def initial_coord_def one_if_def)

text \<open>
  C24: a sender resumes only on agreement: if a control message makes it start a job at an offset
  other than zero, then the message is \<open>ResumeReady\<close> for that offset, the file was waiting to be
  sent, the fingerprint in the message is the one of its own prefix, and \<open>ResumeOk\<close> was queued.
\<close>

theorem resume_needs_fingerprint:
  assumes "send_file_trigger (on_control E m s) = send_file_trigger s @ [(path, ck, off)]" "0 < off"
  shows "\<exists>r. m = ResumeReady off (prefix_hash_of E (local_fs s) path)
     \<and> pending_send_path s = Some (path, ck, r) \<and> pending_send_path (on_control E m s) = None
     \<and> control_tx (on_control E m s) = control_tx s @ [ResumeOk]"
proof (cases m)
  case (Metadata name sz resum ck')
  have "send_used (on_control E m s) = send_used s" using Metadata by (simp add: on_control_def)
  then have "pending_send_path s \<noteq> None \<and> pending_send_path (on_control E m s) = None"
    using assms(1) by (simp add: send_used_def one_if_def del: not_None_eq split: if_splits)
  moreover have "pending_send_path (on_control E m s) = pending_send_path s"
    using Metadata
    by (auto simp: on_control_def on_metadata_def handle_accept_def Let_def queue_defs split: option.splits)
  ultimately show ?thesis by force
qed (use assms in \<open>auto simp: handler_defs split: option.splits if_splits\<close>)

theorem resume_needs_fingerprint_witness:
  "\<exists>s m off. (0::u64) < off
     \<and> send_file_trigger (on_control demo_env m s) = send_file_trigger s @ [(''/a'', True, off)]
     \<and> m = ResumeReady off (prefix_hash_of demo_env (local_fs s) ''/a'')"
proof -
  let ?s = "(initial_coord (demo_client [1, 2]))\<lparr>pending_send_path := Some (''/a'', True, True)\<rparr>"
  let ?m = "ResumeReady 65536 (prefix_hash_of demo_env (local_fs ?s) ''/a'')"
  have t: "send_file_trigger (on_control demo_env ?m ?s) = send_file_trigger ?s @ [(''/a'', True, 65536)]"
    by (simp add: on_control_def on_resume_ready_def queue_defs initial_coord_def)
  then show ?thesis using resume_needs_fingerprint[OF t] by (intro exI[of _ ?s] exI[of _ ?m] exI[of _ 65536]) simp
qed



text \<open>An offered name without a last component has no such guarantee for its partial file.\<close>

lemma dotdot_offer_escapes:
  "accept_dest ''/srv/in'' ''..'' = ''/srv/in/''"
  "get_part_path (accept_dest ''/srv/in'' ''..'') = ''/srv/in.quic-part''"
  by code_simp+


text \<open>
  C3: a file that is offered and accepted without resuming arrives: the two loops exchange offer and
  \<open>Ready\<close>, both jobs run, the receiver reports success, the destination has exactly the content of
  the sender's file, and nothing else on the receiver's disk changes but the partial file.
\<close>

theorem fresh_session_delivers:
  assumes "offerable (sender_fs S) (send_path S) name c"
    and "json_ok (env_json E) (offer_of name c (sender_resume S) (sender_checksum S))"
    and "dir_at (receiver_fs S) (clean_text (save_directory S)) B"
    and "free_slot (receiver_fs S) (B @ [name])"
      "free_slot (receiver_fs S) (B @ [name @ PARTIAL_FILE_SUFFIX])"
    and "\<not> (sender_resume S \<and> receiver_resume S) \<or> word_of_nat (length c) < RESUME_THRESHOLD_BYTES"
  shows "\<exists>out. transfer_session E S = Some out \<and> arrived (receiver_fs S) B name c out"
  by (rule session_fresh[OF assms])

theorem fresh_session_delivers_witness:
  "\<exists>out. transfer_session demo_env (demo_session False [1, 2, 3]) = Some out
     \<and> arrived demo_server [''in''] ''a'' [1, 2, 3] out"
  using fresh_session_delivers[of "demo_session False [1, 2, 3]" "''a''" "[1, 2, 3]" demo_env "[''in'']"]
    demo_offerable[of "[1, 2, 3]"] demo_server_dir demo_clean
  by (simp add: demo_session_def free_slot_def demo_server_def PARTIAL_FILE_SUFFIX_def)


definition big_content :: "byte \<Rightarrow> byte list" where
  "big_content b = replicate 20971520 b"

lemma demo_resume_from: "resume_from (replicate FILE_CHUNK_SIZE 7) (big_content b) = word_of_nat FILE_CHUNK_SIZE"
  by (simp add: resume_from_def aligned_offset_def Let_def big_content_def FILE_CHUNK_SIZE_def)

lemma demo_resumable: "resumable demo_env (demo_session True (big_content b)) [''in''] ''a'' (big_content b)
    (replicate FILE_CHUNK_SIZE 7)"
proof -
  have "(0::u64) < word_of_nat FILE_CHUNK_SIZE" by (simp add: FILE_CHUNK_SIZE_def)
  moreover have "has_part demo_server ''/in'' [''in''] ''a'' (replicate FILE_CHUNK_SIZE 7)"
    using demo_server_dir demo_clean
    by (simp add: has_part_def demo_server_def PARTIAL_FILE_SUFFIX_def free_slot_def FILE_CHUNK_SIZE_def)
  moreover have "offerable (demo_client (big_content b)) ''/a'' ''a'' (big_content b)"
    by (rule demo_offerable) (simp add: big_content_def)
  moreover have "RESUME_THRESHOLD_BYTES \<le> (word_of_nat (length (big_content b)) :: u64)"
    by (simp add: RESUME_THRESHOLD_BYTES_def big_content_def)
  moreover have "json_ok demo_json m" for m by simp
  ultimately show ?thesis by (simp add: resumable_def demo_resume_from demo_session_def del: json_ok.simps)
qed


text \<open>
  C10: with a partial file that does not have the sender's fingerprint, the session falls back: the
  sender answers \<open>RestartFromZero\<close>, the partial file is truncated, and the whole file arrives.
\<close>

theorem mismatched_session_restarts:
  assumes "resumable E S B name c pc"
    and "fingerprint E c \<noteq> fingerprint E (take (unat (resume_from pc c)) pc)"
  shows "\<exists>out. transfer_session E S = Some out \<and> arrived (receiver_fs S) B name c out
     \<and> nodes (fs_after out) (B @ [name @ PARTIAL_FILE_SUFFIX]) = None"
  by (rule session_fallback[OF assms])

theorem mismatched_session_restarts_witness:
  "\<exists>out. transfer_session demo_env (demo_session True (big_content 8)) = Some out
     \<and> arrived demo_server [''in''] ''a'' (big_content 8) out
     \<and> nodes (fs_after out) [''in'', ''a.quic-part''] = None"
proof -
  have u: "unat (word_of_nat FILE_CHUNK_SIZE :: u64) = FILE_CHUNK_SIZE" by (simp add: FILE_CHUNK_SIZE_def)
  have h: "hex_digest (env_hash demo_env) (replicate n b) = map ascii_lower (string_of_bytes (replicate 32 b))"
    if "32 \<le> n" for n b
    using that by (simp add: hex_digest_def demo_env_def)
  have ne: "ascii_lower (char_of_byte 8) \<noteq> ascii_lower (char_of_byte 7)"
    by code_simp
  have d: "fingerprint demo_env (big_content 8)
      \<noteq> fingerprint demo_env (take FILE_CHUNK_SIZE (replicate FILE_CHUNK_SIZE 7))"
    using ne by (simp add: big_content_def RESUME_FINGERPRINT_SIZE_def FILE_CHUNK_SIZE_def h
        string_of_bytes_def)
  then have "fingerprint demo_env (big_content 8) \<noteq> fingerprint demo_env
      (take (unat (resume_from (replicate FILE_CHUNK_SIZE 7) (big_content 8))) (replicate FILE_CHUNK_SIZE 7))"
    unfolding demo_resume_from u .
  from mismatched_session_restarts[OF demo_resumable[of 8] this] show ?thesis
    by (simp add: demo_session_def PARTIAL_FILE_SUFFIX_def)
qed

text \<open>
  C5: a reception that reports success has checked what it installed: it has taken exactly the
  announced bytes from the stream, the destination holds the old prefix followed by them, and the
  announced hash matches the hash of that content (or checksums were off on one side).
\<close>

theorem completed_reception_verified:
  assumes "dir_at fs dir B" "plain_name n" "dest_path job = path_push dir n"
    and "slot_ready job (nodes fs (B @ [target_name job n])) old" "free_slot fs (B @ [n])"
    and "resume_offset job \<le> job_size job"
    and "recv_control (receive_job E plan job fs r) = [ReceivedFileOk]"
  shows "\<exists>e data rest. expected_hash plan = Some e \<and> pending r = data @ rest
     \<and> length data = unat (job_size job) - unat (resume_offset job)
     \<and> stream_left (receive_job E plan job fs r) = r\<lparr>pending := rest\<rparr>
     \<and> nodes (fs_after (receive_job E plan job fs r)) (B @ [n]) = Some (File (new_content job old data))
     \<and> hash_matches e (actual_hash E job (new_content job old data))"
proof -
  let ?n = "unat (job_size job) - unat (resume_offset job)"
  obtain e where e: "expected_hash plan = Some e"
    "receive_job E plan job fs r = receive_job E (free_run e) job fs r" "?n \<le> length (pending r)"
    using receive_job_ok_free[OF assms(7)] by blast
  have sz: "unat (job_size job) = unat (resume_offset job) + length (take ?n (pending r))"
    using e(3) assms(6) by (simp add: word_le_nat_alt)
  have p: "pending r = take ?n (pending r) @ drop ?n (pending r)" by simp
  note res = receive_job_free[OF assms(1,2,3,4) _ _ p sz, of E e, folded e(2)]
  have m: "hash_matches e (actual_hash E job (new_content job old (take ?n (pending r))))"
    using res assms(5,7) by (auto simp: free_slot_def recv_failed_def split: if_splits)
  then show ?thesis
    using res assms(5) e(1,3)
    by (intro exI[of _ e] exI[of _ "take ?n (pending r)"] exI[of _ "drop ?n (pending r)"]) (simp add: free_slot_def)
qed

definition demo_job :: recv_job where
  "demo_job = \<lparr>dest_path = ''/in/b'', job_size = 2, job_checksum = True, resume_offset = 0, use_part = True\<rparr>"

definition demo_stream :: source where
  "demo_stream = \<lparr>pending = [5, 6, 7], grain = (\<lambda>_. 1), broken = False\<rparr>"

lemma demo_push: "path_push ''/in'' ''b'' = ''/in/b''"
  by code_simp

lemma demo_slots:
  "slot_ready demo_job (nodes demo_server ([''in''] @ [target_name demo_job ''b''])) []"
  "free_slot demo_server ([''in''] @ [''b''])" "plain_name ''b''"
  "dest_path demo_job = path_push ''/in'' ''b''"
  by (simp_all add: slot_ready_def demo_job_def target_name_def PARTIAL_FILE_SUFFIX_def demo_server_def
      free_slot_def plain_name_def demo_push)

lemma demo_reception:
  "receive_job demo_env (free_run e) demo_job demo_server demo_stream =
     (if hash_matches e (hex_digest (env_hash demo_env) [5, 6])
      then \<lparr>fs_after = set_node [''in'', ''b''] (Some (File [5, 6])) (set_node [''in'', ''b.quic-part''] None demo_server),
            stream_left = demo_stream\<lparr>pending := [7]\<rparr>,
            recv_events = [TransferProgress 2 2 True, TransferComplete Completed],
            recv_control = [ReceivedFileOk], task_alive = True\<rparr>
      else recv_failed HashFailed [TransferProgress 2 2 True]
             (set_node [''in'', ''b.quic-part''] (Some (File [5, 6])) demo_server) (demo_stream\<lparr>pending := [7]\<rparr>))"
  using receive_job_free[OF demo_server_dir demo_slots(3,4,1), of demo_stream "[5, 6]" "[7]" demo_env e] demo_slots(2)
  by (simp add: free_slot_def demo_stream_def demo_job_def new_content_def actual_hash_def target_name_def
      PARTIAL_FILE_SUFFIX_def)

theorem completed_reception_verified_witness:
  "\<exists>e data rest. [5, 6, 7] = data @ rest \<and> length data = 2
     \<and> nodes (fs_after (receive_job demo_env (free_run ''NONE'') demo_job demo_server demo_stream)) [''in'', ''b'']
         = Some (File (new_content demo_job [] data))
     \<and> hash_matches e (actual_hash demo_env demo_job (new_content demo_job [] data))"
proof -
  have c: "recv_control (receive_job demo_env (free_run ''NONE'') demo_job demo_server demo_stream) = [ReceivedFileOk]"
    by (simp add: demo_reception hash_matches_def)
  have l: "resume_offset demo_job \<le> job_size demo_job" by (simp add: demo_job_def)
  from completed_reception_verified[OF demo_server_dir demo_slots(3,4,1,2) l c] show ?thesis
    by (auto simp: demo_stream_def demo_job_def)
qed

text \<open>
  C17: a reception of a large file that does not succeed, for whatever reason (the stream ends, the
  disk is full, it is cancelled, no hash arrives, the hash differs), leaves the destination as it was.
\<close>

theorem failed_reception_keeps_destination:
  assumes "dir_at fs dir B" "plain_name n" "dest_path job = path_push dir n" "use_part job"
    and "slot_ready job (nodes fs (B @ [target_name job n])) old" "free_slot fs (B @ [n])"
    and "recv_control (receive_job E plan job fs r) \<noteq> [ReceivedFileOk]"
  shows "nodes (fs_after (receive_job E plan job fs r)) (B @ [n]) = nodes fs (B @ [n])"
  by (rule receive_job_failed_frame[OF assms])

theorem failed_reception_keeps_destination_witness:
  "recv_control (receive_job demo_env (free_run ''x'') demo_job demo_server demo_stream) = [ReceivedFileFailed]
   \<and> nodes (fs_after (receive_job demo_env (free_run ''x'') demo_job demo_server demo_stream)) ([''in''] @ [''b''])
       = nodes demo_server ([''in''] @ [''b''])"
proof -
  have "length (hex_digest (env_hash demo_env) [5, 6]) = 32"
    by (simp add: hex_digest_def demo_env_def string_of_bytes_def)
  then have "\<not> hash_matches ''x'' (hex_digest (env_hash demo_env) [5, 6])"
    by (auto simp: hash_matches_def eq_ignore_ascii_case_def dest!: arg_cong[where f = length])
  then have c: "recv_control (receive_job demo_env (free_run ''x'') demo_job demo_server demo_stream) = [ReceivedFileFailed]"
    by (simp add: demo_reception recv_failed_def)
  have u: "use_part demo_job" by (simp add: demo_job_def)
  show ?thesis
    using failed_reception_keeps_destination[OF demo_server_dir demo_slots(3,4) u demo_slots(1,2), of demo_env
        "free_run ''x''" demo_stream] c by simp
qed

text \<open>
  after a failed reception the task stops: of the answers to the sender, \<open>ReceivedFileFailed\<close> can
  only be the last, so no later file is read from a stream that has lost its position.
\<close>

theorem reception_stops_after_failure:
  "ReceivedFileFailed \<notin> set (butlast (snd (snd (receive_task E js fs r))))"
proof (induction E js fs r rule: receive_task.induct)
  case (2 E plan job js fs r)
  let ?res = "receive_job E plan job fs r"
  have c: "recv_control ?res \<in> {[], [ReceivedFileOk], [ReceivedFileFailed]}"
    "recv_control ?res = [ReceivedFileFailed] \<Longrightarrow> \<not> task_alive ?res"
    by (rule receive_job_alive, erule receive_job_alive)
  show ?case
  proof (cases "task_alive ?res")
    case True
    then have "recv_control ?res = [] \<or> recv_control ?res = [ReceivedFileOk]" using c by auto
    then show ?thesis using 2[OF refl True] True
      by (auto simp: Let_def butlast_append split: prod.splits)
  next
    case False
    then show ?thesis using c(1) by (auto simp: Let_def)
  qed
qed simp

text \<open>
  a sending job announces a hash only when it has written the whole rest of the file to the
  stream, wherever a cancellation or an error could have stopped it; the hash is that of the whole
  file if the job computes one.
\<close>

theorem announced_hash_covers_file:
  assumes "fs_metadata fs path = Inr (File c)"
    and "send_control (send_job E fs plan w (path, ck, off)) = [FileSent h]"
  shows "written (stream_out (send_job E fs plan w (path, ck, off))) = written w @ drop (unat off) c
     \<and> h = sent_hash E ck c"
proof -
  let ?f = "\<lparr>pending = c, grain = env_grain E, broken = False\<rparr>"
  let ?h = "if ck \<and> off = 0 then Some [] else None :: byte list option"
  have o: "file_open E fs path = Inr ?f" using assms(1) by (simp add: file_open_def)
  obtain chunks rd where ch: "read_chunks (read_stop plan) 0 (seek_to off ?f) ?h [] = (chunks, rd)" by fastforce
  obtain ok w' t where wr: "write_chunks (write_stop plan) 0 chunks w off = (ok, w', t)" using prod_cases3 by blast
  obtain hs where t: "ok" "rd = Some hs"
    using assms(2) o ch wr by (auto simp: send_job_def split: if_splits option.splits bool.splits)
  have c: "concat chunks = drop (unat off) c" "hs = map_option (\<lambda>h. h @ drop (unat off) c) ?h"
    using read_chunks_some[of "read_stop plan" 0 "seek_to off ?f" ?h "[]" chunks hs] ch t(2)
    by (simp_all add: seek_to_def)
  have full: "full_file_hash E fs path = hex_digest (env_hash E) c"
    using o by (simp add: full_file_hash_def compute_file_sha256_eq)
  show ?thesis
    using assms(2) o ch wr t c full write_chunks_ok[of "write_stop plan" 0 chunks w off w' t]
    by (cases "ck \<and> off = 0") (auto simp: send_job_def sent_hash_def word_gt_0 split: if_splits)
qed

theorem announced_hash_covers_file_witness:
  "written (stream_out (send_job demo_env (demo_client [1, 2, 3]) free_send \<lparr>written = [9], room = None\<rparr> (''/a'', True, 1)))
     = [9] @ drop (unat (1::u64)) [1, 2, 3]"
proof -
  have md: "fs_metadata (demo_client [1, 2, 3]) ''/a'' = Inr (File [1, 2, 3])"
    using demo_offerable[of "[1, 2, 3]"] by (simp add: offerable_def)
  have c: "send_control (send_job demo_env (demo_client [1, 2, 3]) free_send \<lparr>written = [9], room = None\<rparr> (''/a'', True, 1))
      = [FileSent (sent_hash demo_env True [1, 2, 3])]"
    by (simp add: send_job_free[OF md])
  show ?thesis using announced_hash_covers_file[OF md c] by simp
qed

end
