(* ===== verification/Stun.thy ===== *)
theory Stun
  imports Rust_Io
begin

text \<open>
  STUN binding discovery (\<open>stun.rs\<close>): the request, the parser of the response and \<open>discover\<close>.
  Every index and slice of the source is checked here, and leaving the message is the error
  \<open>Panic\<close>, so that the bounds theorem speaks about all of them. The UDP socket and the random
  number generator are the record \<open>socket_env\<close>.
\<close>

section \<open>Addresses and candidates\<close>

datatype ip_addr = IpV4 "byte list" | IpV6 "byte list"

record socket_addr =
  ip :: ip_addr
  port :: u16

record StunCandidate =
  local_port :: u16
  public_addr :: socket_addr
  local_addr :: "ip_addr option"

definition MAGIC_COOKIE :: u32 where "MAGIC_COOKIE = 0x2112A442"
definition BINDING_REQUEST :: u16 where "BINDING_REQUEST = 0x0001"
definition BINDING_SUCCESS :: u16 where "BINDING_SUCCESS = 0x0101"
definition XOR_MAPPED_ADDRESS :: u16 where "XOR_MAPPED_ADDRESS = 0x0020"

datatype stun_error = Panic | InvalidResponse | TransactionMismatch | TruncatedResponse
  | TruncatedAttribute | NoMappedAddress | BindFailed | TimeoutFailed | NoRandom | ConnectFailed
  | SendFailed | NoResponse | NoLocalAddress

section \<open>Checked indexing\<close>

definition byte_at :: "byte list \<Rightarrow> nat \<Rightarrow> stun_error + byte" where
  "byte_at bs i = (if i < length bs then Inr (bs ! i) else Inl Panic)"

definition slice :: "byte list \<Rightarrow> nat \<Rightarrow> nat \<Rightarrow> stun_error + byte list" where
  "slice bs a b = (if a \<le> b \<and> b \<le> length bs then Inr (take (b - a) (drop a bs)) else Inl Panic)"

definition be16_at :: "byte list \<Rightarrow> nat \<Rightarrow> stun_error + u16" where
  "be16_at bs i = rbind (byte_at bs i) (\<lambda>a. rbind (byte_at bs (i + 1)) (\<lambda>b. Inr (u16_from_be a b)))"

fun collect :: "('e + 'a) list \<Rightarrow> 'e + 'a list" where
  "collect [] = Inr []"
| "collect (r # rs) = rbind r (\<lambda>a. rbind (collect rs) (\<lambda>as. Inr (a # as)))"

lemma byte_at_ok [simp]: "i < length bs \<Longrightarrow> byte_at bs i = Inr (bs ! i)"
  by (simp add: byte_at_def)

lemma be16_at_ok [simp]:
  "i + 1 < length bs \<Longrightarrow> be16_at bs i = Inr (u16_from_be (bs ! i) (bs ! (i + 1)))"
  by (simp add: be16_at_def)

lemma collect_Inr: "list_all (\<lambda>i. \<exists>a. f i = Inr a) is \<Longrightarrow> \<exists>as. collect (map f is) = Inr as"
  by (induction "is") auto

lemma collect_map: "list_all (\<lambda>i. f i = Inr (g i)) is \<Longrightarrow> collect (map f is) = Inr (map g is)"
  by (induction "is") auto

lemma rbind_cong [fundef_cong]:
  "m = m' \<Longrightarrow> (\<And>a. m' = Inr a \<Longrightarrow> f a = g a) \<Longrightarrow> rbind m f = rbind m' g"
  by (cases m') auto

section \<open>The response\<close>

definition padding :: "nat \<Rightarrow> nat" where
  "padding len = (4 - len mod 4) mod 4"

text \<open>The address in an attribute, \<open>None\<close> where the source goes on to the next attribute.\<close>

definition mapped_address :: "byte list \<Rightarrow> byte list \<Rightarrow> nat \<Rightarrow> nat \<Rightarrow> stun_error + socket_addr option" where
  "mapped_address message transaction_id value_start len =
     (let cookie = u32_to_be MAGIC_COOKIE in
      rbind (byte_at message (value_start + 1)) (\<lambda>family.
      rbind (be16_at message (value_start + 2)) (\<lambda>raw.
      let mapped_port = raw XOR ucast (drop_bit 16 MAGIC_COOKIE) in
      if family = 1 \<and> 8 \<le> len then
        rbind (collect (map (\<lambda>i. rbind (byte_at message (value_start + 4 + i)) (\<lambda>b.
                 rbind (byte_at cookie i) (\<lambda>m. Inr (b XOR m)))) [0..<4]))
          (\<lambda>bytes. Inr (Some \<lparr>ip = IpV4 bytes, port = mapped_port\<rparr>))
      else if family = 2 \<and> 20 \<le> len then
        rbind (collect (map (\<lambda>index.
                 rbind (if index < 4 then byte_at cookie index else byte_at transaction_id (index - 4))
                   (\<lambda>mask. rbind (byte_at message (value_start + 4 + index)) (\<lambda>b. Inr (b XOR mask))))
                 [0..<16]))
          (\<lambda>bytes. Inr (Some \<lparr>ip = IpV6 bytes, port = mapped_port\<rparr>))
      else Inr None)))"

function attributes :: "byte list \<Rightarrow> byte list \<Rightarrow> nat \<Rightarrow> nat \<Rightarrow> stun_error + socket_addr" where
  "attributes message transaction_id declared_len offset =
     (if offset + 4 \<le> 20 + declared_len then
        rbind (be16_at message offset) (\<lambda>kind.
        rbind (be16_at message (offset + 2)) (\<lambda>raw_length.
        let len = unat raw_length; value_start = offset + 4; value_end = value_start + len in
        if value_end > length message then Inl TruncatedAttribute
        else if kind = XOR_MAPPED_ADDRESS \<and> 8 \<le> len then
          rbind (mapped_address message transaction_id value_start len) (\<lambda>found.
          case found of
            Some a \<Rightarrow> Inr a
          | None \<Rightarrow> attributes message transaction_id declared_len (value_end + padding len))
        else attributes message transaction_id declared_len (value_end + padding len)))
      else Inl NoMappedAddress)"
  by pat_completeness auto
termination
  by (relation "measure (\<lambda>(m, t, d, offset). 20 + d - offset)") auto

declare attributes.simps [simp del]

definition parse_binding_response :: "byte list \<Rightarrow> byte list \<Rightarrow> stun_error + socket_addr" where
  "parse_binding_response message transaction_id =
     (if length message < 20 then Inl InvalidResponse
      else rbind (be16_at message 0) (\<lambda>kind.
      if kind \<noteq> BINDING_SUCCESS then Inl InvalidResponse
      else rbind (slice message 4 8) (\<lambda>cookie. rbind (slice message 8 20) (\<lambda>tx.
      if cookie \<noteq> u32_to_be MAGIC_COOKIE \<or> tx \<noteq> transaction_id then Inl TransactionMismatch
      else rbind (be16_at message 2) (\<lambda>declared.
      if length message < 20 + unat declared then Inl TruncatedResponse
      else attributes message transaction_id (unat declared) 20)))))"

section \<open>Discovery\<close>

text \<open>
  The outside of \<open>discover\<close>: whether the socket binds to an address, the random transaction
  identifier, the local address the socket has, and the datagram that answers a request.
\<close>

record socket_env =
  binds :: "string \<Rightarrow> bool"
  timeout_set :: bool
  random_id :: "byte list option"
  connects :: bool
  own_addr :: "socket_addr option"
  sends :: bool
  answer :: "byte list \<Rightarrow> byte list option"

definition bind_addr :: "socket_addr \<Rightarrow> u16 \<Rightarrow> string" where
  "bind_addr server at_port =
     (case ip server of
        IpV4 _ \<Rightarrow> ''0.0.0.0:'' @ show_word at_port
      | IpV6 _ \<Rightarrow> ''[::]:'' @ show_word at_port)"

definition binding_request :: "byte list \<Rightarrow> byte list" where
  "binding_request transaction_id = u16_to_be BINDING_REQUEST @ [0, 0] @ u32_to_be MAGIC_COOKIE @ transaction_id"

definition discover :: "socket_env \<Rightarrow> socket_addr \<Rightarrow> u16 \<Rightarrow> stun_error + StunCandidate" where
  "discover E server at_port =
     rbind (ensure (binds E (bind_addr server at_port)) BindFailed) (\<lambda>_.
     rbind (ensure (timeout_set E) TimeoutFailed) (\<lambda>_.
     rbind (ok_or NoRandom (random_id E)) (\<lambda>transaction_id.
     let request = binding_request transaction_id in
     rbind (ensure (connects E) ConnectFailed) (\<lambda>_.
     let actual_local_ip = map_option ip (own_addr E) in
     rbind (ensure (sends E) SendFailed) (\<lambda>_.
     rbind (ok_or NoResponse (map_option (take 1024) (answer E request))) (\<lambda>response.
     rbind (parse_binding_response response transaction_id) (\<lambda>mapped.
     rbind (ok_or NoLocalAddress (own_addr E)) (\<lambda>own.
     Inr \<lparr>local_port = port own, public_addr = mapped, local_addr = actual_local_ip\<rparr>))))))))"

section \<open>Bounds\<close>

lemma collect_not_panic:
  "list_all (\<lambda>i. f i \<noteq> Inl Panic) is \<Longrightarrow> collect (map f is) \<noteq> Inl Panic"
  by (induction "is") (auto simp: rbind_Inl_iff)

lemma length_cookie [simp]: "length (u32_to_be MAGIC_COOKIE) = 4"
  by simp

lemma mapped_address_in_bounds:
  assumes "value_start + len \<le> length message" "8 \<le> len" "length transaction_id = 12"
  shows "mapped_address message transaction_id value_start len \<noteq> Inl Panic"
proof -
  have "collect (map (\<lambda>i. rbind (byte_at message (value_start + 4 + i)) (\<lambda>b.
      rbind (byte_at (u32_to_be MAGIC_COOKIE) i) (\<lambda>m. Inr (b XOR m)))) [0..<4]) \<noteq> Inl Panic"
    using assms by (intro collect_not_panic) (auto simp: list_all_iff)
  moreover have "20 \<le> len \<Longrightarrow> collect (map (\<lambda>index.
      rbind (if index < 4 then byte_at (u32_to_be MAGIC_COOKIE) index else byte_at transaction_id (index - 4))
        (\<lambda>mask. rbind (byte_at message (value_start + 4 + index)) (\<lambda>b. Inr (b XOR mask))))
      [0..<16]) \<noteq> Inl Panic"
    using assms by (intro collect_not_panic) (auto simp: list_all_iff)
  ultimately show ?thesis using assms
    by (auto simp: mapped_address_def Let_def rbind_Inl_iff simp del: upt_conv_Cons split: if_splits)
qed

lemma attributes_in_bounds:
  assumes "20 + declared_len \<le> length message" "length transaction_id = 12"
  shows "attributes message transaction_id declared_len offset \<noteq> Inl Panic"
  using assms
proof (induction message transaction_id declared_len offset rule: attributes.induct)
  case (1 message tx declared_len offset)
  show ?case
  proof (cases "offset + 4 \<le> 20 + declared_len")
    case True
    then have r: "be16_at message offset = Inr (u16_from_be (message ! offset) (message ! (offset + 1)))"
      "be16_at message (offset + 2) = Inr (u16_from_be (message ! (offset + 2)) (message ! (offset + 3)))"
      using "1.prems" by (simp_all add: numeral_eq_Suc)
    let ?k = "u16_from_be (message ! offset) (message ! (offset + 1))"
    let ?l = "unat (u16_from_be (message ! (offset + 2)) (message ! (offset + 3)))"
    have next_: "attributes message tx declared_len (offset + 4 + ?l + padding ?l) \<noteq> Inl Panic"
      if "\<not> offset + 4 + ?l > length message"
        and "\<not> (?k = XOR_MAPPED_ADDRESS \<and> 8 \<le> ?l)
           \<or> mapped_address message tx (offset + 4) ?l = Inr None"
      using "1.IH" True r "1.prems" that by (metis (no_types, lifting))
    show ?thesis
      using True r next_ mapped_address_in_bounds[of "offset + 4" ?l message tx] "1.prems"
      by (subst attributes.simps) (auto simp: Let_def rbind_Inl_iff split: option.splits)
  qed (simp add: attributes.simps)
qed

lemma parse_in_bounds:
  "length transaction_id = 12 \<Longrightarrow> parse_binding_response message transaction_id \<noteq> Inl Panic"
  using attributes_in_bounds[of _ message transaction_id 20]
  by (auto simp: parse_binding_response_def slice_def rbind_Inl_iff not_less)

fun address_ok :: "ip_addr \<Rightarrow> bool" where
  "address_ok (IpV4 bs) = (length bs = 4)"
| "address_ok (IpV6 bs) = (length bs = 16)"

lemma collect_length: "collect rs = Inr as \<Longrightarrow> length as = length rs"
  by (induction rs arbitrary: as) (auto simp: rbind_Inr_iff)

lemma mapped_address_ok: "mapped_address message transaction_id value_start len = Inr (Some a) \<Longrightarrow> address_ok (ip a)"
  by (auto simp: mapped_address_def Let_def rbind_Inr_iff dest!: collect_length simp del: upt_conv_Cons split: if_splits)

lemma attributes_ok: "attributes message transaction_id declared_len offset = Inr a \<Longrightarrow> address_ok (ip a)"
proof (induction message transaction_id declared_len offset rule: attributes.induct)
  case (1 message tx declared_len offset)
  note unfolded = "1.prems"[unfolded attributes.simps[of message tx declared_len offset]]
  show ?case
  proof (cases "offset + 4 \<le> 20 + declared_len")
    case True
    with unfolded obtain kind raw where
      k: "be16_at message offset = Inr kind" and l: "be16_at message (offset + 2) = Inr raw"
      by (auto simp only: rbind_Inr_iff if_True)
    have "address_ok (ip a)"
      if "attributes message tx declared_len (offset + 4 + unat raw + padding (unat raw)) = Inr a"
        and "\<not> offset + 4 + unat raw > length message"
        and "\<not> (kind = XOR_MAPPED_ADDRESS \<and> 8 \<le> unat raw)
           \<or> mapped_address message tx (offset + 4) (unat raw) = Inr None"
      using "1.IH" True k l that by (metis (no_types, lifting))
    with True unfolded k l mapped_address_ok[of message tx "offset + 4" "unat raw"] show ?thesis
      by (auto simp: Let_def rbind_Inr_iff simp del: be16_at_ok split: if_splits option.splits)
        (metis not_None_eq)
  qed (use unfolded in simp)
qed

lemma parse_ok: "parse_binding_response message transaction_id = Inr a \<Longrightarrow> address_ok (ip a)"
  by (auto simp: parse_binding_response_def rbind_Inr_iff dest: attributes_ok split: if_splits)

section \<open>The wire format\<close>

text \<open>
  What RFC 8489 prescribes for a server: attributes padded to four bytes, and the mapped address
  masked with the cookie and the transaction identifier.
\<close>

definition attribute :: "u16 \<times> byte list \<Rightarrow> byte list" where
  "attribute kv =
     (case kv of (kind, v) \<Rightarrow>
        u16_to_be kind @ u16_to_be (word_of_nat (length v)) @ v @ replicate (padding (length v)) 0)"

lemma attribute_pair:
  "attribute (k, v) =
     u16_to_be k @ u16_to_be (word_of_nat (length v)) @ v @ replicate (padding (length v)) 0"
  by (simp add: attribute_def)

fun address_bytes :: "ip_addr \<Rightarrow> byte list" where
  "address_bytes (IpV4 bs) = bs"
| "address_bytes (IpV6 bs) = bs"

fun family_byte :: "ip_addr \<Rightarrow> byte" where
  "family_byte (IpV4 _) = 1"
| "family_byte (IpV6 _) = 2"

definition xor_mapped :: "byte list \<Rightarrow> socket_addr \<Rightarrow> byte list" where
  "xor_mapped tx a =
     [0, family_byte (ip a)] @ u16_to_be (port a XOR ucast (drop_bit 16 MAGIC_COOKIE))
     @ map2 (XOR) (address_bytes (ip a)) (u32_to_be MAGIC_COOKIE @ tx)"

definition binding_response :: "byte list \<Rightarrow> (u16 \<times> byte list) list \<Rightarrow> byte list" where
  "binding_response tx attrs =
     (let body = concat (map attribute attrs) in
      u16_to_be BINDING_SUCCESS @ u16_to_be (word_of_nat (length body)) @ u32_to_be MAGIC_COOKIE
      @ tx @ body)"

lemma u16_from_to [simp]: "u16_from_be (u16_to_be v ! 0) (u16_to_be v ! Suc 0) = v"
  by (simp add: u16_to_be_def)

lemma u16_round: "u16_to_be v = [a, b] \<Longrightarrow> u16_from_be a b = v"
  using u16_from_to[of v] by simp

lemma u16_split: "\<exists>a b. u16_to_be v = [a, b]"
  by (simp add: u16_to_be_def)

lemma be16_at_append: "be16_at (pre @ u16_to_be v @ rest) (length pre) = Inr v"
proof -
  obtain a b where ab: "u16_to_be v = [a, b]" using u16_split by blast
  then show ?thesis using u16_round[OF ab] by (simp add: nth_append)
qed

lemma be16_at_after:
  assumes "length p = n" shows "be16_at (pre @ p @ u16_to_be v @ rest) (length pre + n) = Inr v"
  using be16_at_append[of "pre @ p" v rest] assms by simp

lemma unat_length [simp]: "n < 65536 \<Longrightarrow> unat (word_of_nat n :: u16) = n"
  by (rule unat_word_of_nat) simp

text \<open>One turn of the attribute loop over an encoded attribute.\<close>

lemma attributes_step:
  assumes m: "message = pre @ attribute (k, v) @ rest" and v: "length v < 65536"
    and o: "length pre + 4 \<le> 20 + declared_len"
  shows "attributes message tx declared_len (length pre) =
     (let again = attributes message tx declared_len (length pre + length (attribute (k, v))) in
      if k = XOR_MAPPED_ADDRESS \<and> 8 \<le> length v then
        rbind (mapped_address message tx (length pre + 4) (length v)) (\<lambda>found.
          case found of Some a \<Rightarrow> Inr a | None \<Rightarrow> again)
      else again)"
proof -
  have k: "be16_at message (length pre) = Inr k"
    using be16_at_append[of pre k] by (simp add: m attribute_def)
  have l: "be16_at message (length pre + 2) = Inr (word_of_nat (length v))"
    using be16_at_after[of "u16_to_be k" 2 pre] by (simp add: m attribute_def)
  have e: "length pre + 4 + length v + padding (length v) = length pre + length (attribute (k, v))"
    by (simp add: attribute_def)
  show ?thesis
    using o k l v by (subst attributes.simps) (simp add: Let_def e m[symmetric], simp add: m attribute_def)
qed

lemma byte_at_inner:
  "i < length v \<Longrightarrow> byte_at (pre @ v @ rest) (length pre + i) = Inr (v ! i)"
  by (simp add: nth_append)

lemma xor_mapped_length:
  "address_ok (ip a) \<Longrightarrow> length tx = 12 \<Longrightarrow>
     length (xor_mapped tx a) = 4 + length (address_bytes (ip a))"
  by (cases "ip a") (auto simp: xor_mapped_def)

lemma xor_twice [simp]: "(x XOR m) XOR m = (x :: 'a::len word)"
  by (simp add: xor.assoc)

lemma mapped_address_xor:
  assumes a: "address_ok (ip a)" and tx: "length tx = 12"
  shows "mapped_address (pre @ xor_mapped tx a @ rest) tx (length pre) (length (xor_mapped tx a))
     = Inr (Some \<lparr>ip = ip a, port = port a\<rparr>)"
proof -
  let ?v = "xor_mapped tx a" and ?m = "u32_to_be MAGIC_COOKIE @ tx" and ?b = "address_bytes (ip a)"
  let ?msg = "pre @ ?v @ rest"
  have lv: "length ?v = 4 + length ?b" using xor_mapped_length[OF a tx] .
  have fam: "byte_at ?msg (length pre + 1) = Inr (family_byte (ip a))"
    using byte_at_inner[of 1 ?v pre rest] lv by (simp add: xor_mapped_def)
  have po: "be16_at ?msg (length pre + 2) = Inr (port a XOR ucast (drop_bit 16 MAGIC_COOKIE))"
    using be16_at_after[of "[0, family_byte (ip a)]" 2 pre] by (simp add: xor_mapped_def)
  have vi: "?v ! (4 + i) = ?b ! i XOR ?m ! i" if "i < length ?b" for i
    using that a tx by (cases "ip a") (auto simp: xor_mapped_def nth_append)
  have at: "byte_at ?msg (length pre + 4 + i) = Inr (?b ! i XOR ?m ! i)" if "i < length ?b" for i
    using byte_at_inner[of "4 + i" ?v pre rest] vi[OF that] lv that by (simp add: add.assoc)
  show ?thesis
  proof (cases "ip a")
    case (IpV4 bs)
    then have b: "length bs = 4" "?b = bs" using a by simp_all
    have "collect (map (\<lambda>i. rbind (byte_at ?msg (length pre + 4 + i)) (\<lambda>b.
        rbind (byte_at (u32_to_be MAGIC_COOKIE) i) (\<lambda>m. Inr (b XOR m)))) [0..<4]) = Inr (map ((!) bs) [0..<4])"
      using b at by (intro collect_map) (auto simp: list_all_iff nth_append)
    moreover have "map ((!) bs) [0..<4] = bs" using b(1) by (metis map_nth)
    ultimately show ?thesis using fam po IpV4 lv b
      by (simp add: mapped_address_def Let_def del: upt_conv_Cons upt_Suc)
  next
    case (IpV6 bs)
    then have b: "length bs = 16" "?b = bs" using a by simp_all
    have "collect (map (\<lambda>index. rbind (if index < 4 then byte_at (u32_to_be MAGIC_COOKIE) index
           else byte_at tx (index - 4))
        (\<lambda>mask. rbind (byte_at ?msg (length pre + 4 + index)) (\<lambda>b. Inr (b XOR mask))))
      [0..<16]) = Inr (map ((!) bs) [0..<16])"
      using b at tx by (intro collect_map) (auto simp: list_all_iff nth_append)
    moreover have "map ((!) bs) [0..<16] = bs" using b(1) by (metis map_nth)
    ultimately show ?thesis using fam po IpV6 lv b
      by (simp add: mapped_address_def Let_def del: upt_conv_Cons upt_Suc)
  qed
qed

lemma attributes_round:
  assumes a: "address_ok (ip a)" and tx: "length tx = 12"
    and others: "list_all (\<lambda>(k, v). k \<noteq> XOR_MAPPED_ADDRESS \<and> length v < 65536) others"
    and m: "message = pre @ concat (map attribute (others @ (XOR_MAPPED_ADDRESS, xor_mapped tx a) # later))"
    and d: "length message = 20 + declared_len"
  shows "attributes message tx declared_len (length pre) = Inr \<lparr>ip = ip a, port = port a\<rparr>"
  using others m
proof (induction others arbitrary: pre)
  case Nil
  let ?v = "xor_mapped tx a"
  let ?hd = "u16_to_be XOR_MAPPED_ADDRESS @ u16_to_be (word_of_nat (length ?v))"
  have l: "8 \<le> length ?v" "length ?v < 65536"
    using xor_mapped_length[OF a tx] a by (cases "ip a"; simp)+
  have "message = (pre @ ?hd) @ ?v @ replicate (padding (length ?v)) 0 @ concat (map attribute later)"
    using Nil.prems(2) by (simp add: attribute_pair)
  then have "mapped_address message tx (length (pre @ ?hd)) (length ?v) = Inr (Some \<lparr>ip = ip a, port = port a\<rparr>)"
    using mapped_address_xor[OF a tx] by metis
  moreover have "length (pre @ ?hd) = length pre + 4" by simp
  moreover have "message = pre @ attribute (XOR_MAPPED_ADDRESS, ?v) @ concat (map attribute later)"
    using Nil.prems(2) by simp
  moreover have "length pre + 4 \<le> 20 + declared_len" using d Nil.prems(2) by (simp add: attribute_def)
  ultimately show ?case using attributes_step[of message pre XOR_MAPPED_ADDRESS ?v] l by (simp add: Let_def)
next
  case (Cons kv others)
  obtain k v where kv: "kv = (k, v)" by fastforce
  have m: "message = pre @ attribute (k, v)
      @ concat (map attribute (others @ (XOR_MAPPED_ADDRESS, xor_mapped tx a) # later))"
    using Cons.prems(2) kv by simp
  have "length pre + 4 \<le> 20 + declared_len" using d m by (simp add: attribute_def)
  then show ?case
    using attributes_step[OF m] Cons.prems(1) kv Cons.IH[of "pre @ attribute (k, v)"] m
    by (simp add: Let_def)
qed

lemma parse_binding_response_encoded:
  assumes "address_ok (ip a)" "length tx = 12"
    and "list_all (\<lambda>(k, v). k \<noteq> XOR_MAPPED_ADDRESS \<and> length v < 65536) others"
    and "attrs = others @ (XOR_MAPPED_ADDRESS, xor_mapped tx a) # later"
    and "length (concat (map attribute attrs)) < 65536"
  shows "parse_binding_response (binding_response tx attrs) tx = Inr a"
proof -
  let ?body = "concat (map attribute attrs)"
  let ?msg = "binding_response tx attrs"
  let ?pre = "u16_to_be BINDING_SUCCESS @ u16_to_be (word_of_nat (length ?body)) @ u32_to_be MAGIC_COOKIE @ tx"
  have m: "?msg = ?pre @ ?body" by (simp add: binding_response_def Let_def)
  have len: "length ?msg = 20 + length ?body" using assms(2) m by simp
  have k: "be16_at ?msg 0 = Inr BINDING_SUCCESS"
    using be16_at_append[of "[]" BINDING_SUCCESS] by (simp add: binding_response_def Let_def)
  have l: "be16_at ?msg 2 = Inr (word_of_nat (length ?body))"
    using be16_at_after[of "u16_to_be BINDING_SUCCESS" 2 "[]" "word_of_nat (length ?body)"
        "u32_to_be MAGIC_COOKIE @ tx @ ?body"]
    by (simp only: binding_response_def Let_def) (simp add: numeral_2_eq_2 del: be16_at_ok)
  have c: "slice ?msg 4 8 = Inr (u32_to_be MAGIC_COOKIE)" "slice ?msg 8 20 = Inr tx"
    using len assms(2) by (simp_all add: slice_def binding_response_def Let_def)
  have p: "length ?pre = 20" using assms(2) by simp
  have "attributes ?msg tx (length ?body) (length ?pre) = Inr \<lparr>ip = ip a, port = port a\<rparr>"
    by (rule attributes_round[OF assms(1-3) _ len, where later = later]) (fold assms(4), rule m)
  then have "attributes ?msg tx (length ?body) 20 = Inr a" using p by (simp only: p) simp
  then show ?thesis using k l c len assms(5) by (simp add: parse_binding_response_def)
qed

section \<open>Properties\<close>

text \<open>
  C19: No response makes the parser leave the message. Every index and slice of
  \<open>parse_binding_response\<close> is inside the message and the transaction identifier, whatever bytes
  and lengths the datagram holds, the attribute loop terminates, and an address it returns has four
  or sixteen bytes.
\<close>

theorem stun_never_out_of_bounds:
  "length transaction_id = 12 \<Longrightarrow>
     (case parse_binding_response message transaction_id of
        Inl reason \<Rightarrow> reason \<noteq> Panic
      | Inr found \<Rightarrow> address_ok (ip found))"
  using parse_in_bounds parse_ok by (auto split: sum.splits)

theorem stun_never_out_of_bounds_witness:
  "(case parse_binding_response [1, 1, 255, 255] (replicate 12 7) of
        Inl reason \<Rightarrow> reason \<noteq> Panic | Inr found \<Rightarrow> address_ok (ip found))
   \<and> parse_binding_response [1, 1, 255, 255] (replicate 12 7) = Inl InvalidResponse"
  by (rule conjI, rule stun_never_out_of_bounds) (simp_all add: parse_binding_response_def)

text \<open>
  C18: A binding response in the format of the RFC is understood: with the XOR-MAPPED-ADDRESS
  attribute anywhere among attributes of other kinds, for IPv4 and IPv6, the parser returns
  exactly the address and port the server encoded.
\<close>

theorem stun_response_round_trip:
  assumes "address_ok (ip a)" "length tx = 12"
    and "list_all (\<lambda>(k, v). k \<noteq> XOR_MAPPED_ADDRESS \<and> length v < 65536) others"
    and "attrs = others @ (XOR_MAPPED_ADDRESS, xor_mapped tx a) # later"
    and "length (concat (map attribute attrs)) < 65536"
  shows "parse_binding_response (binding_response tx attrs) tx = Inr a"
  by (rule parse_binding_response_encoded[OF assms])

theorem stun_response_round_trip_witness:
  "parse_binding_response
     (binding_response (replicate 12 7)
       [(0x8022, [1, 2, 3]), (XOR_MAPPED_ADDRESS, xor_mapped (replicate 12 7) \<lparr>ip = IpV4 [192, 0, 2, 44], port = 4433\<rparr>)])
     (replicate 12 7) = Inr \<lparr>ip = IpV4 [192, 0, 2, 44], port = 4433\<rparr>"
  by (rule stun_response_round_trip[where others = "[(0x8022, [1, 2, 3])]" and later = "[]"])
    (simp_all add: XOR_MAPPED_ADDRESS_def attribute_def xor_mapped_def padding_def)

text \<open>
  C33: Only the answer to this request is believed. Whatever datagram arrives, \<open>discover\<close> succeeds
  only if the first 1024 bytes of it are a binding success that repeats bytes 4 to 20 of the request it
  sent (the cookie and the fresh random transaction identifier), and the candidate reports the
  port and address the socket really has.
\<close>

theorem discover_authentic:
  assumes "discover E server at_port = Inr c"
  shows "\<exists>tx reply. random_id E = Some tx \<and> answer E (binding_request tx) = Some reply
     \<and> take 2 reply = u16_to_be BINDING_SUCCESS
     \<and> take 16 (drop 4 reply) = take 16 (drop 4 (binding_request tx))
     \<and> parse_binding_response (take 1024 reply) tx = Inr (public_addr c)
     \<and> (case own_addr E of None \<Rightarrow> False
         | Some own \<Rightarrow> local_port c = port own \<and> local_addr c = Some (ip own))"
proof -
  obtain tx reply own where r: "random_id E = Some tx" "answer E (binding_request tx) = Some reply"
    "parse_binding_response (take 1024 reply) tx = Inr (public_addr c)" "own_addr E = Some own"
    "local_port c = port own" "local_addr c = Some (ip own)"
    using assms by (auto simp: discover_def Let_def rbind_Inr_iff)
  let ?m = "take 1024 reply"
  from r(3) have p: "20 \<le> length ?m" "be16_at ?m 0 = Inr BINDING_SUCCESS"
    "slice ?m 4 8 = Inr (u32_to_be MAGIC_COOKIE)" "slice ?m 8 20 = Inr tx"
    by (auto simp: parse_binding_response_def rbind_Inr_iff split: if_splits)
  have t2: "take 2 ?m = [?m ! 0, ?m ! 1]"
    using p(1) by (cases ?m; cases "tl ?m") (auto simp: numeral_eq_Suc)
  have "u16_from_be (?m ! 0) (?m ! 1) = BINDING_SUCCESS"
    using p(1,2) be16_at_ok[of 0 ?m] by simp
  then have "take 2 ?m = u16_to_be BINDING_SUCCESS"
    using t2 u16_to_from_be[of "?m ! 0" "?m ! 1"] by metis
  moreover have "take 16 (drop 4 ?m) = u32_to_be MAGIC_COOKIE @ tx"
    using p(1,3,4) take_add[of 4 12 "drop 4 ?m"] by (simp add: slice_def split: if_splits)
  moreover have "length tx = 12" using p(1,4) by (auto simp: slice_def split: if_splits)
  ultimately show ?thesis using r by (auto simp: binding_request_def min_def take_drop)
qed

definition demo_socket :: socket_env where
  "demo_socket = \<lparr>binds = (\<lambda>_. True), timeout_set = True, random_id = Some (replicate 12 7), connects = True,
     own_addr = Some \<lparr>ip = IpV4 [10, 0, 0, 1], port = 5000\<rparr>, sends = True,
     answer = (\<lambda>_. Some (binding_response (replicate 12 7)
       [(XOR_MAPPED_ADDRESS, xor_mapped (replicate 12 7) \<lparr>ip = IpV4 [192, 0, 2, 44], port = 4433\<rparr>)]))\<rparr>"

definition demo_candidate :: StunCandidate where
  "demo_candidate = \<lparr>local_port = 5000, public_addr = \<lparr>ip = IpV4 [192, 0, 2, 44], port = 4433\<rparr>,
     local_addr = Some (IpV4 [10, 0, 0, 1])\<rparr>"

theorem discover_authentic_witness:
  "local_port demo_candidate = 5000 \<and> random_id demo_socket = Some (replicate 12 7)"
proof -
  let ?a = "\<lparr>ip = IpV4 [192, 0, 2, 44], port = 4433\<rparr>" and ?tx = "replicate 12 7 :: byte list"
  let ?r = "binding_response ?tx [(XOR_MAPPED_ADDRESS, xor_mapped ?tx ?a)]"
  have "parse_binding_response ?r ?tx = Inr ?a"
    by (rule parse_binding_response_encoded[where others = "[]" and later = "[]"])
      (simp_all add: attribute_def xor_mapped_def padding_def)
  moreover have "take 1024 ?r = ?r"
    by (simp add: binding_response_def attribute_def xor_mapped_def padding_def)
  ultimately have "discover demo_socket ?a 5000 = Inr demo_candidate"
    by (simp add: discover_def demo_socket_def demo_candidate_def ensure_def ok_or_def)
  from discover_authentic[OF this] show ?thesis
    by (auto simp: demo_socket_def demo_candidate_def)
qed

end
