(* ===== verification/Cli_Options.thy ===== *)
theory Cli_Options
  imports Directory_Wire Stun
begin

text \<open>
  The options, the dispatch and the exit codes of the command line client (\<open>cli/src/main.rs\<close>).
  The parser of socket addresses and the \<open>clap\<close> parsers behind \<open>strict_validate_args\<close> are
  parameters; \<open>tbl\<close> is the Unicode case table beyond ASCII.
\<close>

section \<open>Options\<close>

abbreviation quoted :: "string \<Rightarrow> string" where
  "quoted s \<equiv> CHR 0x27 # s @ [CHR 0x27]"

datatype TransportPreference = Auto | Direct | StunOnly | Manual | Ssh

record OutputOptions =
  quiet :: bool
  json_output :: bool
  verbose :: bool
  no_progress :: bool
  resume_transfer :: bool
  transport :: TransportPreference
  stun_address :: "socket_addr option"
  quic_host :: "string option"
  quic_port :: "u16 option"
  ssh_port :: "u16 option"
  ssh_identity :: "string option"

definition SUCCESS :: int where "SUCCESS = 0"
definition GENERAL_ERROR :: int where "GENERAL_ERROR = 1"
definition INVALID_INVOCATION :: int where "INVALID_INVOCATION = 2"
definition AUTH_FAILURE :: int where "AUTH_FAILURE = 3"
definition NETWORK_FAILURE :: int where "NETWORK_FAILURE = 4"
definition INTEGRITY_FAILURE :: int where "INTEGRITY_FAILURE = 5"
definition CONFLICT_REFUSAL :: int where "CONFLICT_REFUSAL = 6"
definition PROTOCOL_INCOMPATIBLE :: int where "PROTOCOL_INCOMPATIBLE = 7"
definition CANCELLED :: int where "CANCELLED = 130"

record CliFailure =
  exit_code :: int
  failure_message :: string

definition new_failure :: "int \<Rightarrow> string \<Rightarrow> CliFailure" where
  "new_failure c m = \<lparr>exit_code = c, failure_message = m\<rparr>"

text \<open>The classes of an error message, tried in this order.\<close>

definition message_classes :: "(string list \<times> int) list" where
  "message_classes =
     [([''protocol'', ''incompatible'', ''does not support'', ''missing feature''], PROTOCOL_INCOMPATIBLE),
      ([''thumbprint'', ''certificate'', ''unauthorized'', ''tls alert'', ''handshake'', ''wrong daemon pin'', ''rogue''],
         AUTH_FAILURE),
      ([''checksum'', ''hash mismatch'', ''integrity'', ''hashfailed''], INTEGRITY_FAILURE),
      ([''refused'', ''refuse'', ''already exists'', ''conflict'', ''symlink'', ''traversal''], CONFLICT_REFUSAL),
      ([''network'', ''connection'', ''connect'', ''timeout'', ''timed out'', ''unreachable'', ''exhausted'',
        ''udp transport failed'', ''ssh probe failed''], NETWORK_FAILURE)]"

definition classify_error_message :: "(string \<Rightarrow> string) \<Rightarrow> string \<Rightarrow> int" where
  "classify_error_message tbl msg =
     (let lower = to_lowercase tbl msg in
      case filter (\<lambda>(ws, _). list_ex (str_contains lower) ws) message_classes of
        [] \<Rightarrow> GENERAL_ERROR
      | (_, c) # _ \<Rightarrow> c)"

text \<open>\<open>From<anyhow::Error>\<close>, and \<open>From<io::Error>\<close> by the kind of the error.\<close>

definition failure_of_error :: "(string \<Rightarrow> string) \<Rightarrow> string \<Rightarrow> CliFailure" where
  "failure_of_error tbl msg = new_failure (classify_error_message tbl msg) msg"

datatype io_kind = KindConnectionRefused | KindConnectionReset | KindConnectionAborted | KindNotConnected
  | KindTimedOut | KindPermissionDenied | KindOther

definition failure_of_io :: "io_kind \<Rightarrow> string \<Rightarrow> CliFailure" where
  "failure_of_io k msg =
     new_failure (case k of
         KindPermissionDenied \<Rightarrow> CONFLICT_REFUSAL
       | KindOther \<Rightarrow> GENERAL_ERROR
       | _ \<Rightarrow> NETWORK_FAILURE) msg"

definition transport_of :: "string \<Rightarrow> TransportPreference option" where
  "transport_of v =
     (if v = ''auto'' then Some Auto else if v = ''direct'' then Some Direct
      else if v = ''stun'' then Some StunOnly else if v = ''manual'' then Some Manual
      else if v = ''ssh'' then Some Ssh else None)"

text \<open>One argument of \<open>from_args\<close>; the flags are looked for separately.\<close>

definition output_option :: "(string \<Rightarrow> socket_addr option) \<Rightarrow> string \<Rightarrow> string option \<Rightarrow> OutputOptions
    \<Rightarrow> string + (OutputOptions \<times> bool)" where
  "output_option addr arg nxt o1 =
     (case nxt of
        None \<Rightarrow> Inr (o1, False)
      | Some v \<Rightarrow>
          if arg = ''--transport'' then
            rbind (ok_or ''Invalid transport option'' (transport_of v)) (\<lambda>t. Inr (o1\<lparr>transport := t\<rparr>, True))
          else if arg = ''--stun-server'' then
            rbind (ok_or ''Invalid STUN server address'' (addr v)) (\<lambda>a. Inr (o1\<lparr>stun_address := Some a\<rparr>, True))
          else if arg = ''--quic-host'' then Inr (o1\<lparr>quic_host := Some v\<rparr>, True)
          else if arg = ''--quic-port'' then
            rbind (ok_or ''Invalid QUIC port'' (parse_u16 v)) (\<lambda>p. Inr (o1\<lparr>quic_port := Some p\<rparr>, True))
          else if arg \<in> {''-p'', ''--port''} then
            rbind (ok_or ''Invalid SSH port'' (parse_u16 v)) (\<lambda>p. Inr (o1\<lparr>ssh_port := Some p\<rparr>, True))
          else if arg \<in> {''-i'', ''--identity''} then Inr (o1\<lparr>ssh_identity := Some v\<rparr>, True)
          else Inr (o1, False))"

definition no_options :: OutputOptions where
  "no_options = \<lparr>quiet = False, json_output = False, verbose = False, no_progress = False,
     resume_transfer = False, transport = Auto, stun_address = None, quic_host = None, quic_port = None,
     ssh_port = None, ssh_identity = None\<rparr>"

definition from_args :: "(string \<Rightarrow> socket_addr option) \<Rightarrow> string list \<Rightarrow> string + OutputOptions" where
  "from_args addr args =
     rbind (scan_args (output_option addr) args no_options) (\<lambda>o1.
     let has = (\<lambda>ns. list_ex (\<lambda>a. a \<in> set ns) args);
         options = o1\<lparr>quiet := has [''--quiet'', ''-q''], json_output := has [''--json''],
                      verbose := has [''--verbose''], no_progress := has [''--no-progress''],
                      resume_transfer := has [''-c'', ''--resume'']\<rparr> in
     if quiet options \<and> verbose options then Inl ''Cannot specify both --quiet and --verbose''
     else Inr options)"

text \<open>
  The STUN server: not for the transports that do not use it; else the option, the environment
  variable or the address compiled in, unless it is blank.
\<close>

definition configured_stun_server :: "(string \<Rightarrow> socket_addr option) \<Rightarrow> string option \<Rightarrow> string option
    \<Rightarrow> OutputOptions \<Rightarrow> string + socket_addr option" where
  "configured_stun_server addr env_server compiled opts =
     (if transport opts \<in> {Direct, Manual, Ssh} then Inr None
      else (case stun_address opts of
          Some server \<Rightarrow> Inr (Some server)
        | None \<Rightarrow>
            (case (case env_server of Some s \<Rightarrow> Some s | None \<Rightarrow> compiled) of
               None \<Rightarrow> Inr None
             | Some server \<Rightarrow>
                 if trim server = [] then Inr None
                 else rbind (ok_or ''Invalid configured STUN server address'' (addr server)) (\<lambda>a. Inr (Some a)))))"

definition quic_endpoint :: "string \<Rightarrow> u16 \<Rightarrow> string" where
  "quic_endpoint host at_port =
     (if CHR '':'' \<in> set host \<and> \<not> starts_with ''['' host
      then ''['' @ host @ '']:'' @ show_word at_port else host @ '':'' @ show_word at_port)"

text \<open>\<open>to_socket_addrs\<close> is \<open>lookup\<close>: \<open>None\<close> when the name does not resolve.\<close>

definition resolve_quic_address :: "(string \<Rightarrow> socket_addr list option) \<Rightarrow> string \<Rightarrow> u16 \<Rightarrow> string + socket_addr" where
  "resolve_quic_address lookup host at_port =
     rbind (ok_or (''Failed to resolve QUIC host '' @ quoted host) (lookup (quic_endpoint host at_port))) (\<lambda>as.
     case as of [] \<Rightarrow> Inl (''No IP address resolved for QUIC host '' @ quoted host) | a # _ \<Rightarrow> Inr a)"

section \<open>Dispatch\<close>

text \<open>
  \<open>clap name argv\<close> is the message of the parser of a subcommand, when it rejects its arguments.
\<close>

type_synonym clap = "string \<Rightarrow> string list \<Rightarrow> string option"

definition strict_validate_args :: "clap \<Rightarrow> string list \<Rightarrow> string + unit" where
  "strict_validate_args clap args =
     (if length args < 2 then Inr ()
      else
        (let command = args ! 1; rest = drop 2 args;
             result = (\<lambda>r. case r of None \<Rightarrow> Inr () | Some e \<Rightarrow> Inl e) in
         result (if command = ''pipe'' then clap ''PipeCli'' (''quic pipe'' # rest)
           else if command = ''send'' then clap ''TransferCli'' (''quic'' # rest)
           else if command = ''daemon'' then clap ''DaemonCli'' (''quic daemon'' # rest)
           else if command = ''identity'' then clap ''IdentityCli'' (''quic identity'' # rest)
           else if command \<in> {''direct'', ''--direct''} then clap ''DirectCli'' (''quic direct'' # rest)
           else clap ''TransferCli'' args)))"

datatype cli_action =
    PrintUsage string
  | PrintVersion
  | RunPipe "string list" OutputOptions
  | RunDaemon "string list"
  | RunIdentity "string list"
  | RunDirect "string list" OutputOptions
  | RunTransfer "string list" OutputOptions

definition usage_of :: "string \<Rightarrow> string" where
  "usage_of command =
     (if command \<in> {''daemon'', ''identity'', ''pipe''} then command
      else if command \<in> {''direct'', ''--direct''} then ''direct'' else ''quic'')"

definition run :: "clap \<Rightarrow> (string \<Rightarrow> socket_addr option) \<Rightarrow> (string \<Rightarrow> string) \<Rightarrow> string list \<Rightarrow> CliFailure + cli_action" where
  "run clap addr tbl args =
     (if length args > 2 \<and> list_ex (\<lambda>a. a \<in> {''--help'', ''-h''}) (drop 2 args) then Inr (PrintUsage (usage_of (args ! 1)))
      else if list_ex (\<lambda>a. a \<in> {''--help'', ''-h''}) args then Inr (PrintUsage ''quic'')
      else if list_ex (\<lambda>a. a \<in> {''--version'', ''-V''}) args then Inr PrintVersion
      else if length args < 2 then
        Inl (new_failure INVALID_INVOCATION ''a command or transfer arguments are required'')
      else (case strict_validate_args clap args of
          Inl e \<Rightarrow> Inl (new_failure INVALID_INVOCATION e)
        | Inr _ \<Rightarrow>
            (case from_args addr args of
               Inl e \<Rightarrow> Inl (failure_of_error tbl e)
             | Inr output \<Rightarrow>
                 (let command = args ! 1; rest = drop 2 args in
                  Inr (if command = ''pipe'' then RunPipe rest output
                       else if command = ''daemon'' then RunDaemon rest
                       else if command = ''identity'' then RunIdentity rest
                       else if command \<in> {''direct'', ''--direct''} then RunDirect rest output
                       else if command = ''send'' then RunTransfer rest output
                       else RunTransfer (drop 1 args) output)))))"

text \<open>The exit status of the process, and whether the failure is printed as a receipt.\<close>

definition main_exit :: "string list \<Rightarrow> CliFailure + unit \<Rightarrow> int \<times> (bool \<times> string) option" where
  "main_exit args result =
     (case result of
        Inr _ \<Rightarrow> (0, None)
      | Inl error \<Rightarrow> (exit_code error, Some (''--json'' \<in> set args, failure_message error)))"

definition option_value :: "string list \<Rightarrow> string \<Rightarrow> string option" where
  "option_value args name =
     (case filter (\<lambda>(a, _). a = name) (zip args (tl args)) of [] \<Rightarrow> None | (_, v) # _ \<Rightarrow> Some v)"

definition directory_storage_profile :: "string list \<Rightarrow> string + StorageProfile" where
  "directory_storage_profile args =
     (case option_value args ''--storage-profile'' of
        None \<Rightarrow> Inr StorageProfile.Auto
      | Some v \<Rightarrow>
          if v = ''auto'' then Inr StorageProfile.Auto else if v = ''hdd'' then Inr Hdd
          else if v = ''nvme'' then Inr Nvme
          else Inl ''--storage-profile must be auto, hdd, or nvme'')"

section \<open>Features of the remote worker\<close>

text \<open>Without a version the worker is an old one, with only checksums and resumption.\<close>

definition has_feature :: "u32 option \<Rightarrow> string list \<Rightarrow> string \<Rightarrow> bool" where
  "has_feature version feats feature =
     (case version of Some _ \<Rightarrow> feature \<in> set feats | None \<Rightarrow> feature \<in> {''checksum'', ''resume''})"

definition ensure_feature :: "u32 option \<Rightarrow> string list \<Rightarrow> string \<Rightarrow> string \<Rightarrow> CliFailure + unit" where
  "ensure_feature version feats feature description =
     (if has_feature version feats feature then Inr ()
      else Inl (new_failure PROTOCOL_INCOMPATIBLE
        (''Remote worker does not support '' @ description @ '' (missing feature '' @ quoted feature
         @ ''). Update the remote worker to continue.'')))"

end
