(* ===== verification/Cli_Shell.thy ===== *)
theory Cli_Shell
  imports Prelude
begin

text \<open>
  The commands that the client sends through \<open>ssh\<close> (\<open>shell_quote\<close>, \<open>ssh_command\<close>, the joined worker
  arguments and the command of the SSH fallback in \<open>cli/src/main.rs\<close>), and what a POSIX shell makes of
  them: \<open>sh_tokens\<close> is its token recognition and quote removal for the texts it understands
  without any expansion but that of the home directory, and \<open>None\<close> for every other text.
\<close>

section \<open>The client\<close>

abbreviation squote :: char where "squote \<equiv> CHR 0x27"
abbreviation dquote :: char where "dquote \<equiv> CHR 0x22"
abbreviation backslash :: char where "backslash \<equiv> CHR 0x5C"

definition shell_quote :: "string \<Rightarrow> string" where
  "shell_quote value = squote # replace_char squote [squote, dquote, squote, dquote, squote] value @ [squote]"

definition ssh_command :: "u16 option \<Rightarrow> string option \<Rightarrow> string list" where
  "ssh_command at_port identity =
     (case at_port of None \<Rightarrow> [] | Some p \<Rightarrow> [''-p'', show_word p])
     @ (case identity of None \<Rightarrow> [] | Some i \<Rightarrow> [''-i'', i])"

definition worker_arg_str :: "string list \<Rightarrow> string" where
  "worker_arg_str worker_args =
     join_with '' '' (map (\<lambda>a. if CHR '' '' \<in> set a then dquote # a @ [dquote] else a) worker_args)"

text \<open>A path of the worker on the remote host, as it is put into a command.\<close>

definition quoted_worker_path :: "string \<Rightarrow> string" where
  "quoted_worker_path worker_path =
     (case strip_prefix ''~/'' worker_path of
        Some rel \<Rightarrow> ''$HOME/'' @ shell_quote rel
      | None \<Rightarrow> shell_quote worker_path)"

definition trim_end_slashes :: "string \<Rightarrow> string" where
  "trim_end_slashes s = rev (dropWhile (\<lambda>c. c \<in> {CHR ''/'', backslash}) (rev s))"

definition fallback_remote_path :: "string \<Rightarrow> string \<Rightarrow> string" where
  "fallback_remote_path remote_dir file_name = trim_end_slashes remote_dir @ ''/'' @ file_name"

definition fallback_command :: "string \<Rightarrow> string \<Rightarrow> string" where
  "fallback_command remote_dir file_name =
     ''mkdir -p -- '' @ shell_quote remote_dir @ '' && cat > ''
     @ shell_quote (fallback_remote_path remote_dir file_name)"

section \<open>The shell\<close>

text \<open>
  A word remembers whether it began with the home directory (an unquoted \<open>~/\<close> or \<open>$HOME/\<close>); the
  word being read is \<open>None\<close> between two words, so that \<open>''''\<close> is a word and a blank is none.
\<close>

datatype sh_token = Word string | HomeWord string | Operator string

datatype quoting = Bare | InSingle | InDouble

type_synonym partial_word = "(bool \<times> string) option"

fun add_to :: "partial_word \<Rightarrow> string \<Rightarrow> partial_word" where
  "add_to None s = Some (False, s)"
| "add_to (Some (h, t)) s = Some (h, t @ s)"

fun word_end :: "partial_word \<Rightarrow> sh_token list" where
  "word_end None = []"
| "word_end (Some (False, s)) = [Word s]"
| "word_end (Some (True, s)) = [HomeWord s]"

definition plain_char :: "char \<Rightarrow> bool" where
  "plain_char c \<longleftrightarrow> is_ascii_digit c \<or> (65 \<le> code c \<and> code c \<le> 90) \<or> (97 \<le> code c \<and> code c \<le> 122)
     \<or> c \<in> set ''-_./:,@+''"

definition inert_in_double :: "char \<Rightarrow> bool" where
  "inert_in_double c \<longleftrightarrow> c \<notin> {dquote, CHR ''$'', CHR 0x60, backslash}"

fun sh_read :: "quoting \<Rightarrow> partial_word \<Rightarrow> string \<Rightarrow> sh_token list option" where
  "sh_read q w [] = (if q = Bare then Some (word_end w) else None)"
| "sh_read q w (c # cs) =
     (case q of
        InSingle \<Rightarrow> if c = squote then sh_read Bare w cs else sh_read InSingle (add_to w [c]) cs
      | InDouble \<Rightarrow>
          if c = dquote then sh_read Bare w cs
          else if inert_in_double c then sh_read InDouble (add_to w [c]) cs else None
      | Bare \<Rightarrow>
          if c = squote then sh_read InSingle (add_to w []) cs
          else if c = dquote then sh_read InDouble (add_to w []) cs
          else if c = CHR '' '' then map_option (\<lambda>ts. word_end w @ ts) (sh_read Bare None cs)
          else if c = CHR ''&'' \<and> take 1 cs = ''&'' then
            map_option (\<lambda>ts. word_end w @ Operator ''&&'' # ts) (sh_read Bare None (drop 1 cs))
          else if c = CHR ''>'' \<and> take 1 cs = '' '' then
            map_option (\<lambda>ts. word_end w @ Operator ''>'' # ts) (sh_read Bare None cs)
          else if c = CHR ''~'' \<and> w = None \<and> take 1 cs = ''/'' then sh_read Bare (Some (True, [])) (drop 1 cs)
          else if c = CHR ''$'' \<and> w = None \<and> take 5 cs = ''HOME/'' then sh_read Bare (Some (True, [])) (drop 5 cs)
          else if plain_char c then sh_read Bare (add_to w [c]) cs
          else None)"

definition sh_tokens :: "string \<Rightarrow> sh_token list option" where
  "sh_tokens s = sh_read Bare None s"

section \<open>Reading back what the client writes\<close>

lemma plain_char_bare:
  assumes "plain_char c"
  shows "c \<noteq> squote" "c \<noteq> dquote" "c \<noteq> CHR '' ''" "c \<noteq> CHR ''&''" "c \<noteq> CHR ''>''" "c \<noteq> CHR ''~''" "c \<noteq> CHR ''$''"
  using assms by (auto simp: plain_char_def is_ascii_digit_def code_def)

lemma sh_read_rules [simp]:
  "sh_read Bare w [] = Some (word_end w)"
  "plain_char c \<Longrightarrow> sh_read Bare w (c # cs) = sh_read Bare (add_to w [c]) cs"
  "sh_read Bare w (squote # cs) = sh_read InSingle (add_to w []) cs"
  "sh_read Bare w (dquote # cs) = sh_read InDouble (add_to w []) cs"
  "sh_read Bare w (CHR '' '' # cs) = map_option (\<lambda>ts. word_end w @ ts) (sh_read Bare None cs)"
  "sh_read InSingle w (squote # cs) = sh_read Bare w cs"
  "c \<noteq> squote \<Longrightarrow> sh_read InSingle w (c # cs) = sh_read InSingle (add_to w [c]) cs"
  "sh_read InDouble w (dquote # cs) = sh_read Bare w cs"
  "inert_in_double c \<Longrightarrow> sh_read InDouble w (c # cs) = sh_read InDouble (add_to w [c]) cs"
  using plain_char_bare[of c] by (auto simp: inert_in_double_def)

lemma sh_read_special:
  "sh_read Bare w (CHR ''&'' # CHR ''&'' # cs) = map_option (\<lambda>ts. word_end w @ Operator ''&&'' # ts) (sh_read Bare None cs)"
  "sh_read Bare w (CHR ''>'' # CHR '' '' # cs)
     = map_option (\<lambda>ts. word_end w @ Operator ''>'' # ts) (sh_read Bare None (CHR '' '' # cs))"
  "sh_read Bare None (CHR ''~'' # CHR ''/'' # cs) = sh_read Bare (Some (True, [])) cs"
  "sh_read Bare None (''$HOME/'' @ cs) = sh_read Bare (Some (True, [])) cs"
  by simp_all

declare sh_read.simps [simp del]

lemma add_to_simps [simp]: "add_to (add_to w s) t = add_to w (s @ t)" "add_to w s \<noteq> None"
  "w \<noteq> None \<Longrightarrow> add_to w [] = w"
  by (cases "(w, s)" rule: add_to.cases; auto)+

lemma sh_read_plain_word: "list_all plain_char a \<Longrightarrow> a \<noteq> [] \<Longrightarrow> sh_read Bare w (a @ rest) = sh_read Bare (add_to w a) rest"
proof (induction a arbitrary: w)
  case (Cons c a)
  then show ?case by (cases "a = []") auto
qed simp

lemma sh_read_single:
  "w \<noteq> None \<Longrightarrow> sh_read InSingle w (replace_char squote [squote, dquote, squote, dquote, squote] v @ squote # rest)
     = sh_read Bare (add_to w v) rest"
proof (induction v arbitrary: w)
  case Nil
  then show ?case by (simp add: replace_char_def)
next
  case (Cons c v)
  have inert: "inert_in_double squote" by (simp add: inert_in_double_def)
  show ?case
    using Cons.IH[of "add_to w [c]"] inert by (cases "c = squote") (simp_all add: replace_char_def)
qed

lemma sh_read_quote: "sh_read Bare w (shell_quote v @ rest) = sh_read Bare (add_to w v) rest"
  using sh_read_single[of "add_to w []" v rest] by (simp add: shell_quote_def)

lemma sh_read_double:
  "list_all inert_in_double v \<Longrightarrow> w \<noteq> None \<Longrightarrow> sh_read InDouble w (v @ dquote # rest) = sh_read Bare (add_to w v) rest"
proof (induction v arbitrary: w)
  case (Cons c v)
  then show ?case using Cons.IH[of "add_to w [c]"] by simp
qed simp

text \<open>The arguments that survive the joining of \<open>worker_arg_str\<close>.\<close>

definition survives :: "string \<Rightarrow> bool" where
  "survives a \<longleftrightarrow> (if CHR '' '' \<in> set a then list_all inert_in_double a else a \<noteq> [] \<and> list_all plain_char a)"

lemma sh_read_arg:
  "survives a \<Longrightarrow> sh_read Bare None ((if CHR '' '' \<in> set a then dquote # a @ [dquote] else a) @ rest)
     = sh_read Bare (Some (False, a)) rest"
  using sh_read_double[of a "Some (False, [])" rest] by (auto simp: survives_def sh_read_plain_word)

lemma worker_arg_str_words:
  "list_all survives as \<Longrightarrow> as \<noteq> [] \<Longrightarrow> sh_read Bare None (worker_arg_str as) = Some (map Word as)"
proof (induction as rule: induct_list012)
  case (2 a)
  then show ?case using sh_read_arg[of a "[]"] by (simp add: worker_arg_str_def)
next
  case (3 a b as)
  then show ?case
    using sh_read_arg[of a "CHR '' '' # worker_arg_str (b # as)"] by (simp add: worker_arg_str_def)
qed simp

lemma worker_path_word:
  assumes "worker_path \<noteq> []"
  shows "sh_read Bare None (quoted_worker_path worker_path @ CHR '' '' # rest)
     = map_option (\<lambda>ts. (case strip_prefix ''~/'' worker_path of Some rel \<Rightarrow> HomeWord rel | None \<Rightarrow> Word worker_path) # ts)
         (sh_read Bare None rest)"
  by (cases "strip_prefix ''~/'' worker_path")
    (auto simp: quoted_worker_path_def sh_read_quote sh_read_special(4)[simplified])

text \<open>
  C15: File names cannot escape from the SSH fallback. Whatever characters the remote directory and the
  name of the file hold, the remote shell reads the command of the fallback as exactly
  \<open>mkdir -p -- dir && cat > path\<close>, with the two paths as single words.
\<close>

theorem fallback_command_inert:
  "sh_tokens (fallback_command remote_dir file_name)
     = Some [Word ''mkdir'', Word ''-p'', Word ''--'', Word remote_dir, Operator ''&&'', Word ''cat'',
         Operator ''>'', Word (fallback_remote_path remote_dir file_name)]"
  using sh_read_quote[of None remote_dir "'' && cat > '' @ shell_quote (fallback_remote_path remote_dir file_name)"]
    sh_read_quote[of None "fallback_remote_path remote_dir file_name" "[]"]
  by (simp add: sh_tokens_def fallback_command_def sh_read_special plain_char_def code_def)

end
