(* ===== verification/Cli_Bootstrap.thy ===== *)
theory Cli_Bootstrap
  imports Cli_Options Cli_Shell Result_State Protocol_Types
begin

text \<open>
  The start of the remote worker over \<open>ssh\<close> (\<open>bootstrap_remote_worker\<close> and its helpers in
  \<open>cli/src/main.rs\<close>). The remote host is a parameter: what a call of \<open>ssh\<close> answers may depend on all
  the calls before it. The state is the log of the calls, so that an operation can be followed
  call by call. A worker child is the answer of the call that starts it: the output it will write. Log
  messages of the client are not modelled.
\<close>

section \<open>Calls of ssh\<close>

record ssh_call =
  ssh_args :: "string list"
  ssh_stdin :: "byte list"

record ssh_output =
  succeeded :: bool
  status_text :: string
  stdin_taken :: bool
  out_bytes :: "byte list"
  err_bytes :: "byte list"

type_synonym remote = "ssh_call list \<Rightarrow> ssh_call \<Rightarrow> ssh_output option"

text \<open>What a JSON line of the worker holds, field by field.\<close>

record ready_json =
  js_status :: "string option"
  js_udp_port :: "nat option"
  js_thumbprint :: "string option"
  js_public :: "string option"
  js_version :: "nat option"
  js_features :: "string option list option"

datatype RemotePlatform = LinuxX86_64 | WindowsX86_64

record boot_env =
  remote_host :: remote
  boot_hash :: hashing
  embedded_worker :: "RemotePlatform \<Rightarrow> byte list"
  embedded_runtime :: "RemotePlatform \<Rightarrow> byte list option"
  host_platform :: "RemotePlatform option"
  sibling_file :: "string \<Rightarrow> byte list option"
  token :: string
  boot_json :: "string \<Rightarrow> ready_json option"
  boot_addr :: "string \<Rightarrow> socket_addr option"
  boot_tbl :: "string \<Rightarrow> string"
  stderr_lines_read :: nat

record ssh_target =
  target :: string
  target_port :: "u16 option"
  target_identity :: "string option"

type_synonym 'a boot = "(ssh_call list, string, 'a) op"

definition ssh_batch :: "ssh_target \<Rightarrow> string \<Rightarrow> byte list \<Rightarrow> ssh_call" where
  "ssh_batch T command input =
     \<lparr>ssh_args = ssh_command (target_port T) (target_identity T)
        @ [''-o'', ''BatchMode=yes'', ''-o'', ''StrictHostKeyChecking=no'', target T, command],
      ssh_stdin = input\<rparr>"

text \<open>The answer of a call; \<open>None\<close> when \<open>ssh\<close> cannot be started.\<close>

definition ssh_run :: "boot_env \<Rightarrow> ssh_call \<Rightarrow> ssh_output option boot" where
  "ssh_run B call log = (Inr (remote_host B log call), log @ [call])"

definition out_text :: "ssh_output \<Rightarrow> string" where
  "out_text r = utf8_lossy (string_of_bytes (out_bytes r))"

definition err_text :: "ssh_output \<Rightarrow> string" where
  "err_text r = trim (utf8_lossy (string_of_bytes (err_bytes r)))"

section \<open>The platform and the worker to deploy\<close>

definition WORKER_VERSION :: string where "WORKER_VERSION = ''v0.1.13''"

definition probe_platform :: "boot_env \<Rightarrow> ssh_target \<Rightarrow> RemotePlatform boot" where
  "probe_platform B T =
     sbind (ssh_run B (ssh_batch T ''uname -sm 2>/dev/null || echo Windows %PROCESSOR_ARCHITECTURE%'' [])) (\<lambda>r.
     sbind (slift (ok_or ''Failed to execute SSH probe'' r)) (\<lambda>r.
     sbind (sguard (succeeded r) (''SSH probe failed: '' @ err_text r)) (\<lambda>_.
     let probe_str = trim (out_text r) in
     if str_contains probe_str ''Linux'' \<and> str_contains probe_str ''x86_64'' then sret LinuxX86_64
     else if str_contains probe_str ''Windows'' then sret WindowsX86_64
     else sfail (''Unsupported remote environment: '' @ quoted probe_str))))"

definition binary_name :: "RemotePlatform \<Rightarrow> string" where
  "binary_name p = (case p of
     LinuxX86_64 \<Rightarrow> ''worker-'' @ WORKER_VERSION
   | WindowsX86_64 \<Rightarrow> ''worker-'' @ WORKER_VERSION @ ''.exe'')"

definition runtime_name :: "RemotePlatform \<Rightarrow> string" where
  "runtime_name p = (case p of LinuxX86_64 \<Rightarrow> ''libmsquic.so'' | WindowsX86_64 \<Rightarrow> ''msquic.dll'')"

definition sibling_worker_bytes :: "boot_env \<Rightarrow> RemotePlatform \<Rightarrow> byte list option" where
  "sibling_worker_bytes B p =
     (if host_platform B = Some p
      then (case sibling_file B (case p of LinuxX86_64 \<Rightarrow> ''quiczilla-worker'' | WindowsX86_64 \<Rightarrow> ''quiczilla-worker.exe'') of
              Some c \<Rightarrow> if c = [] then None else Some c
            | None \<Rightarrow> None)
      else None)"

definition local_worker_bytes :: "boot_env \<Rightarrow> RemotePlatform \<Rightarrow> byte list" where
  "local_worker_bytes B p = (case sibling_worker_bytes B p of Some c \<Rightarrow> c | None \<Rightarrow> embedded_worker B p)"

section \<open>An installed worker\<close>

definition find_installed_command :: string where
  "find_installed_command =
     ''which quiczilla-worker 2>/dev/null || which quiczilla 2>/dev/null || which quic 2>/dev/null''
     @ '' || [ -x \"$HOME/.local/bin/quiczilla-worker\" ] && echo \"$HOME/.local/bin/quiczilla-worker\"''
     @ '' || [ -x \"$HOME/.local/bin/quiczilla\" ] && echo \"$HOME/.local/bin/quiczilla\"''
     @ '' || [ -x \"$HOME/.local/bin/quic\" ] && echo \"$HOME/.local/bin/quic\" || true''"

definition usable_path :: "string \<Rightarrow> bool" where
  "usable_path l \<longleftrightarrow> l \<noteq> [] \<and> (starts_with ''/'' l \<or> starts_with ''~'' l \<or> str_contains l [CHR '':'', backslash])"

definition find_installed :: "boot_env \<Rightarrow> ssh_target \<Rightarrow> string option boot" where
  "find_installed B T =
     sbind (ssh_run B (ssh_batch T find_installed_command [])) (\<lambda>r.
     sret (case r of None \<Rightarrow> None | Some r \<Rightarrow> find usable_path (map trim (lines (out_text r)))))"

definition checksum_command :: "RemotePlatform \<Rightarrow> string \<Rightarrow> string" where
  "checksum_command p worker_path = (case p of
     LinuxX86_64 \<Rightarrow> ''sha256sum -- '' @ quoted_worker_path worker_path
   | WindowsX86_64 \<Rightarrow>
       ''powershell -NoProfile -Command \"(Get-FileHash -Algorithm SHA256 -LiteralPath '' @ [squote]
       @ replace_char squote [squote, squote] worker_path @ [squote] @ '').Hash\"'')"

definition is_sha256_hex :: "string \<Rightarrow> bool" where
  "is_sha256_hex h \<longleftrightarrow> length h = 64 \<and> list_all is_ascii_hexdigit h"

definition checksum_answer :: "ssh_output \<Rightarrow> string option" where
  "checksum_answer r =
     (if \<not> succeeded r then None
      else (case from_utf8 (out_bytes r) of
          None \<Rightarrow> None
        | Some t \<Rightarrow>
            (case split_whitespace t of
               [] \<Rightarrow> None
             | h # _ \<Rightarrow> if is_sha256_hex h then Some (map ascii_lower h) else None)))"

definition remote_worker_checksum :: "boot_env \<Rightarrow> RemotePlatform \<Rightarrow> ssh_target \<Rightarrow> string \<Rightarrow> string option boot" where
  "remote_worker_checksum B p T worker_path =
     sbind (ssh_run B (ssh_batch T (checksum_command p worker_path) [])) (\<lambda>r.
     sret (Option.bind r checksum_answer))"

definition installed_call :: "ssh_target \<Rightarrow> string \<Rightarrow> string \<Rightarrow> ssh_call" where
  "installed_call T worker_path arg_str = ssh_batch T (quoted_worker_path worker_path @ '' '' @ arg_str) []"

definition run_installed_worker :: "boot_env \<Rightarrow> ssh_target \<Rightarrow> string \<Rightarrow> string \<Rightarrow> (ssh_call \<times> ssh_output) boot" where
  "run_installed_worker B T worker_path arg_str =
     (let call = installed_call T worker_path arg_str in
      sbind (ssh_run B call) (\<lambda>r.
      sbind (slift (ok_or ''Failed to start installed remote worker'' r)) (\<lambda>child. sret (call, child))))"

section \<open>The managed worker\<close>

definition bundle_hash :: "boot_env \<Rightarrow> byte list \<Rightarrow> byte list \<Rightarrow> string" where
  "bundle_hash B worker runtime =
     to_lowercase (boot_tbl B) (hex_encode (boot_hash B) (sha256 (boot_hash B) (worker @ runtime)))"

definition unix_cache :: "string \<Rightarrow> string" where
  "unix_cache dir = ''~/.cache/quiczilla/'' @ dir"

definition windows_cache :: "string \<Rightarrow> string" where
  "windows_cache dir = ''$env:LOCALAPPDATA'' @ [backslash] @ ''quiczilla'' @ [backslash] @ dir"

definition marker_command :: "RemotePlatform \<Rightarrow> string \<Rightarrow> string" where
  "marker_command p dir = (case p of
     LinuxX86_64 \<Rightarrow> ''cat '' @ unix_cache dir @ ''/bundle.sha256 2>/dev/null''
   | WindowsX86_64 \<Rightarrow>
       ''powershell -NoProfile -Command \"Get-Content -Path '' @ windows_cache dir @ [backslash]
       @ ''bundle.sha256 -ErrorAction SilentlyContinue\"'')"

definition marker_answer :: "boot_env \<Rightarrow> ssh_output option \<Rightarrow> string \<Rightarrow> bool" where
  "marker_answer B r hash = (case r of
     None \<Rightarrow> False
   | Some r \<Rightarrow> to_lowercase (boot_tbl B) (trim (out_text r)) = hash)"

definition upload_command :: "RemotePlatform \<Rightarrow> string \<Rightarrow> string \<Rightarrow> string" where
  "upload_command p dir file_nm = (case p of
     LinuxX86_64 \<Rightarrow>
       ''mkdir -p '' @ unix_cache dir @ '' && cat > '' @ unix_cache dir @ ''/'' @ file_nm
       @ (if starts_with ''worker-'' file_nm then '' && chmod +x '' @ unix_cache dir @ ''/'' @ file_nm else [])
   | WindowsX86_64 \<Rightarrow>
       ''powershell -NoProfile -Command \"New-Item -ItemType Directory -Force -Path '' @ [backslash, dquote]
       @ windows_cache dir @ [backslash, dquote] @ '' | Out-Null; [Console]::OpenStandardInput().CopyTo([IO.File]::Create(''
       @ [backslash, dquote] @ windows_cache dir @ [backslash] @ file_nm @ [backslash, dquote] @ ''))\"'')"

definition upload_call :: "RemotePlatform \<Rightarrow> ssh_target \<Rightarrow> string \<Rightarrow> string \<Rightarrow> byte list \<Rightarrow> ssh_call" where
  "upload_call p T dir file_nm data = ssh_batch T (upload_command p dir file_nm) data"

definition upload_remote_cache_file :: "boot_env \<Rightarrow> RemotePlatform \<Rightarrow> ssh_target \<Rightarrow> string \<Rightarrow> string \<Rightarrow> byte list \<Rightarrow> unit boot" where
  "upload_remote_cache_file B p T dir file_nm data =
     sbind (ssh_run B (upload_call p T dir file_nm data)) (\<lambda>r.
     sbind (slift (ok_or ''Failed to start SSH worker-bundle upload'' r)) (\<lambda>r.
     sbind (sguard (stdin_taken r) ''Failed to upload worker-bundle member'') (\<lambda>_.
     sguard (succeeded r) (''Remote worker-bundle upload failed: '' @ err_text r))))"

definition commit_command :: "RemotePlatform \<Rightarrow> string \<Rightarrow> string \<Rightarrow> string" where
  "commit_command p staging dir = (case p of
     LinuxX86_64 \<Rightarrow>
       ''if [ -d '' @ unix_cache dir @ '' ]; then rm -rf '' @ unix_cache staging @ '' 2>/dev/null || true; else mv -T ''
       @ unix_cache staging @ '' '' @ unix_cache dir @ '' 2>/dev/null || mv '' @ unix_cache staging @ '' ''
       @ unix_cache dir @ '' 2>/dev/null || true; rm -rf '' @ unix_cache staging @ '' 2>/dev/null || true; fi''
   | WindowsX86_64 \<Rightarrow>
       ''powershell -NoProfile -Command \"$root=Join-Path $env:LOCALAPPDATA '' @ quoted ''quiczilla''
       @ ''; $staging=Join-Path $root '' @ quoted staging @ ''; $target=Join-Path $root '' @ quoted dir
       @ ''; if (-not (Test-Path -LiteralPath $target)) { Move-Item -Path $staging -Destination $target -ErrorAction SilentlyContinue }''
       @ ''; if (Test-Path -LiteralPath $staging) { Remove-Item -Recurse -Force -LiteralPath $staging -ErrorAction SilentlyContinue }\"'')"

definition commit_remote_worker_bundle :: "boot_env \<Rightarrow> RemotePlatform \<Rightarrow> ssh_target \<Rightarrow> string \<Rightarrow> string \<Rightarrow> unit boot" where
  "commit_remote_worker_bundle B p T staging dir =
     sbind (ssh_run B (ssh_batch T (commit_command p staging dir) [])) (\<lambda>r.
     sbind (slift (ok_or ''Failed to commit remote worker bundle'' r)) (\<lambda>r.
     sguard (succeeded r) (''Remote worker-bundle commit failed: '' @ err_text r)))"

definition cached_call :: "RemotePlatform \<Rightarrow> ssh_target \<Rightarrow> string \<Rightarrow> string \<Rightarrow> ssh_call" where
  "cached_call p T dir arg_str =
     ssh_batch T (case p of
         LinuxX86_64 \<Rightarrow> unix_cache dir @ ''/'' @ binary_name p @ '' '' @ arg_str
       | WindowsX86_64 \<Rightarrow>
           ''powershell -NoProfile -Command \"& '' @ quoted (windows_cache dir @ [backslash] @ binary_name p)
           @ '' '' @ arg_str @ [dquote]) []"

definition run_cached_worker :: "boot_env \<Rightarrow> RemotePlatform \<Rightarrow> ssh_target \<Rightarrow> string \<Rightarrow> string \<Rightarrow> (ssh_call \<times> ssh_output) boot" where
  "run_cached_worker B p T dir arg_str =
     (let call = cached_call p T dir arg_str in
      sbind (ssh_run B call) (\<lambda>r.
      sbind (slift (ok_or ''Failed to start cached remote worker'' r)) (\<lambda>child. sret (call, child))))"

text \<open>Cleaning the cache is best effort: its outcome is only logged.\<close>

definition prune_command :: "RemotePlatform \<Rightarrow> string" where
  "prune_command p = (case p of
     LinuxX86_64 \<Rightarrow>
       ''find ~/.cache/quiczilla -mindepth 1 -maxdepth 1 -type d -name '' @ quoted ''bundle-*'' @ '' -printf ''
       @ quoted (''%T@ %p'' @ [backslash] @ ''n'') @ '' 2>/dev/null | sort -rn | tail -n +4 | cut -d'' @ quoted '' ''
       @ '' -f2- | while IFS= read -r bundle; do [ -z \"$bundle\" ] || rm -rf -- \"$bundle\"; done; ''
       @ ''find ~/.cache/quiczilla -mindepth 1 -maxdepth 1 -type d -name '' @ quoted ''staging-*''
       @ '' -mmin +30 -exec rm -rf -- {} + 2>/dev/null || true''
   | WindowsX86_64 \<Rightarrow>
       ''powershell -NoProfile -Command \"$root=Join-Path $env:LOCALAPPDATA '' @ quoted ''quiczilla''
       @ ''; if (Test-Path -LiteralPath $root) { Get-ChildItem -LiteralPath $root -Directory -Filter '' @ quoted ''bundle-*''
       @ '' -ErrorAction SilentlyContinue | Sort-Object LastWriteTime -Descending | Select-Object -Skip 3''
       @ '' | Remove-Item -Recurse -Force -ErrorAction SilentlyContinue; Get-ChildItem -LiteralPath $root -Directory -Filter ''
       @ quoted ''staging-*'' @ '' -ErrorAction SilentlyContinue | Where-Object { $_.LastWriteTime -lt (Get-Date).AddMinutes(-30) }''
       @ '' | Remove-Item -Recurse -Force -ErrorAction SilentlyContinue }\"'')"

definition prune_remote_worker_cache :: "boot_env \<Rightarrow> RemotePlatform \<Rightarrow> ssh_target \<Rightarrow> unit boot" where
  "prune_remote_worker_cache B p T = signore (ssh_run B (ssh_batch T (prune_command p) []))"

text \<open>A bundle goes to a staging directory first and is then moved to its content-addressed name.\<close>

definition deploy_bundle :: "boot_env \<Rightarrow> RemotePlatform \<Rightarrow> ssh_target \<Rightarrow> byte list \<Rightarrow> byte list \<Rightarrow> string \<Rightarrow> unit boot" where
  "deploy_bundle B p T worker runtime hash =
     (let staging_dir = ''staging-'' @ hash @ ''-'' @ token B in
      sbind (upload_remote_cache_file B p T staging_dir (binary_name p) worker) (\<lambda>_.
      sbind (upload_remote_cache_file B p T staging_dir (runtime_name p) runtime) (\<lambda>_.
      sbind (upload_remote_cache_file B p T staging_dir ''bundle.sha256'' (as_bytes hash)) (\<lambda>_.
      commit_remote_worker_bundle B p T staging_dir (''bundle-'' @ hash)))))"

definition run_managed_worker :: "boot_env \<Rightarrow> RemotePlatform \<Rightarrow> ssh_target \<Rightarrow> string \<Rightarrow> (ssh_call \<times> ssh_output) boot" where
  "run_managed_worker B p T arg_str =
     (let worker = local_worker_bytes B p in
      sbind (slift (ok_or (''This source-built CLI has no embedded runtime for remote deployment. ''
               @ ''Install quiczilla-worker on the remote host, or use an official release artifact.'')
               (embedded_runtime B p))) (\<lambda>runtime.
      let hash = bundle_hash B worker runtime; bundle_dir = ''bundle-'' @ hash in
      sbind (ssh_run B (ssh_batch T (marker_command p bundle_dir) [])) (\<lambda>r.
      sbind (if marker_answer B r hash then sret () else deploy_bundle B p T worker runtime hash) (\<lambda>_.
      sbind (run_cached_worker B p T bundle_dir arg_str) (\<lambda>child.
      sbind (prune_remote_worker_cache B p T) (\<lambda>_. sret child))))))"

section \<open>The ready line\<close>

record ready_info =
  info_port :: u16
  info_thumbprint :: string
  info_public :: "socket_addr option"
  info_version :: "u32 option"
  info_features :: "string list"

definition no_info :: ready_info where
  "no_info = \<lparr>info_port = 0, info_thumbprint = [], info_public = None, info_version = None, info_features = []\<rparr>"

text \<open>The lines that \<open>read_line\<close> gives, without their ends; every line is trimmed before it is used.\<close>

definition output_lines :: "string \<Rightarrow> string list" where
  "output_lines s = (let ps = split_on (CHR 0x0A) s in if last ps = [] then butlast ps else ps)"

definition ready_of_json :: "boot_env \<Rightarrow> ready_json \<Rightarrow> ready_info option" where
  "ready_of_json B j =
     (if js_status j \<in> {Some ''ready'', Some ''daemon_ready''}
      then Some \<lparr>info_port = (case js_udp_port j of Some p \<Rightarrow> word_of_nat p | None \<Rightarrow> 0),
                 info_thumbprint = (case js_thumbprint j of Some t \<Rightarrow> t | None \<Rightarrow> []),
                 info_public = Option.bind (js_public j) (boot_addr B),
                 info_version = map_option word_of_nat (js_version j),
                 info_features = (case js_features j of None \<Rightarrow> [] | Some fs \<Rightarrow> List.map_filter (\<lambda>f. f) fs)\<rparr>
      else None)"

fun read_ready :: "boot_env \<Rightarrow> string list \<Rightarrow> string + ready_info" where
  "read_ready B [] = Inr no_info"
| "read_ready B (l # ls) =
     (if \<not> utf8_valid l then Inl ''stream did not contain valid UTF-8''
      else (case Option.bind (boot_json B (trim l)) (ready_of_json B) of
          Some info \<Rightarrow> Inr info
        | None \<Rightarrow> read_ready B ls))"

definition check_version :: "u32 option \<Rightarrow> string + unit" where
  "check_version v =
     (case v of
        None \<Rightarrow> Inr ()
      | Some ver \<Rightarrow>
          if ver < MIN_SUPPORTED_PROTOCOL_VERSION then
            Inl (''Remote worker protocol version '' @ show_word ver @ '' is incompatible (minimum supported: ''
                 @ show_word MIN_SUPPORTED_PROTOCOL_VERSION @ ''). Update the remote worker.'')
          else if ver > CURRENT_PROTOCOL_VERSION then
            Inl (''Remote worker protocol version '' @ show_word ver @ '' is newer than client supported version ''
                 @ show_word CURRENT_PROTOCOL_VERSION @ ''. Update the client.'')
          else Inr ())"

text \<open>What a child reports: \<open>None\<close> when its output ends without a usable ready line.\<close>

definition child_ready :: "boot_env \<Rightarrow> ssh_output \<Rightarrow> string + ready_info option" where
  "child_ready B child =
     rbind (read_ready B (output_lines (string_of_bytes (out_bytes child)))) (\<lambda>info.
     if info_port info \<noteq> 0 \<and> info_thumbprint info \<noteq> []
     then rbind (check_version (info_version info)) (\<lambda>_. Inr (Some info))
     else Inr None)"

text \<open>The reader of the standard error collects whole lines until one is not UTF-8.\<close>

definition not_ready :: "boot_env \<Rightarrow> ssh_output \<Rightarrow> string" where
  "not_ready B child =
     (let collected = take (stderr_lines_read B) (takeWhile utf8_valid (output_lines (string_of_bytes (err_bytes child))));
          err_detail = trim (join_with [CHR 0x0A] collected) in
      if err_detail \<noteq> [] then ''Failed to obtain ready state from remote worker: '' @ err_detail
      else ''Failed to obtain ready state from remote worker'')"

text \<open>A managed worker that does not get ready is replaced once by the installed one.\<close>

definition await_ready :: "boot_env \<Rightarrow> ssh_target \<Rightarrow> string option \<Rightarrow> string \<Rightarrow> bool \<Rightarrow> ssh_call \<times> ssh_output
    \<Rightarrow> (ssh_call \<times> ready_info) boot" where
  "await_ready B T installed arg_str used_managed child =
     sbind (slift (child_ready B (snd child))) (\<lambda>ready.
     case ready of
       Some info \<Rightarrow> sret (fst child, info)
     | None \<Rightarrow>
         (case (if used_managed then installed else None) of
            None \<Rightarrow> sfail (not_ready B (snd child))
          | Some path \<Rightarrow>
              sbind (run_installed_worker B T path arg_str) (\<lambda>second.
              sbind (slift (child_ready B (snd second))) (\<lambda>ready.
              case ready of
                Some info \<Rightarrow> sret (fst second, info)
              | None \<Rightarrow> sfail (not_ready B (snd second))))))"

section \<open>The bootstrap\<close>

record WorkerBootstrap =
  boot_child :: ssh_call
  boot_udp_port :: u16
  boot_thumbprint :: string
  boot_host :: string
  boot_public :: "socket_addr option"
  boot_version :: "u32 option"
  boot_features :: "string list"

definition target_host :: "string \<Rightarrow> string" where
  "target_host t = (case split_once (CHR ''@'') t of Some (_, h) \<Rightarrow> h | None \<Rightarrow> t)"

definition start_child :: "boot_env \<Rightarrow> RemotePlatform \<Rightarrow> ssh_target \<Rightarrow> string \<Rightarrow> string option
    \<Rightarrow> (bool \<times> ssh_call \<times> ssh_output) boot" where
  "start_child B p T arg_str installed =
     (let local_hash = hex_encode (boot_hash B) (sha256 (boot_hash B) (local_worker_bytes B p)) in
      sbind (case installed of None \<Rightarrow> sret None | Some path \<Rightarrow> remote_worker_checksum B p T path) (\<lambda>remote_hash.
      case (installed, remote_hash) of
        (Some path, Some h) \<Rightarrow>
          if eq_ignore_ascii_case h local_hash
          then sbind (run_installed_worker B T path arg_str) (\<lambda>child. sret (False, child))
          else sbind (run_managed_worker B p T arg_str) (\<lambda>child. sret (True, child))
      | _ \<Rightarrow> sbind (run_managed_worker B p T arg_str) (\<lambda>child. sret (True, child))))"

definition bootstrap_remote_worker :: "boot_env \<Rightarrow> ssh_target \<Rightarrow> string list \<Rightarrow> WorkerBootstrap boot" where
  "bootstrap_remote_worker B T worker_args =
     sbind (probe_platform B T) (\<lambda>p.
     let arg_str = worker_arg_str worker_args in
     sbind (find_installed B T) (\<lambda>installed.
     sbind (start_child B p T arg_str installed) (\<lambda>(used_managed, child).
     sbind (await_ready B T installed arg_str used_managed child) (\<lambda>(call, info).
     sret \<lparr>boot_child = call, boot_udp_port = info_port info, boot_thumbprint = info_thumbprint info,
           boot_host = target_host (target T), boot_public = info_public info,
           boot_version = info_version info, boot_features = info_features info\<rparr>))))"

section \<open>The log of the calls\<close>

text \<open>A call was made and answered in this way; later calls do not change that.\<close>

definition answered :: "boot_env \<Rightarrow> ssh_call list \<Rightarrow> ssh_call \<Rightarrow> ssh_output option \<Rightarrow> bool" where
  "answered B log call r \<longleftrightarrow> (\<exists>before after. log = before @ call # after \<and> remote_host B before call = r)"

definition log_extends :: "ssh_call list \<Rightarrow> ssh_call list \<Rightarrow> bool" where
  "log_extends log log' \<longleftrightarrow> (\<exists>calls. log' = log @ calls)"

interpretation ssh_log: effect log_extends
  by unfold_locales (auto simp: log_extends_def)

lemma answered_mono: "answered B log call r \<Longrightarrow> log_extends log log' \<Longrightarrow> answered B log' call r"
  by (fastforce simp: answered_def log_extends_def)

lemma ssh_run_iff: "ssh_run B call log = (x, log') \<longleftrightarrow> x = Inr (remote_host B log call) \<and> log' = log @ [call]"
  by (auto simp: ssh_run_def)

lemma answered_last [intro]: "remote_host B log call = r \<Longrightarrow> answered B (log @ [call]) call r"
  by (auto simp: answered_def)

lemma ssh_run_extends [intro]: "log_extends log (snd (ssh_run B call log))"
  by (auto simp: ssh_run_def log_extends_def)

definition carried_out :: "boot_env \<Rightarrow> ssh_call list \<Rightarrow> ssh_call \<Rightarrow> bool" where
  "carried_out B log call \<longleftrightarrow> (\<exists>r. answered B log call (Some r) \<and> succeeded r)"

lemma carried_out_mono: "carried_out B log call \<Longrightarrow> log_extends log log' \<Longrightarrow> carried_out B log' call"
  by (auto simp: carried_out_def intro: answered_mono)

lemmas boot_op_defs = upload_remote_cache_file_def commit_remote_worker_bundle_def run_cached_worker_def
  run_installed_worker_def prune_remote_worker_cache_def remote_worker_checksum_def Let_def

lemma upload_ok:
  assumes "upload_remote_cache_file B p T dir f data log = (Inr u, log')"
  shows "carried_out B log' (upload_call p T dir f data) \<and> log_extends log log'"
  using assms
  by (auto simp: boot_op_defs sbind_Inr_iff ssh_run_iff carried_out_def log_extends_def dest!: answered_last split: if_splits)

lemma commit_ok:
  assumes "commit_remote_worker_bundle B p T staging dir log = (Inr u, log')"
  shows "carried_out B log' (ssh_batch T (commit_command p staging dir) []) \<and> log_extends log log'"
  using assms
  by (auto simp: boot_op_defs sbind_Inr_iff ssh_run_iff carried_out_def log_extends_def dest!: answered_last split: if_splits)

lemma run_cached_ok:
  assumes "run_cached_worker B p T dir arg_str log = (Inr (call, child), log')"
  shows "call = cached_call p T dir arg_str \<and> answered B log' call (Some child) \<and> log_extends log log'"
  using assms
  by (auto simp: boot_op_defs sbind_Inr_iff ssh_run_iff log_extends_def dest!: answered_last split: if_splits)

lemma run_installed_ok:
  assumes "run_installed_worker B T path arg_str log = (Inr (call, child), log')"
  shows "call = installed_call T path arg_str \<and> answered B log' call (Some child) \<and> log_extends log log'"
  using assms
  by (auto simp: boot_op_defs sbind_Inr_iff ssh_run_iff log_extends_def dest!: answered_last split: if_splits)

lemma checksum_ok:
  assumes "remote_worker_checksum B p T path log = (Inr h, log')"
  shows "log_extends log log'
    \<and> (h \<noteq> None \<longrightarrow> (\<exists>r. answered B log' (ssh_batch T (checksum_command p path) []) (Some r) \<and> checksum_answer r = h))"
  using assms
  by (cases "remote_host B log (ssh_batch T (checksum_command p path) [])")
    (auto simp: boot_op_defs sbind_Inr_iff ssh_run_iff log_extends_def dest!: answered_last)

text \<open>The bundle in the cache: its marker was read back, or all of it was uploaded and published.\<close>

definition bundle_in_place :: "boot_env \<Rightarrow> ssh_call list \<Rightarrow> RemotePlatform \<Rightarrow> ssh_target \<Rightarrow> byte list \<Rightarrow> byte list \<Rightarrow> bool" where
  "bundle_in_place B log p T worker runtime \<longleftrightarrow>
     (let hash = bundle_hash B worker runtime; staging = ''staging-'' @ hash @ ''-'' @ token B in
      (\<exists>r. answered B log (ssh_batch T (marker_command p (''bundle-'' @ hash)) []) r \<and> marker_answer B r hash)
      \<or> (carried_out B log (upload_call p T staging (binary_name p) worker)
         \<and> carried_out B log (upload_call p T staging (runtime_name p) runtime)
         \<and> carried_out B log (upload_call p T staging ''bundle.sha256'' (as_bytes hash))
         \<and> carried_out B log (ssh_batch T (commit_command p staging (''bundle-'' @ hash)) [])))"

lemma bundle_in_place_mono:
  "bundle_in_place B log p T w r \<Longrightarrow> log_extends log log' \<Longrightarrow> bundle_in_place B log' p T w r"
  unfolding bundle_in_place_def Let_def by (meson answered_mono carried_out_mono)

lemma deploy_ok:
  assumes "deploy_bundle B p T worker runtime (bundle_hash B worker runtime) log = (Inr u, log')"
  shows "bundle_in_place B log' p T worker runtime \<and> log_extends log log'"
  using assms
  by (auto simp: deploy_bundle_def Let_def sbind_Inr_iff bundle_in_place_def
      dest!: upload_ok commit_ok) (meson carried_out_mono ssh_log.R_trans)+

lemma managed_ok:
  assumes "run_managed_worker B p T arg_str log = (Inr (call, child), log')"
  obtains runtime where "embedded_runtime B p = Some runtime"
    "bundle_in_place B log' p T (local_worker_bytes B p) runtime"
    "call = cached_call p T (''bundle-'' @ bundle_hash B (local_worker_bytes B p) runtime) arg_str"
    "answered B log' call (Some child)" "log_extends log log'"
proof -
  let ?w = "local_worker_bytes B p"
  from assms obtain runtime l1 r l2 l3 where runtime: "embedded_runtime B p = Some runtime"
    and marker: "ssh_run B (ssh_batch T (marker_command p (''bundle-'' @ bundle_hash B ?w runtime)) []) log = (Inr r, l1)"
    and placed: "(if marker_answer B r (bundle_hash B ?w runtime) then sret ()
        else deploy_bundle B p T ?w runtime (bundle_hash B ?w runtime)) l1 = (Inr (), l2)"
    and child: "run_cached_worker B p T (''bundle-'' @ bundle_hash B ?w runtime) arg_str l2 = (Inr (call, child), l3)"
    and prune: "log' = snd (prune_remote_worker_cache B p T l3)"
    by (auto simp: run_managed_worker_def Let_def sbind_Inr_iff)
  have l1: "log_extends log l1" "answered B l1 (ssh_batch T (marker_command p (''bundle-'' @ bundle_hash B ?w runtime)) []) r"
    using marker by (auto simp: ssh_run_iff log_extends_def)
  have l2: "bundle_in_place B l2 p T ?w runtime \<and> log_extends l1 l2"
    using placed l1 deploy_ok[of B p T ?w runtime l1 "()" l2]
    by (auto simp: bundle_in_place_def Let_def ssh_log.R_refl split: if_splits)
  have l3: "log_extends l3 log'"
    unfolding prune prune_remote_worker_cache_def by (intro ssh_log.after_wrapped ssh_run_extends)
  show thesis
  proof (rule that[OF runtime])
    show "bundle_in_place B log' p T ?w runtime"
      using l2 l3 run_cached_ok[OF child] bundle_in_place_mono by blast
    show "call = cached_call p T (''bundle-'' @ bundle_hash B ?w runtime) arg_str"
      using run_cached_ok[OF child] by blast
    show "answered B log' call (Some child)" using run_cached_ok[OF child] l3 answered_mono by blast
    show "log_extends log log'" using l1(1) l2 l3 run_cached_ok[OF child] ssh_log.R_trans by blast
  qed
qed

lemma find_installed_ok:
  assumes "find_installed B T log = (Inr installed, log')"
  shows "log_extends log log'"
  using assms by (auto simp: find_installed_def sbind_Inr_iff ssh_run_iff log_extends_def)

lemma probe_ok:
  assumes "probe_platform B T log = (Inr p, log')"
  shows "log_extends log log'"
  using assms
  by (auto simp: probe_platform_def sbind_Inr_iff ssh_run_iff log_extends_def Let_def split: if_splits)

text \<open>What the bootstrap knows of a child: where it comes from.\<close>

definition managed_child :: "boot_env \<Rightarrow> ssh_target \<Rightarrow> string \<Rightarrow> RemotePlatform \<Rightarrow> ssh_call list \<Rightarrow> ssh_call \<Rightarrow> bool" where
  "managed_child B T arg_str p log call \<longleftrightarrow>
     (\<exists>runtime. embedded_runtime B p = Some runtime
        \<and> bundle_in_place B log p T (local_worker_bytes B p) runtime
        \<and> call = cached_call p T (''bundle-'' @ bundle_hash B (local_worker_bytes B p) runtime) arg_str)"

definition verified_child :: "boot_env \<Rightarrow> ssh_target \<Rightarrow> string \<Rightarrow> RemotePlatform \<Rightarrow> ssh_call list \<Rightarrow> ssh_call \<Rightarrow> bool" where
  "verified_child B T arg_str p log call \<longleftrightarrow>
     (\<exists>path r h. call = installed_call T path arg_str
        \<and> answered B log (ssh_batch T (checksum_command p path) []) (Some r) \<and> checksum_answer r = Some h
        \<and> eq_ignore_ascii_case h (hex_encode (boot_hash B) (sha256 (boot_hash B) (local_worker_bytes B p))))"

lemma child_mono:
  "managed_child B T arg_str p log call \<Longrightarrow> log_extends log log' \<Longrightarrow> managed_child B T arg_str p log' call"
  "verified_child B T arg_str p log call \<Longrightarrow> log_extends log log' \<Longrightarrow> verified_child B T arg_str p log' call"
  using bundle_in_place_mono answered_mono unfolding managed_child_def verified_child_def by blast+

lemma start_child_ok:
  assumes "start_child B p T arg_str installed log = (Inr (used, call, child), log')"
  shows "(if used then managed_child B T arg_str p log' call else verified_child B T arg_str p log' call)
    \<and> answered B log' call (Some child) \<and> log_extends log log'"
proof -
  let ?check = "case installed of None \<Rightarrow> sret None | Some path \<Rightarrow> remote_worker_checksum B p T path"
  let ?local = "hex_encode (boot_hash B) (sha256 (boot_hash B) (local_worker_bytes B p))"
  from assms obtain h l1 where h: "?check log = (Inr h, l1)"
    and rest: "(case (installed, h) of
        (Some path, Some h) \<Rightarrow>
          if eq_ignore_ascii_case h ?local
          then sbind (run_installed_worker B T path arg_str) (\<lambda>child. sret (False, child))
          else sbind (run_managed_worker B p T arg_str) (\<lambda>child. sret (True, child))
      | _ \<Rightarrow> sbind (run_managed_worker B p T arg_str) (\<lambda>child. sret (True, child))) l1 = (Inr (used, call, child), log')"
    unfolding start_child_def Let_def sbind_Inr_iff by blast
  have l1: "log_extends log l1"
    using h checksum_ok[of B p T _ log h l1] by (cases installed) (auto simp: ssh_log.R_refl)
  show ?thesis
  proof (cases "\<exists>path h'. installed = Some path \<and> h = Some h' \<and> eq_ignore_ascii_case h' ?local")
    case True
    then obtain path h' where e: "installed = Some path" "h = Some h'" "eq_ignore_ascii_case h' ?local" by blast
    then have r: "run_installed_worker B T path arg_str l1 = (Inr (call, child), log')" and u: "\<not> used"
      using rest by (auto simp: sbind_Inr_iff)
    note ran = run_installed_ok[OF r]
    have "verified_child B T arg_str p l1 call"
      using e ran h checksum_ok[of B p T path log h l1] by (auto simp: verified_child_def)
    then show ?thesis using ran u l1 child_mono(2)[of B T arg_str p l1 call log'] ssh_log.R_trans[of log l1 log'] by auto
  next
    case False
    then have "run_managed_worker B p T arg_str l1 = (Inr (call, child), log')" and u: "used"
      using rest by (auto simp: sbind_Inr_iff split: option.splits if_splits)
    from managed_ok[OF this(1)] obtain runtime where
      "embedded_runtime B p = Some runtime" "bundle_in_place B log' p T (local_worker_bytes B p) runtime"
      "call = cached_call p T (''bundle-'' @ bundle_hash B (local_worker_bytes B p) runtime) arg_str"
      "answered B log' call (Some child)" "log_extends l1 log'" .
    then show ?thesis using u l1 ssh_log.R_trans by (auto simp: managed_child_def)
  qed
qed

lemma version_one: "(v :: u32) \<noteq> 0 \<Longrightarrow> \<not> 1 < v \<Longrightarrow> v = 1"
  by unat_arith

lemma check_version_Inr: "check_version v = Inr u \<longleftrightarrow> v = None \<or> v = Some CURRENT_PROTOCOL_VERSION"
  by (auto dest: version_one simp: check_version_def CURRENT_PROTOCOL_VERSION_def MIN_SUPPORTED_PROTOCOL_VERSION_def
      split: option.splits if_splits)

lemma child_ready_Some:
  assumes "child_ready B child = Inr (Some info)"
  shows "info_port info \<noteq> 0 \<and> info_thumbprint info \<noteq> [] \<and> info_version info \<in> {None, Some CURRENT_PROTOCOL_VERSION}"
  using assms by (auto simp: child_ready_def rbind_Inr_iff check_version_Inr split: if_splits)


lemma await_ready_ok:
  assumes "await_ready B T installed arg_str used child log = (Inr (call, info), log')"
    and "answered B log (fst child) (Some (snd child))"
  shows "log_extends log log'
    \<and> (\<exists>out. answered B log' call (Some out) \<and> child_ready B out = Inr (Some info))
    \<and> (call = fst child
       \<or> used \<and> child_ready B (snd child) = Inr None \<and> (\<exists>path. installed = Some path \<and> call = installed_call T path arg_str))"
proof -
  from assms(1) obtain ready where ready: "child_ready B (snd child) = Inr ready"
    and rest: "(case ready of
       Some info \<Rightarrow> sret (fst child, info)
     | None \<Rightarrow>
         (case (if used then installed else None) of
            None \<Rightarrow> sfail (not_ready B (snd child))
          | Some path \<Rightarrow>
              sbind (run_installed_worker B T path arg_str) (\<lambda>second.
              sbind (slift (child_ready B (snd second))) (\<lambda>ready.
              case ready of
                Some info \<Rightarrow> sret (fst second, info)
              | None \<Rightarrow> sfail (not_ready B (snd second)))))) log = (Inr (call, info), log')"
    by (auto simp: await_ready_def sbind_Inr_iff)
  show ?thesis
  proof (cases ready)
    case (Some i)
    then show ?thesis using rest ready assms(2) ssh_log.R_refl[of log] by auto
  next
    case None
    with rest obtain path where u: "used" "installed = Some path" by (auto split: if_splits option.splits)
    with rest None obtain out where "run_installed_worker B T path arg_str log = (Inr (call, out), log')"
      "child_ready B out = Inr (Some info)"
      by (auto simp: sbind_Inr_iff split: option.splits)
    then show ?thesis using u None ready run_installed_ok[of B T path arg_str log call out log'] by auto
  qed
qed

section \<open>Properties\<close>

text \<open>
  C11: The worker the client talks to is the one it means to run. When the bootstrap succeeds, the remote
  platform is known and the child runs from the bundle whose hash was read back or whose three
  files were all uploaded and published, or it is an installed worker with the checksum of the
  client's own worker; only when the managed worker did not report ready is the installed one
  used as it is. The port, thumbprint and version reported come from a complete ready line of
  that child, of a supported version.
\<close>

theorem bootstrap_runs_known_worker:
  assumes "bootstrap_remote_worker B T worker_args log0 = (Inr b, log)"
  shows "\<exists>p. (managed_child B T (worker_arg_str worker_args) p log (boot_child b)
        \<or> verified_child B T (worker_arg_str worker_args) p log (boot_child b)
        \<or> (\<exists>path first out. boot_child b = installed_call T path (worker_arg_str worker_args)
             \<and> managed_child B T (worker_arg_str worker_args) p log first
             \<and> answered B log first (Some out) \<and> child_ready B out = Inr None))
      \<and> (\<exists>out. answered B log (boot_child b) (Some out)
          \<and> child_ready B out = Inr (Some \<lparr>info_port = boot_udp_port b, info_thumbprint = boot_thumbprint b,
                info_public = boot_public b, info_version = boot_version b, info_features = boot_features b\<rparr>))
      \<and> boot_udp_port b \<noteq> 0 \<and> boot_thumbprint b \<noteq> [] \<and> boot_version b \<in> {None, Some CURRENT_PROTOCOL_VERSION}"
proof -
  let ?s = "worker_arg_str worker_args"
  from assms obtain p l1 installed l2 used call child l3 call' info where
    start: "start_child B p T ?s installed l2 = (Inr (used, call, child), l3)"
    and await: "await_ready B T installed ?s used (call, child) l3 = (Inr (call', info), log)"
    and b: "b = \<lparr>boot_child = call', boot_udp_port = info_port info, boot_thumbprint = info_thumbprint info,
        boot_host = target_host (target T), boot_public = info_public info, boot_version = info_version info,
        boot_features = info_features info\<rparr>"
    by (auto simp: bootstrap_remote_worker_def sbind_Inr_iff Let_def split: prod.splits)
  note started = start_child_ok[OF start]
  then have waited: "log_extends l3 log" "\<exists>out. answered B log call' (Some out) \<and> child_ready B out = Inr (Some info)"
    "call' = call \<or> used \<and> child_ready B child = Inr None \<and> (\<exists>path. installed = Some path \<and> call' = installed_call T path ?s)"
    using await_ready_ok[OF await] by auto
  have source: "managed_child B T ?s p log call' \<or> verified_child B T ?s p log call'
      \<or> (\<exists>path first out. call' = installed_call T path ?s \<and> managed_child B T ?s p log first
           \<and> answered B log first (Some out) \<and> child_ready B out = Inr None)"
  proof (cases "call' = call")
    case True
    then show ?thesis using started waited(1) child_mono[of B T ?s p l3 call log] by (auto split: if_splits)
  next
    case False
    then obtain path where "used" "child_ready B child = Inr None" "call' = installed_call T path ?s"
      using waited(3) by blast
    then show ?thesis
      using started waited(1) child_mono(1)[of B T ?s p l3 call log] answered_mono[of B l3 call "Some child" log] by auto
  qed
  obtain out where out: "answered B log call' (Some out)" "child_ready B out = Inr (Some info)"
    using waited(2) by blast
  show ?thesis
    using source out child_ready_Some[OF out(2)] unfolding b WorkerBootstrap.simps
    by (intro exI[of _ p] conjI exI[of _ out]) simp_all
qed

definition demo_remote :: remote where
  "demo_remote log call =
     (let cmd = last (ssh_args call);
          say = (\<lambda>t. Some \<lparr>succeeded = True, status_text = ''exit status: 0'', stdin_taken = True, out_bytes = as_bytes t, err_bytes = []\<rparr>) in
      if take 5 cmd = ''uname'' then say ''Linux x86_64''
      else if take 5 cmd = ''which'' then say []
      else if take 3 cmd = ''cat'' then say []
      else say [CHR 0x0A])"

definition demo_boot :: boot_env where
  "demo_boot = \<lparr>remote_host = demo_remote, boot_hash = \<lparr>sha256 = (\<lambda>c. c), hex_encode = (\<lambda>_. [])\<rparr>,
     embedded_worker = (\<lambda>_. [1]), embedded_runtime = (\<lambda>_. Some [2]), host_platform = None,
     sibling_file = (\<lambda>_. None), token = ''1'',
     boot_json = (\<lambda>_. Some \<lparr>js_status = Some ''ready'', js_udp_port = Some 4433, js_thumbprint = Some ''T'',
        js_public = None, js_version = Some 1, js_features = None\<rparr>),
     boot_addr = (\<lambda>_. None), boot_tbl = (\<lambda>s. s), stderr_lines_read = 0\<rparr>"

definition demo_target :: ssh_target where
  "demo_target = \<lparr>target = ''u@h'', target_port = None, target_identity = None\<rparr>"

lemma trim_ascii:
  assumes "list_all is_ascii s" "s \<noteq> []" "\<not> char_is_whitespace [hd s]" "\<not> char_is_whitespace [last s]"
  shows "trim s = s"
proof -
  obtain c cs where s: "s = c # cs" using assms(2) by (cases s) auto
  then obtain d ds where d: "s = ds @ [d]" using rev_exhaust[of s] by auto
  have "dropWhile char_is_whitespace (map (\<lambda>c. [c]) s) = map (\<lambda>c. [c]) s"
    using s assms(3) by simp
  moreover have "rev (dropWhile char_is_whitespace (rev (map (\<lambda>c. [c]) s))) = map (\<lambda>c. [c]) s"
    using d assms(4) by simp
  ultimately show ?thesis
    using assms(1) by (simp add: concat_map_singleton[where f = id, simplified] trim_def trim_matches_def utf8_chars_ascii)
qed

definition probe_call :: "ssh_target \<Rightarrow> ssh_call" where
  "probe_call T = ssh_batch T ''uname -sm 2>/dev/null || echo Windows %PROCESSOR_ARCHITECTURE%'' []"

lemma probe_linux:
  assumes "remote_host B log (probe_call T) = Some r" "succeeded r" "trim (out_text r) = t"
    "str_contains t ''Linux''" "str_contains t ''x86_64''"
  shows "probe_platform B T log = (Inr LinuxX86_64, log @ [probe_call T])"
  using assms unfolding probe_platform_def probe_call_def[symmetric] Let_def
  by (simp only: sbind_def ssh_run_def ok_or_def slift_app sguard_app sret_app prod.case sum.case option.case simp_thms if_True)

lemma demo_probe: "probe_platform demo_boot demo_target [] = (Inr LinuxX86_64, [probe_call demo_target])"
proof -
  let ?t = "''Linux x86_64''"
  let ?r = "\<lparr>succeeded = True, status_text = ''exit status: 0'', stdin_taken = True, out_bytes = as_bytes ?t, err_bytes = []\<rparr>"
  have u: "utf8_lossy ?t = ?t"
    by (rule utf8_lossy_valid) (simp add: utf8_valid_ascii is_ascii_def code_def)
  have t: "trim ?t = ?t"
    by (rule trim_ascii) (simp_all add: is_ascii_def code_def char_is_whitespace_def)
  have r: "remote_host demo_boot [] (probe_call demo_target) = Some ?r"
    by (simp add: demo_boot_def demo_remote_def probe_call_def ssh_batch_def)
  have c: "str_contains ?t ''Linux''" "str_contains ?t ''x86_64''" by code_simp+
  have o: "trim (out_text ?r) = ?t"
    unfolding out_text_def ssh_output.simps string_of_as_bytes u t ..
  show ?thesis
    using probe_linux[OF r _ o c] by simp
qed

lemma demo_boot_ok: "is_ok (fst (bootstrap_remote_worker demo_boot demo_target [''--pipe''] []))"
  unfolding bootstrap_remote_worker_def sbind_def[of "probe_platform demo_boot demo_target"] demo_probe prod.case sum.case
  by code_simp

theorem bootstrap_runs_known_worker_witness:
  "\<exists>b. fst (bootstrap_remote_worker demo_boot demo_target [''--pipe''] []) = Inr b
     \<and> boot_udp_port b \<noteq> 0 \<and> boot_thumbprint b \<noteq> []"
proof -
  obtain b log where run: "bootstrap_remote_worker demo_boot demo_target [''--pipe''] [] = (Inr b, log)"
    using demo_boot_ok by (cases "bootstrap_remote_worker demo_boot demo_target [''--pipe''] []") (auto simp: is_ok_iff)
  show ?thesis using bootstrap_runs_known_worker[OF run] run by auto
qed

end
