(* ===== verification/Cli_Fallback.thy ===== *)
theory Cli_Fallback
  imports Cli_Bootstrap File_System
begin

text \<open>
  The transfer over \<open>ssh\<close> when no QUIC candidate can be used (\<open>run_ssh_fallback\<close> and
  \<open>emit_json_receipt\<close> in \<open>cli/src/main.rs\<close>), on the log of ssh calls of the bootstrap. The messages of the
  system for an error are the parameter \<open>io_text\<close>. Durations and rates are not modelled, and the
  child's standard input is everything the client writes to it.
\<close>

record receipt =
  receipt_file :: string
  receipt_bytes :: nat
  receipt_transport :: string
  receipt_verified :: bool

definition emit_json_receipt :: "bool \<Rightarrow> string \<Rightarrow> nat \<Rightarrow> string \<Rightarrow> bool \<Rightarrow> receipt option" where
  "emit_json_receipt enabled file_nm n label verified =
     (if \<not> enabled then None
      else Some \<lparr>receipt_file = file_nm, receipt_bytes = n, receipt_transport = label, receipt_verified = verified\<rparr>)"

definition read_local :: "fsys \<Rightarrow> string \<Rightarrow> io_error + byte list" where
  "read_local fs path =
     (case fs_metadata fs path of
        Inl e \<Rightarrow> Inl e
      | Inr (File c) \<Rightarrow> Inr c
      | Inr _ \<Rightarrow> Inl IsADirectory)"

definition fallback_call :: "ssh_target \<Rightarrow> string \<Rightarrow> string \<Rightarrow> byte list \<Rightarrow> ssh_call" where
  "fallback_call T remote_dir file_nm content = ssh_batch T (fallback_command remote_dir file_nm) content"

definition verify_call :: "ssh_target \<Rightarrow> string \<Rightarrow> ssh_call" where
  "verify_call T remote_path =
     \<lparr>ssh_args = ssh_command (target_port T) (target_identity T)
        @ [''-o'', ''BatchMode=yes'', target T, ''sha256sum -- '' @ shell_quote remote_path],
      ssh_stdin = []\<rparr>"

definition hash_reported :: "ssh_output option \<Rightarrow> string \<Rightarrow> bool" where
  "hash_reported reply local_hash =
     (case reply of
        None \<Rightarrow> False
      | Some r \<Rightarrow> succeeded r
          \<and> (case from_utf8 (out_bytes r) of
               None \<Rightarrow> False
             | Some t \<Rightarrow> (case split_whitespace t of [] \<Rightarrow> False | h # _ \<Rightarrow> eq_ignore_ascii_case h local_hash)))"

text \<open>
  The child is started before the local file is opened, so a file that cannot be opened still runs
  the remote command, on empty input.
\<close>

definition run_ssh_fallback :: "boot_env \<Rightarrow> (io_error \<Rightarrow> string) \<Rightarrow> fsys \<Rightarrow> ssh_target \<Rightarrow> string \<Rightarrow> string \<Rightarrow> string
    \<Rightarrow> bool \<Rightarrow> bool \<Rightarrow> receipt option boot" where
  "run_ssh_fallback B io_text fs T local_path remote_dir file_nm checksum_requested json =
     (let opened = read_local fs local_path;
          call = fallback_call T remote_dir file_nm (case opened of Inr c \<Rightarrow> c | Inl _ \<Rightarrow> []) in
      sbind (ssh_run B call) (\<lambda>r.
      sbind (slift (ok_or ''Failed to start SSH fallback transfer'' r)) (\<lambda>r.
      sbind (slift (map_sum io_text id opened)) (\<lambda>content.
      sbind (sguard (stdin_taken r) (io_text BrokenPipe)) (\<lambda>_.
      sbind (sguard (succeeded r) (''SSH fallback exited with '' @ status_text r)) (\<lambda>_.
      sbind (if checksum_requested
             then sbind (ssh_run B (verify_call T (fallback_remote_path remote_dir file_nm))) (\<lambda>check.
                  sret (hash_reported check (hex_encode (boot_hash B) (sha256 (boot_hash B) content))))
             else sret False) (\<lambda>verified.
      sret (emit_json_receipt json file_nm (length content) ''ssh-fallback'' (checksum_requested \<and> verified)))))))))"

definition delivered_over_ssh :: "boot_env \<Rightarrow> fsys \<Rightarrow> ssh_target \<Rightarrow> string \<Rightarrow> string \<Rightarrow> string \<Rightarrow> ssh_call list \<Rightarrow> bool" where
  "delivered_over_ssh B fs T local_path remote_dir file_nm log \<longleftrightarrow>
     (\<exists>content. read_local fs local_path = Inr content
        \<and> carried_out B log (fallback_call T remote_dir file_nm content))"

lemma fallback_cases:
  assumes "run_ssh_fallback B io_text fs T local_path remote_dir file_nm ck json log = (Inr rc, log')"
  obtains content r where "read_local fs local_path = Inr content"
    "remote_host B log (fallback_call T remote_dir file_nm content) = Some r" "succeeded r"
    "let log1 = log @ [fallback_call T remote_dir file_nm content];
         check = verify_call T (fallback_remote_path remote_dir file_nm);
         verified = ck \<and> hash_reported (remote_host B log1 check) (hex_encode (boot_hash B) (sha256 (boot_hash B) content)) in
       log' = (if ck then log1 @ [check] else log1)
       \<and> rc = emit_json_receipt json file_nm (length content) ''ssh-fallback'' verified"
proof -
  from assms obtain content where c: "read_local fs local_path = Inr content"
    by (cases "read_local fs local_path") (auto simp: run_ssh_fallback_def Let_def sbind_Inr_iff)
  show thesis
    using assms c that[of content]
    by (auto simp: run_ssh_fallback_def Let_def sbind_Inr_iff ssh_run_iff split: if_splits)
qed

lemma fallback_delivers:
  assumes "run_ssh_fallback B io_text fs T local_path remote_dir file_nm ck json log = (Inr rc, log')"
  shows "delivered_over_ssh B fs T local_path remote_dir file_nm log' \<and> log_extends log log'"
proof -
  obtain content r where f: "read_local fs local_path = Inr content"
    "remote_host B log (fallback_call T remote_dir file_nm content) = Some r" "succeeded r"
    and l: "log_extends (log @ [fallback_call T remote_dir file_nm content]) log'"
    by (rule fallback_cases[OF assms]) (auto simp: Let_def log_extends_def split: if_splits)
  have "answered B (log @ [fallback_call T remote_dir file_nm content]) (fallback_call T remote_dir file_nm content) (Some r)"
    using f(2) by blast
  then have "carried_out B log' (fallback_call T remote_dir file_nm content)"
    using f(3) carried_out_mono[OF _ l] by (auto simp: carried_out_def)
  then show ?thesis using f(1) l by (auto simp: delivered_over_ssh_def log_extends_def)
qed

text \<open>
  A mismatch is not an error: the transfer counts as done, and only the receipt, when one is
  asked for, says that it is not verified.
\<close>

lemma fallback_tolerates_mismatch:
  assumes "read_local fs local_path = Inr content"
    and "remote_host B log (fallback_call T remote_dir file_nm content) = Some r" "succeeded r" "stdin_taken r"
  shows "\<exists>rc. fst (run_ssh_fallback B io_text fs T local_path remote_dir file_nm True json log) = Inr rc"
  using assms by (auto simp: run_ssh_fallback_def Let_def sbind_def ssh_run_def ok_or_def)

section \<open>Properties\<close>

text \<open>
  C32: A receipt of the fallback tells the truth. When the fallback succeeds, the remote command ran to a
  successful end on exactly the bytes of the local file; the receipt names the file and their
  number, and it says verified only if a checksum was asked for and the remote \<open>sha256sum\<close>,
  run after the transfer, printed the SHA-256 of those bytes.
\<close>

theorem fallback_receipt_true:
  assumes "run_ssh_fallback B io_text fs T local_path remote_dir file_nm checksum True log = (Inr rc, log')"
  shows "\<exists>content r. read_local fs local_path = Inr content
      \<and> carried_out B log' (fallback_call T remote_dir file_nm content)
      \<and> rc = Some r \<and> receipt_file r = file_nm \<and> receipt_bytes r = length content
      \<and> (receipt_verified r \<longleftrightarrow> checksum
           \<and> last log' = verify_call T (fallback_remote_path remote_dir file_nm)
           \<and> hash_reported (remote_host B (butlast log') (last log')) (hex_encode (boot_hash B) (sha256 (boot_hash B) content)))"
proof -
  obtain content where c: "read_local fs local_path = Inr content"
    "carried_out B log' (fallback_call T remote_dir file_nm content)"
    using fallback_delivers[OF assms] by (auto simp: delivered_over_ssh_def)
  show ?thesis
    by (rule fallback_cases[OF assms]) (use c in \<open>auto simp: Let_def emit_json_receipt_def butlast_append split: if_splits\<close>)
qed

definition demo_local :: fsys where
  "demo_local = \<lparr>nodes = [[''a''] \<mapsto> File [7]], cwd = []\<rparr>"

lemma demo_fallback_ok:
  "is_ok (fst (run_ssh_fallback demo_boot (\<lambda>_. []) demo_local demo_target ''/a'' ''in'' ''a'' True True []))"
  by code_simp

theorem fallback_receipt_true_witness:
  "\<exists>rc r. fst (run_ssh_fallback demo_boot (\<lambda>_. []) demo_local demo_target ''/a'' ''in'' ''a'' True True []) = Inr rc
     \<and> rc = Some r \<and> receipt_file r = ''a''"
proof -
  obtain rc log where run: "run_ssh_fallback demo_boot (\<lambda>_. []) demo_local demo_target ''/a'' ''in'' ''a'' True True [] = (Inr rc, log)"
    using demo_fallback_ok
    by (cases "run_ssh_fallback demo_boot (\<lambda>_. []) demo_local demo_target ''/a'' ''in'' ''a'' True True []") (auto simp: is_ok_iff)
  show ?thesis using fallback_receipt_true[OF run] run by auto
qed

end
