(* ===== verification/Cli_Race.thy ===== *)
theory Cli_Race
  imports Cli_Options
begin

text \<open>
  The choice of a QUIC candidate (\<open>connect_quic_candidate\<close> of \<open>cli/src/main.rs\<close>): in automatic
  mode the direct address and the STUN address race. A turn of the \<open>select!\<close> takes one branch. The
  order in which futures get ready is the schedule; \<open>d\<close> and \<open>s\<close> are the results of the attempts
  at the two addresses. A future that is polled again after it has returned panics, as the
  future of an \<open>async fn\<close> does.
\<close>

section \<open>One turn\<close>

record race =
  direct_pending :: bool
  stun_pending :: bool
  direct_error :: "string option"
  stun_error :: "string option"
  stun_returned :: bool

definition race_start :: race where
  "race_start = \<lparr>direct_pending = True, stun_pending = False, direct_error = None, stun_error = None,
     stun_returned = False\<rparr>"

text \<open>
  The branch whose future is found ready; \<open>StunPolled\<close> is the poll of a STUN future that has
  already returned.
\<close>

datatype branch = DirectDone | HeadStartElapsed | StunDone | StunPolled

datatype 'c race_end = RaceWon 'c string | BothFailed string | RacePanic

text \<open>What can happen in a turn: the guards of the branches, and what the futures can still do.\<close>

fun possible :: "race \<Rightarrow> branch \<Rightarrow> bool" where
  "possible st DirectDone = direct_pending st"
| "possible st HeadStartElapsed = (\<not> stun_pending st)"
| "possible st StunDone = (stun_pending st \<and> \<not> stun_returned st)"
| "possible st StunPolled = (stun_pending st \<and> stun_returned st)"

definition error_or_not_attempted :: "string option \<Rightarrow> string" where
  "error_or_not_attempted e = (case e of Some m \<Rightarrow> m | None \<Rightarrow> ''not attempted'')"

definition both_failed :: "string option \<Rightarrow> string option \<Rightarrow> string" where
  "both_failed direct stun =
     ''direct QUIC candidate failed: '' @ error_or_not_attempted direct
     @ ''; STUN candidate failed: '' @ error_or_not_attempted stun"

definition after_turn :: "race \<Rightarrow> race + 'c race_end" where
  "after_turn st =
     (if \<not> direct_pending st \<and> \<not> stun_pending st
      then Inr (BothFailed (both_failed (direct_error st) (stun_error st))) else Inl st)"

fun turn :: "string + 'c \<Rightarrow> string + 'c \<Rightarrow> race \<Rightarrow> branch \<Rightarrow> race + 'c race_end" where
  "turn d s st DirectDone =
     (case d of
        Inr c \<Rightarrow> Inr (RaceWon c ''direct-quic'')
      | Inl e \<Rightarrow> after_turn (st\<lparr>direct_pending := False, direct_error := Some e, stun_pending := True\<rparr>))"
| "turn d s st HeadStartElapsed = after_turn (st\<lparr>stun_pending := True\<rparr>)"
| "turn d s st StunDone =
     (case s of
        Inr c \<Rightarrow> Inr (RaceWon c ''stun-quic'')
      | Inl e \<Rightarrow> after_turn (st\<lparr>stun_pending := False, stun_returned := True, stun_error := Some e\<rparr>))"
| "turn d s st StunPolled = Inr RacePanic"

section \<open>The race and the whole function\<close>

text \<open>\<open>None\<close>: the schedule is not a possible one.\<close>

fun run_race :: "string + 'c \<Rightarrow> string + 'c \<Rightarrow> race \<Rightarrow> branch list \<Rightarrow> (race + 'c race_end) option" where
  "run_race d s st [] = Some (Inl st)"
| "run_race d s st (b # bs) =
     (if \<not> possible st b then None
      else case turn d s st b of
             Inl st' \<Rightarrow> run_race d s st' bs
           | Inr r \<Rightarrow> if bs = [] then Some (Inr r) else None)"

datatype 'c candidate = Candidate "string + 'c \<times> string" | CandidatePanic | StillRacing

definition alone :: "string + 'c \<Rightarrow> string \<Rightarrow> 'c candidate" where
  "alone res label = Candidate (rbind res (\<lambda>c. Inr (c, label)))"

definition connect_quic_candidate :: "OutputOptions \<Rightarrow> (socket_addr \<Rightarrow> socket_addr option \<Rightarrow> string + 'c)
    \<Rightarrow> branch list \<Rightarrow> socket_addr \<Rightarrow> socket_addr option \<Rightarrow> socket_addr option \<Rightarrow> 'c candidate" where
  "connect_quic_candidate opts attempt schedule direct_addr stun_addr stun_bind =
     (case transport opts of
        Direct \<Rightarrow> alone (attempt direct_addr None) ''direct-quic''
      | Manual \<Rightarrow> alone (attempt direct_addr None) ''manual-quic''
      | StunOnly \<Rightarrow>
          (case stun_addr of
             None \<Rightarrow> Candidate (Inl ''Remote worker did not report a STUN public candidate'')
           | Some a \<Rightarrow> alone (attempt a stun_bind) ''stun-quic'')
      | Ssh \<Rightarrow> CandidatePanic
      | Auto \<Rightarrow>
          (case stun_addr of
             None \<Rightarrow> alone (attempt direct_addr None) ''direct-quic''
           | Some a \<Rightarrow>
               (case run_race (attempt direct_addr None) (attempt a stun_bind) race_start schedule of
                  Some (Inr (RaceWon c label)) \<Rightarrow> Candidate (Inr (c, label))
                | Some (Inr (BothFailed e)) \<Rightarrow> Candidate (Inl e)
                | Some (Inr RacePanic) \<Rightarrow> CandidatePanic
                | _ \<Rightarrow> StillRacing)))"

section \<open>Outcomes of a race\<close>

text \<open>The order in which the two candidates returned.\<close>

definition returns :: "branch list \<Rightarrow> branch list" where
  "returns bs = filter (\<lambda>b. b \<in> {DirectDone, StunDone}) bs"

fun outcome_ok :: "string + 'c \<Rightarrow> string + 'c \<Rightarrow> branch list \<Rightarrow> 'c race_end \<Rightarrow> bool" where
  "outcome_ok d s bs (RaceWon c label) =
     ((d = Inr c \<and> label = ''direct-quic'' \<and> last bs = DirectDone)
      \<or> (s = Inr c \<and> label = ''stun-quic'' \<and> last bs = StunDone))"
| "outcome_ok d s bs (BothFailed m) =
     (\<exists>ed es. d = Inl ed \<and> s = Inl es \<and> m = both_failed (Some ed) (Some es) \<and> returns bs = [DirectDone, StunDone])"
| "outcome_ok d s bs RacePanic = (\<not> is_ok s \<and> hd (returns bs) = StunDone \<and> last bs = StunPolled)"

text \<open>The phases of a race: what has returned, what is enabled, and how many turns remain.\<close>

fun phase_ok :: "string + 'c \<Rightarrow> string + 'c \<Rightarrow> branch list \<Rightarrow> race \<Rightarrow> bool" where
  "phase_ok d s bs st =
     ((returns bs = [] \<and> direct_pending st \<and> \<not> stun_returned st
         \<and> length bs = (if stun_pending st then 1 else 0) \<and> direct_error st = None \<and> stun_error st = None)
      \<or> (\<exists>e. returns bs = [DirectDone] \<and> d = Inl e \<and> \<not> direct_pending st \<and> stun_pending st
         \<and> \<not> stun_returned st \<and> direct_error st = Some e \<and> length bs \<le> 2)
      \<or> (\<exists>e. returns bs = [StunDone] \<and> s = Inl e \<and> direct_pending st \<and> stun_returned st
         \<and> length bs = (if stun_pending st then 3 else 2))
      \<or> (\<exists>e e'. returns bs = [StunDone, DirectDone] \<and> s = Inl e \<and> d = Inl e' \<and> \<not> direct_pending st
         \<and> stun_pending st \<and> stun_returned st \<and> length bs \<le> 4))"

lemmas race_defs = after_turn_def returns_def

lemma run_race_snoc:
  "run_race d s st (bs @ [b]) =
     (case run_race d s st bs of
        Some (Inl st') \<Rightarrow> if possible st' b then Some (turn d s st' b) else None
      | _ \<Rightarrow> None)"
  by (induction bs arbitrary: st) (auto split: sum.splits)

lemma turn_phase:
  assumes "phase_ok d s bs st" "possible st b"
  shows "case turn d s st b of Inl st' \<Rightarrow> phase_ok d s (bs @ [b]) st' | Inr r \<Rightarrow> outcome_ok d s (bs @ [b]) r"
  using assms by (cases b) (auto simp: race_defs split: sum.splits if_splits)

lemma run_race_phase:
  "run_race d s race_start bs = Some x \<Longrightarrow>
     (case x of Inl st \<Rightarrow> phase_ok d s bs st | Inr r \<Rightarrow> outcome_ok d s bs r)"
proof (induction bs arbitrary: x rule: rev_induct)
  case Nil
  then show ?case by (auto simp: race_start_def returns_def)
next
  case (snoc b bs)
  from snoc.prems obtain st where st: "run_race d s race_start bs = Some (Inl st)" "possible st b" "x = turn d s st b"
    by (auto simp: run_race_snoc split: option.splits sum.splits if_splits)
  with snoc.IH[OF st(1)] turn_phase[of d s bs st b] show ?case by simp
qed

lemma run_race_outcome:
  "run_race d s race_start bs = Some (Inr r) \<Longrightarrow> outcome_ok d s bs r"
  by (drule run_race_phase) simp

lemma run_race_unfinished:
  assumes "run_race d s race_start bs = Some (Inl st)"
  shows "length bs \<le> 4 \<and> (\<exists>b. possible st b)"
proof
  have p: "phase_ok d s bs st" using run_race_phase[OF assms] by simp
  then show "length bs \<le> 4" by (auto split: if_splits)
  from p show "\<exists>b. possible st b"
    by (cases "stun_pending st"; cases "stun_returned st")
      (auto intro: exI[where x = HeadStartElapsed] exI[where x = StunDone] exI[where x = StunPolled])
qed

text \<open>
  A panic is reachable: when the STUN candidate fails while the direct one is still waiting, the
  elapsed head start enables its branch again, and the next turn polls the finished future.
\<close>

lemma stun_failure_panics:
  assumes "transport opts = Auto" "attempt a stun_bind = Inl e"
  shows "connect_quic_candidate opts attempt [HeadStartElapsed, StunDone, HeadStartElapsed, StunPolled]
    direct_addr (Some a) stun_bind = CandidatePanic"
  using assms by (simp add: connect_quic_candidate_def race_start_def race_defs)

section \<open>Properties\<close>

text \<open>
  The connection chosen is one the transport preference allows: its label names the candidate
  that connected, a direct or manual transport never uses the STUN address, and the STUN
  transport never the direct one.
\<close>

theorem chosen_candidate_allowed:
  assumes "connect_quic_candidate opts attempt schedule direct_addr stun_addr stun_bind = Candidate (Inr (c, label))"
  shows "(label = ''direct-quic'' \<and> transport opts \<in> {Auto, Direct} \<and> attempt direct_addr None = Inr c)
    \<or> (label = ''manual-quic'' \<and> transport opts = Manual \<and> attempt direct_addr None = Inr c)
    \<or> (label = ''stun-quic'' \<and> transport opts \<in> {Auto, StunOnly}
        \<and> (\<exists>a. stun_addr = Some a \<and> attempt a stun_bind = Inr c))"
  using assms
  by (auto simp: connect_quic_candidate_def alone_def rbind_Inr_iff dest!: run_race_phase
      split: TransportPreference.splits option.splits sum.splits race_end.splits)

definition demo_addr :: socket_addr where
  "demo_addr = \<lparr>ip = IpV4 [192, 0, 2, 1], port = 4433\<rparr>"

definition demo_attempt :: "socket_addr \<Rightarrow> socket_addr option \<Rightarrow> string + nat" where
  "demo_attempt a b = (if b = None then Inl ''timeout'' else Inr 7)"

theorem chosen_candidate_allowed_witness:
  "connect_quic_candidate no_options demo_attempt [HeadStartElapsed, StunDone] demo_addr (Some demo_addr) (Some demo_addr)
     = Candidate (Inr (7, ''stun-quic''))
   \<and> (\<exists>a. Some demo_addr = Some a \<and> demo_attempt a (Some demo_addr) = Inr 7)"
proof -
  have run: "connect_quic_candidate no_options demo_attempt [HeadStartElapsed, StunDone] demo_addr (Some demo_addr)
      (Some demo_addr) = Candidate (Inr (7, ''stun-quic''))"
    by (simp add: connect_quic_candidate_def race_start_def race_defs demo_attempt_def no_options_def)
  with chosen_candidate_allowed[OF run] show ?thesis by simp
qed

text \<open>
  C26: The race of the automatic transport always ends, after at most five turns, and what it
  reports is true: it gives up only when both candidates have failed, the direct one first, with
  both reasons; it panics only when the STUN candidate failed first.
\<close>

theorem race_settles:
  assumes "run_race d s race_start bs = Some res"
  shows "case res of
      Inl st \<Rightarrow> length bs \<le> 4 \<and> (\<exists>b. possible st b)
    | Inr (RaceWon c label) \<Rightarrow>
        (d = Inr c \<and> label = ''direct-quic'' \<and> last bs = DirectDone)
        \<or> (s = Inr c \<and> label = ''stun-quic'' \<and> last bs = StunDone)
    | Inr (BothFailed m) \<Rightarrow>
        (\<exists>ed es. d = Inl ed \<and> s = Inl es \<and> m = both_failed (Some ed) (Some es) \<and> returns bs = [DirectDone, StunDone])
    | Inr RacePanic \<Rightarrow> \<not> is_ok s \<and> hd (returns bs) = StunDone \<and> last bs = StunPolled"
  using assms run_race_unfinished[of d s bs] run_race_outcome[of d s bs]
  by (auto split: sum.splits race_end.splits)

theorem race_settles_witness:
  "run_race (Inl ''timeout'') (Inl ''reset'' :: string + nat) race_start [DirectDone, StunDone]
     = Some (Inr (BothFailed (both_failed (Some ''timeout'') (Some ''reset''))))
   \<and> returns [DirectDone, StunDone] = [DirectDone, StunDone]"
proof -
  have run: "run_race (Inl ''timeout'') (Inl ''reset'' :: string + nat) race_start [DirectDone, StunDone]
      = Some (Inr (BothFailed (both_failed (Some ''timeout'') (Some ''reset''))))"
    by (simp add: race_start_def race_defs)
  with race_settles[OF run] show ?thesis by auto
qed

end
