(* ===== verification/Pipe.thy ===== *)
theory Pipe
  imports Protocol_Types
begin

text \<open>
  Raw pipes (\<open>pipe.rs\<close>) and the opening of a file session (\<open>client.rs\<close>, \<open>server.rs\<close>): the two
  tasks of \<open>run_pipe\<close>, the headers the client writes on its two streams and the pairing of them
  on the other side. Streams are the sources and sinks of \<open>Rust_Io\<close>; \<open>flush\<close> only waits for
  completions, see \<open>Msquic_Stream\<close>.
\<close>

section \<open>Pipes\<close>

definition PIPE_BUFFER_SIZE :: nat where "PIPE_BUFFER_SIZE = 128 * 1024"

record PipeResult =
  bytes_sent :: u64
  bytes_received :: u64
  sent_hash :: "string option"
  received_hash :: "string option"

text \<open>
  The copying loop that both tasks have. \<open>stop\<close> is the number of turns after which the
  cancellation is noticed, if it is; the hasher sees a chunk before it is written, the counter
  only after it has been written.
\<close>

function pipe_loop :: "nat option \<Rightarrow> nat \<Rightarrow> source \<Rightarrow> sink \<Rightarrow> byte list option \<Rightarrow> u64
    \<Rightarrow> sink \<times> byte list option \<times> u64" where
  "pipe_loop stop i r w hasher count =
     (if stop = Some i then (w, hasher, count)
      else (case read_some r PIPE_BUFFER_SIZE of
              Inl e \<Rightarrow> (w, hasher, count)
            | Inr ([], _) \<Rightarrow> (w, hasher, count)
            | Inr (b # bs, r') \<Rightarrow>
                (let hasher = map_option (\<lambda>h. h @ b # bs) hasher in
                 case write_all w (b # bs) of
                   Inl e \<Rightarrow> (w, hasher, count)
                 | Inr w' \<Rightarrow> pipe_loop stop (Suc i) r' w' hasher (count + word_of_nat (length (b # bs))))))"
  by pat_completeness auto
termination
proof (relation "measure (\<lambda>(st, i, r, w, h, c). length (pending r))", goal_cases)
  case (2 stop i r w hasher count p q r' b bs)
  then show ?case
    by (auto simp: read_some_def Let_def PIPE_BUFFER_SIZE_def split: if_splits)
qed simp

declare pipe_loop.simps [simp del]

definition hash_text :: "hashing \<Rightarrow> byte list option \<Rightarrow> string option" where
  "hash_text H hasher = map_option (hex_digest H) hasher"

text \<open>The task from the input to the stream, which ends with the orderly shutdown of the stream.\<close>

definition pipe_send_task :: "hashing \<Rightarrow> bool \<Rightarrow> nat option \<Rightarrow> source option \<Rightarrow> sink
    \<Rightarrow> sink \<times> bool \<times> u64 \<times> string option" where
  "pipe_send_task H compute_hash stop input send_stream =
     (let hasher = if compute_hash then Some [] else None;
          (w, hasher, n) = (case input of None \<Rightarrow> (send_stream, hasher, 0)
                            | Some r \<Rightarrow> pipe_loop stop 0 r send_stream hasher 0) in
      (w, True, n, hash_text H hasher))"

definition pipe_recv_task :: "hashing \<Rightarrow> bool \<Rightarrow> nat option \<Rightarrow> source \<Rightarrow> sink option
    \<Rightarrow> sink option \<times> u64 \<times> string option" where
  "pipe_recv_task H compute_hash stop recv_stream output =
     (let hasher = if compute_hash then Some [] else None in
      case output of
        None \<Rightarrow> (None, 0, hash_text H hasher)
      | Some writer \<Rightarrow>
          (let (w, hasher, n) = pipe_loop stop 0 recv_stream writer hasher 0 in
           (Some w, n, hash_text H hasher)))"

text \<open>
  \<open>run_pipe\<close> joins the tasks: what they left in the stream and the output, whether the stream was
  shut down, and the result.
\<close>

definition run_pipe :: "hashing \<Rightarrow> bool \<Rightarrow> nat option \<times> nat option \<Rightarrow> source option \<Rightarrow> sink
    \<Rightarrow> source \<Rightarrow> sink option \<Rightarrow> sink \<times> bool \<times> sink option \<times> PipeResult" where
  "run_pipe H compute_hash stops input send_stream recv_stream output =
     (let (w, fin, sent, sh) = pipe_send_task H compute_hash (fst stops) input send_stream;
          (out, got, rh) = pipe_recv_task H compute_hash (snd stops) recv_stream output in
      (w, fin, out, \<lparr>bytes_sent = sent, bytes_received = got, sent_hash = sh, received_hash = rh\<rparr>))"

section \<open>Opening a file session\<close>

record duplex =
  tx :: sink
  rx :: source

datatype 'e session_error = OpenFailed 'e | StreamIo io_error

text \<open>The streams of the client: \<open>open_stream\<close> twice, each followed by its header.\<close>

definition write_header :: "byte \<Rightarrow> duplex \<Rightarrow> 'e session_error + duplex" where
  "write_header h d = map_sum StreamIo (\<lambda>w. d\<lparr>tx := w\<rparr>) (write_all (tx d) [h])"

definition start_connected_client :: "'e + duplex \<Rightarrow> 'e + duplex \<Rightarrow> 'e session_error + (duplex \<times> duplex)" where
  "start_connected_client open1 open2 =
     rbind (map_sum OpenFailed id open1) (\<lambda>c.
     rbind (write_header CONTROL_STREAM_HEADER c) (\<lambda>control_stream.
     rbind (map_sum OpenFailed id open2) (\<lambda>f.
     rbind (write_header FILE_STREAM_HEADER f) (\<lambda>file_stream.
     Inr (control_stream, file_stream)))))"

text \<open>
  The server takes up to two streams, in the order in which they arrive, and sorts them by their
  header; the list ends where \<open>accept_stream\<close> returns nothing.
\<close>

definition place :: "byte \<Rightarrow> duplex \<Rightarrow> duplex option \<times> duplex option \<Rightarrow> duplex option \<times> duplex option" where
  "place h d p =
     (if h = CONTROL_STREAM_HEADER then (Some d, snd p)
      else if h = FILE_STREAM_HEADER then (fst p, Some d) else p)"

fun accept_streams :: "nat \<Rightarrow> duplex list \<Rightarrow> duplex option \<times> duplex option
    \<Rightarrow> io_error + (duplex option \<times> duplex option)" where
  "accept_streams 0 incoming p = Inr p"
| "accept_streams (Suc k) [] p = accept_streams k [] p"
| "accept_streams (Suc k) (d # ds) p =
     rbind (read_exact (rx d) 1) (\<lambda>(header, r). accept_streams k ds (place (hd header) (d\<lparr>rx := r\<rparr>) p))"

definition both :: "duplex option \<times> duplex option \<Rightarrow> (duplex \<times> duplex) option" where
  "both p = (case p of (Some c, Some f) \<Rightarrow> Some (c, f) | _ \<Rightarrow> None)"

text \<open>\<open>start_server\<close> after the connection: the control and the file stream for \<open>run_peer\<close>, if both came.\<close>

definition start_server :: "duplex list \<Rightarrow> io_error + (duplex \<times> duplex) option" where
  "start_server incoming = map_sum id both (accept_streams 2 incoming (None, None))"

section \<open>Facts about the loop\<close>

lemma write_all_prefix:
  "write_all w bs = Inr w' \<Longrightarrow> written w' = written w @ bs"
  by (rule write_all_written)

lemma read_chunk:
  assumes "read_some r limit = Inr (b # bs, r')"
  shows "pending r = (b # bs) @ pending r'" "broken r' = broken r"
  using assms by (auto simp: read_some_def Let_def split: if_splits) (metis append_take_drop_id append_Cons)

lemma pipe_loop_stop: "stop = Some i \<Longrightarrow> pipe_loop stop i r w hasher n = (w, hasher, n)"
  by (subst pipe_loop.simps) simp

lemma pipe_loop_end:
  "read_some r PIPE_BUFFER_SIZE = Inl e \<or> read_some r PIPE_BUFFER_SIZE = Inr ([], r') \<Longrightarrow>
     pipe_loop stop i r w hasher n = (w, hasher, n)"
  by (subst pipe_loop.simps) auto

lemma pipe_loop_chunk:
  assumes "stop \<noteq> Some i" "read_some r PIPE_BUFFER_SIZE = Inr (cs, r')" "cs \<noteq> []"
  shows "pipe_loop stop i r w hasher n =
     (case write_all w cs of
        Inl e \<Rightarrow> (w, map_option (\<lambda>h. h @ cs) hasher, n)
      | Inr w' \<Rightarrow> pipe_loop stop (Suc i) r' w' (map_option (\<lambda>h. h @ cs) hasher) (n + word_of_nat (length cs)))"
proof (cases cs)
  case (Cons b bs)
  show ?thesis using assms(1,2) unfolding Cons by (subst pipe_loop.simps) (simp add: Let_def)
qed (use assms(3) in simp)

text \<open>
  However it ends, the loop has written a prefix of the input; it counts and, if nothing failed
  to be written, hashes exactly that prefix.
\<close>

lemma pipe_loop_prefix:
  "pipe_loop stop i r w (Some h) n = (w', hasher, n') \<Longrightarrow>
     \<exists>bs rest. pending r = bs @ rest \<and> written w' = written w @ bs
       \<and> n' = n + word_of_nat (length bs) \<and> (\<exists>extra. hasher = Some (h @ bs @ extra))"
proof (induction stop i r w "Some h" n arbitrary: h rule: pipe_loop.induct)
  case (1 stop i r w n h)
  show ?case
  proof (cases "stop = Some i")
    case True
    then have "w' = w" "n' = n" "hasher = Some h"
      using "1.prems" pipe_loop_stop[OF True] by simp_all
    then show ?thesis by (intro exI[of _ "[]"] exI[of _ "pending r"]) auto
  next
    case ns: False
    show ?thesis
    proof (cases "read_some r PIPE_BUFFER_SIZE")
      case (Inl e)
      then have "w' = w" "n' = n" "hasher = Some h"
        using "1.prems" pipe_loop_end[of r e] by simp_all
      then show ?thesis by (intro exI[of _ "[]"] exI[of _ "pending r"]) auto
    next
      case (Inr p)
      obtain cs r' where p: "p = (cs, r')" by fastforce
      show ?thesis
      proof (cases cs)
        case Nil
        then have "w' = w" "n' = n" "hasher = Some h"
          using "1.prems" pipe_loop_end[of r _ r'] Inr p by simp_all
        then show ?thesis by (intro exI[of _ "[]"] exI[of _ "pending r"]) auto
      next
        case (Cons b bs)
        have rd: "read_some r PIPE_BUFFER_SIZE = Inr (b # bs, r')" using Inr p Cons by simp
        show ?thesis
        proof (cases "write_all w (b # bs)")
          case (Inl e)
          then have "w' = w" "n' = n" "hasher = Some (h @ b # bs)"
            using pipe_loop_chunk[OF ns rd] "1.prems" by simp_all
          then show ?thesis by (intro exI[of _ "[]"] exI[of _ "pending r"]) auto
        next
          case (Inr w1)
          have "pipe_loop stop (Suc i) r' w1 (Some (h @ b # bs)) (n + word_of_nat (length (b # bs)))
              = (w', hasher, n')"
            using pipe_loop_chunk[OF ns rd] Inr "1.prems" by simp
          then obtain ds rest extra where ih: "pending r' = ds @ rest" "written w' = written w1 @ ds"
              "n' = n + word_of_nat (length (b # bs)) + word_of_nat (length ds)"
              "hasher = Some ((h @ b # bs) @ ds @ extra)"
            using "1.hyps"[OF ns rd refl refl _ Inr, of "h @ b # bs"] by auto
          show ?thesis
            by (rule exI[of _ "(b # bs) @ ds"], rule exI[of _ rest])
              (use ih read_chunk[OF rd] write_all_prefix[OF Inr] in \<open>auto simp: ac_simps\<close>)
        qed
      qed
    qed
  qed
qed

lemma pipe_loop_complete:
  assumes "room w = None"
  shows "pipe_loop None i r w hasher n =
     (w\<lparr>written := written w @ pending r\<rparr>, map_option (\<lambda>h. h @ pending r) hasher, n + word_of_nat (length (pending r)))"
  using assms
proof (induction "length (pending r)" arbitrary: i r w hasher n rule: less_induct)
  case less
  show ?case
  proof (cases "pending r = []")
    case True
    then have "read_some r PIPE_BUFFER_SIZE = Inl ConnectionReset \<or> read_some r PIPE_BUFFER_SIZE = Inr ([], r)"
      by (simp add: read_some_Nil)
    from pipe_loop_end[OF this] True show ?thesis by (simp add: option.map_ident)
  next
    case False
    then obtain k where k: "0 < k" "k \<le> length (pending r)"
      "read_some r PIPE_BUFFER_SIZE = Inr (take k (pending r), r\<lparr>pending := drop k (pending r)\<rparr>)"
      using read_some_cases[of r PIPE_BUFFER_SIZE] by (auto simp: PIPE_BUFFER_SIZE_def)
    let ?c = "take k (pending r)" and ?r = "r\<lparr>pending := drop k (pending r)\<rparr>"
    have ne: "?c \<noteq> []" using k(1) False by simp
    have "pipe_loop None i r w hasher n = pipe_loop None (Suc i) ?r (w\<lparr>written := written w @ ?c\<rparr>)
        (map_option (\<lambda>h. h @ ?c) hasher) (n + word_of_nat (length ?c))"
      using pipe_loop_chunk[OF _ k(3) ne, of None i w hasher n] less.prems by simp
    also have "\<dots> = (w\<lparr>written := (written w @ ?c) @ pending ?r\<rparr>,
        map_option (\<lambda>h. h @ pending ?r) (map_option (\<lambda>h. h @ ?c) hasher),
        n + word_of_nat (length ?c) + word_of_nat (length (pending ?r)))"
      by (subst less.hyps) (use k(1,2) less.prems in simp_all)
    also have "(written w @ ?c) @ pending ?r = written w @ pending r" by simp
    also have "map_option (\<lambda>h. h @ pending ?r) (map_option (\<lambda>h. h @ ?c) hasher) = map_option (\<lambda>h. h @ pending r) hasher"
      by (simp add: option.map_comp comp_def)
    also have "n + word_of_nat (length ?c) + word_of_nat (length (pending ?r)) = n + word_of_nat (length (pending r))"
    proof -
      have "length (pending r) = length ?c + length (pending ?r)" using k(2) by simp
      then show ?thesis by (simp only: of_nat_add add.assoc)
    qed
    finally show ?thesis .
  qed
qed

section \<open>Pairing of the streams\<close>

definition announced :: "byte \<Rightarrow> duplex \<Rightarrow> bool" where
  "announced h d \<longleftrightarrow> take 1 (pending (rx d)) = [h]"

definition after_header :: "duplex \<Rightarrow> duplex" where
  "after_header d = d\<lparr>rx := (rx d)\<lparr>pending := drop 1 (pending (rx d))\<rparr>\<rparr>"

lemma read_header: "announced h d \<Longrightarrow> read_exact (rx d) 1 = Inr ([h], rx (after_header d))"
  by (cases "pending (rx d)") (auto simp: announced_def after_header_def read_exact_eq)

text \<open>
  The contract of a side that accepts the streams of a file session: it finds the control and
  the file stream by their headers, in whichever order they arrive.
\<close>

locale stream_pairing =
  fixes pair :: "duplex list \<Rightarrow> 'e + (duplex \<times> duplex) option"
  assumes pair_in_order: "announced CONTROL_STREAM_HEADER c \<Longrightarrow> announced FILE_STREAM_HEADER f \<Longrightarrow>
      pair [c, f] = Inr (Some (after_header c, after_header f))"
    and pair_swapped: "announced CONTROL_STREAM_HEADER c \<Longrightarrow> announced FILE_STREAM_HEADER f \<Longrightarrow>
      pair [f, c] = Inr (Some (after_header c, after_header f))"
    and pair_alone: "pair [] = Inr None"
begin

lemma pair_either:
  "announced CONTROL_STREAM_HEADER c \<Longrightarrow> announced FILE_STREAM_HEADER f \<Longrightarrow> ds \<in> {[c, f], [f, c]} \<Longrightarrow>
     pair ds = Inr (Some (after_header c, after_header f))"
  using pair_in_order pair_swapped by auto

lemma pair_of_client:
  assumes "start_connected_client (Inr d1) (Inr d2) = Inr (c, f)"
    and "written (tx d1) = []" "written (tx d2) = []"
    and "pending (rx sc) = written (tx c) @ more1" "pending (rx sf) = written (tx f) @ more2"
    and "ds \<in> {[sc, sf], [sf, sc]}"
  shows "\<exists>pc pf. pair ds = Inr (Some (pc, pf)) \<and> pending (rx pc) = more1 \<and> pending (rx pf) = more2
     \<and> tx pc = tx sc \<and> tx pf = tx sf"
proof -
  have w: "written (tx c) = [CONTROL_STREAM_HEADER]" "written (tx f) = [FILE_STREAM_HEADER]"
    using assms(1-3) by (auto simp: start_connected_client_def write_header_def rbind_Inr_iff
        map_sum_def dest!: write_all_written split: sum.splits)
  then have a: "announced CONTROL_STREAM_HEADER sc" "announced FILE_STREAM_HEADER sf"
    using assms(4,5) by (simp_all add: announced_def)
  show ?thesis using pair_either[OF a assms(6)] assms(4,5) w by (auto simp: after_header_def)
qed

end

lemma headers_differ: "FILE_STREAM_HEADER \<noteq> CONTROL_STREAM_HEADER"
  by (simp add: CONTROL_STREAM_HEADER_def FILE_STREAM_HEADER_def)

lemma accept_two:
  assumes "announced h1 d1" "announced h2 d2"
  shows "start_server [d1, d2] =
     Inr (both (place h2 (after_header d2) (place h1 (after_header d1) (None, None))))"
  by (simp add: start_server_def numeral_2_eq_2 read_header[OF assms(1), unfolded One_nat_def]
      read_header[OF assms(2), unfolded One_nat_def] after_header_def)

interpretation server_streams: stream_pairing start_server
  by unfold_locales
    (simp_all add: accept_two place_def both_def headers_differ headers_differ[symmetric],
     simp add: start_server_def numeral_2_eq_2 both_def)

section \<open>Properties\<close>

text \<open>
  C13: A pipe is transparent and its two hashes agree. When neither side is cancelled and no write
  fails, then over any fragmentation of the input and of the stream the receiver's output gains
  exactly the sender's input, both report its length, both report its SHA-256, and the stream has
  been shut down in order.
\<close>

theorem pipe_delivers:
  assumes "run_pipe H ck (None, sa) (Some input) w rs out = (w1, fin, out1, res1)" "room w = None"
    and "pending arriving = drop (length (written w)) (written w1)"
    and "run_pipe H ck (sb, None) input2 w2 arriving (Some output) = (w3, fin3, Some output1, res2)"
      "room output = None"
  shows "written output1 = written output @ pending input \<and> fin
     \<and> bytes_sent res1 = word_of_nat (length (pending input)) \<and> bytes_received res2 = bytes_sent res1
     \<and> sent_hash res1 = (if ck then Some (hex_digest H (pending input)) else None)
     \<and> received_hash res2 = sent_hash res1"
proof -
  have s: "written w1 = written w @ pending input" "fin"
    "bytes_sent res1 = word_of_nat (length (pending input))"
    "sent_hash res1 = (if ck then Some (hex_digest H (pending input)) else None)"
    using assms(1,2)
    by (auto simp: run_pipe_def pipe_send_task_def pipe_loop_complete hash_text_def Let_def split: prod.splits)
  then have "pending arriving = pending input" using assms(3) by simp
  then show ?thesis using assms(4,5) s
    by (auto simp: run_pipe_def pipe_recv_task_def pipe_loop_complete hash_text_def Let_def split: prod.splits)
qed

theorem pipe_delivers_witness:
  "\<exists>w1 o1 r1 o2 r2.
     run_pipe \<lparr>sha256 = (\<lambda>b. b), hex_encode = string_of_bytes\<rparr> True (None, None)
       (Some \<lparr>pending = [1, 2], grain = (\<lambda>_. 1), broken = False\<rparr>) \<lparr>written = [3], room = None\<rparr>
       \<lparr>pending = [], grain = id, broken = False\<rparr> None = (w1, True, o1, r1)
     \<and> run_pipe \<lparr>sha256 = (\<lambda>b. b), hex_encode = string_of_bytes\<rparr> True (None, None) None
       \<lparr>written = [], room = None\<rparr> \<lparr>pending = drop 1 (written w1), grain = id, broken = False\<rparr>
       (Some \<lparr>written = [], room = None\<rparr>) = (\<lparr>written = [], room = None\<rparr>, True, Some o2, r2)
     \<and> written o2 = [1, 2] \<and> received_hash r2 = sent_hash r1"
proof -
  let ?H = "\<lparr>sha256 = (\<lambda>b. b), hex_encode = string_of_bytes\<rparr>"
  let ?w = "\<lparr>written = [3], room = None\<rparr> :: sink" and ?e = "\<lparr>written = [], room = None\<rparr> :: sink"
  let ?i = "\<lparr>pending = [1, 2], grain = (\<lambda>_. 1), broken = False\<rparr>"
  obtain w1 fin o1 r1 where a: "run_pipe ?H True (None, None) (Some ?i) ?w
      \<lparr>pending = [], grain = id, broken = False\<rparr> None = (w1, fin, o1, r1)"
    by (metis prod_cases4)
  let ?arr = "\<lparr>pending = drop 1 (written w1), grain = id, broken = False\<rparr>"
  obtain o2 r2 where b: "run_pipe ?H True (None, None) None ?e ?arr (Some ?e) = (?e, True, Some o2, r2)"
    by (simp add: run_pipe_def pipe_send_task_def pipe_recv_task_def pipe_loop_complete Let_def)
  have "pending ?arr = drop (length (written ?w)) (written w1)" by simp
  from pipe_delivers[OF a _ this b] a b show ?thesis by auto
qed

text \<open>
  A file session finds its streams. The two streams a client opens are recognised by the
  server whichever of them arrives first, the control stream as the control stream and the file
  stream as the file stream, each with exactly the header removed.
\<close>

theorem server_pairs_client_streams:
  assumes "start_connected_client (Inr d1) (Inr d2) = Inr (c, f)"
    and "written (tx d1) = []" "written (tx d2) = []"
    and "pending (rx sc) = written (tx c) @ more1" "pending (rx sf) = written (tx f) @ more2"
    and "ds \<in> {[sc, sf], [sf, sc]}"
  shows "\<exists>pc pf. start_server ds = Inr (Some (pc, pf)) \<and> pending (rx pc) = more1 \<and> pending (rx pf) = more2
     \<and> tx pc = tx sc \<and> tx pf = tx sf"
  by (rule server_streams.pair_of_client[OF assms])

theorem server_pairs_client_streams_witness:
  "\<exists>pc pf. start_server
       [\<lparr>tx = \<lparr>written = [8], room = None\<rparr>, rx = \<lparr>pending = [2, 7], grain = id, broken = False\<rparr>\<rparr>,
        \<lparr>tx = \<lparr>written = [9], room = None\<rparr>, rx = \<lparr>pending = [1, 6], grain = id, broken = False\<rparr>\<rparr>]
     = Inr (Some (pc, pf)) \<and> pending (rx pc) = [6] \<and> pending (rx pf) = [7]"
proof -
  let ?d = "\<lparr>tx = \<lparr>written = [], room = None\<rparr>, rx = \<lparr>pending = [], grain = id, broken = False\<rparr>\<rparr> :: duplex"
  let ?c = "\<lparr>tx = \<lparr>written = [1], room = None\<rparr>, rx = \<lparr>pending = [], grain = id, broken = False\<rparr>\<rparr> :: duplex"
  let ?f = "\<lparr>tx = \<lparr>written = [2], room = None\<rparr>, rx = \<lparr>pending = [], grain = id, broken = False\<rparr>\<rparr> :: duplex"
  let ?sf = "\<lparr>tx = \<lparr>written = [8], room = None\<rparr>, rx = \<lparr>pending = [2, 7], grain = id, broken = False\<rparr>\<rparr> :: duplex"
  let ?sc = "\<lparr>tx = \<lparr>written = [9], room = None\<rparr>, rx = \<lparr>pending = [1, 6], grain = id, broken = False\<rparr>\<rparr> :: duplex"
  have "start_connected_client (Inr ?d) (Inr ?d :: unit + duplex) = Inr (?c, ?f)"
    by (simp add: start_connected_client_def write_header_def CONTROL_STREAM_HEADER_def FILE_STREAM_HEADER_def)
  from server_pairs_client_streams[OF this, of ?sc "[6]" ?sf "[7]" "[?sf, ?sc]"] show ?thesis by auto
qed

end
