(* ===== verification/Cert.thy ===== *)
theory Cert
  imports File_System
begin

text \<open>
  Certificates and identities (\<open>cert.rs\<close>): thumbprints, the two rustls verifiers that pin the
  peer's certificate, and the persistent identity of a daemon. SHA-1, the \<open>hex\<close> crate and the
  certificate generator \<open>rcgen\<close> are parameters. The permission bits set on the identity
  directory and on the key are not part of the file system model.

  The locale \<open>pin_check\<close> is the contract of a check against pinned thumbprints. It is
  interpreted here for the two verifiers and, in \<open>Msquic_Engine\<close>, for the connection callback.
\<close>

section \<open>Thumbprints\<close>

text \<open>\<open>upper_tbl\<close> is the case table of Unicode beyond ASCII, see \<open>to_uppercase\<close>.\<close>

record pki =
  sha1 :: "byte list \<Rightarrow> byte list"
  hex_text :: "byte list \<Rightarrow> string"
  upper_tbl :: "string \<Rightarrow> string"

definition compute_thumbprint :: "pki \<Rightarrow> byte list \<Rightarrow> string" where
  "compute_thumbprint P cert_der = to_uppercase (upper_tbl P) (hex_text P (sha1 P cert_der))"

datatype cert_error = BadThumbprint | CertIo io_error | NotUtf8 | GenerateFailed | ConfigFailed
  | NoHome | Mismatch | NotAuthorized

definition separator_char :: "string \<Rightarrow> bool" where
  "separator_char ch \<longleftrightarrow> list_ex (\<lambda>c. is_ascii_whitespace c \<or> c = CHR '':'') ch"

definition normalize_thumbprint :: "pki \<Rightarrow> string \<Rightarrow> cert_error + string" where
  "normalize_thumbprint P value =
     (let normalized = to_uppercase (upper_tbl P)
            (concat (filter (\<lambda>ch. \<not> separator_char ch) (utf8_chars value))) in
      if length normalized \<noteq> 40 \<or> \<not> list_all is_ascii_hexdigit normalized
      then Inl BadThumbprint else Inr normalized)"

text \<open>
  What the digest and its text are: 20 bytes, two hexadecimal characters for each; and no upper
  case mapping of Unicode gives an ASCII lower case letter.
\<close>

definition pki_laws :: "pki \<Rightarrow> bool" where
  "pki_laws P \<longleftrightarrow>
     (\<forall>bs. length (sha1 P bs) = 20)
     \<and> (\<forall>bs. length (hex_text P bs) = 2 * length bs \<and> list_all is_ascii_hexdigit (hex_text P bs))
     \<and> (\<forall>ch. list_all (\<lambda>c. ascii_upper c = c) (upper_tbl P ch))"

definition thumbprint_form :: "string \<Rightarrow> bool" where
  "thumbprint_form t \<longleftrightarrow> length t = 40 \<and> list_all (\<lambda>c. is_ascii_hexdigit c \<and> ascii_upper c = c) t"

section \<open>The verifiers\<close>

definition verify_server_cert :: "pki \<Rightarrow> string \<Rightarrow> byte list \<Rightarrow> cert_error + unit" where
  "verify_server_cert P expected_thumbprint end_entity =
     (if eq_ignore_ascii_case (compute_thumbprint P end_entity) expected_thumbprint then Inr ()
      else Inl Mismatch)"

record client_verifier =
  allowed_thumbprints :: "string list"

definition new_verifier :: "string \<Rightarrow> client_verifier" where
  "new_verifier expected_thumbprint = \<lparr>allowed_thumbprints = [expected_thumbprint]\<rparr>"

definition new_multi :: "string list \<Rightarrow> client_verifier" where
  "new_multi allowed = \<lparr>allowed_thumbprints = allowed\<rparr>"

definition verify_client_cert :: "pki \<Rightarrow> client_verifier \<Rightarrow> byte list \<Rightarrow> cert_error + unit" where
  "verify_client_cert P v end_entity =
     (let actual = compute_thumbprint P end_entity in
      if list_ex (\<lambda>t. eq_ignore_ascii_case actual t) (allowed_thumbprints v) then Inr ()
      else Inl NotAuthorized)"

section \<open>Identities on disk\<close>

definition path_is_file :: "fsys \<Rightarrow> string \<Rightarrow> bool" where
  "path_is_file fs p = (case fs_metadata fs p of Inr (File _) \<Rightarrow> True | _ \<Rightarrow> False)"

text \<open>\<open>fs::write\<close>: create or truncate, then write everything.\<close>

definition fs_write :: "string \<Rightarrow> byte list \<Rightarrow> unit fs_op" where
  "fs_write p bs = sbind (file_create p) (\<lambda>k. smodify (file_append k bs))"

definition read_to_string :: "fsys \<Rightarrow> string \<Rightarrow> cert_error + string" where
  "read_to_string fs p =
     (case fs_metadata fs p of
        Inl e \<Rightarrow> Inl (CertIo e)
      | Inr (File c) \<Rightarrow> ok_or NotUtf8 (from_utf8 c)
      | Inr _ \<Rightarrow> Inl (CertIo IsADirectory))"

text \<open>
  \<open>default_identity_dir\<close> on Unix, \<open>config_home\<close> and \<open>home\<close> being the two environment variables.
\<close>

definition default_identity_dir :: "string option \<Rightarrow> string option \<Rightarrow> string \<Rightarrow> cert_error + string" where
  "default_identity_dir config_home home role =
     rbind (case config_home of
              Some c \<Rightarrow> Inr c
            | None \<Rightarrow> rbind (ok_or NoHome home) (\<lambda>h. Inr (path_push h ''.config'')))
       (\<lambda>base. Inr (path_push (path_push base ''quiczilla'') role))"

text \<open>
  What \<open>rcgen\<close> returns: the certificate in DER and PEM and the private key in PEM.
\<close>

record keypair =
  cert_der :: "byte list"
  cert_pem :: "byte list"
  key_pem :: "byte list"

definition generate_msquic_pem :: "pki \<Rightarrow> keypair option \<Rightarrow> cert_error + (string \<times> byte list \<times> byte list)" where
  "generate_msquic_pem P kp =
     (case kp of
        None \<Rightarrow> Inl GenerateFailed
      | Some k \<Rightarrow> Inr (compute_thumbprint P (cert_der k), cert_pem k, key_pem k))"

definition lift_io :: "'a fs_op \<Rightarrow> (fsys, cert_error, 'a) op" where
  "lift_io m = szoom id (\<lambda>t _. t) CertIo m"

text \<open>
  \<open>build_persistent_quic_config\<close> on Unix; \<open>mk\<close> is \<open>create_configuration\<close> on the two paths and
  what is on the disk. \<open>set_permissions\<close> needs the directory to exist.
\<close>

definition identity_complete :: "fsys \<Rightarrow> string \<Rightarrow> bool" where
  "identity_complete fs dir \<longleftrightarrow>
     path_is_file fs (path_push dir ''identity.pem'')
     \<and> path_is_file fs (path_push dir ''identity-key.pem'')
     \<and> path_is_file fs (path_push dir ''thumbprint'')"

definition create_identity :: "pki \<Rightarrow> keypair option \<Rightarrow> string \<Rightarrow> (fsys, cert_error, unit) op" where
  "create_identity P kp dir =
     sbind (slift (generate_msquic_pem P kp)) (\<lambda>(thumbprint, cert, key).
     sbind (lift_io (fs_write (path_push dir ''identity.pem'') cert)) (\<lambda>_.
     sbind (lift_io (fs_write (path_push dir ''identity-key.pem'') key)) (\<lambda>_.
     lift_io (fs_write (path_push dir ''thumbprint'') (as_bytes (thumbprint @ [CHR 0x0A]))))))"

definition build_persistent_quic_config ::
    "pki \<Rightarrow> keypair option \<Rightarrow> (fsys \<Rightarrow> string \<Rightarrow> string \<Rightarrow> 'cfg option) \<Rightarrow> string
      \<Rightarrow> (fsys, cert_error, string \<times> 'cfg) op" where
  "build_persistent_quic_config P kp mk identity_dir =
     sbind (lift_io (create_dir_all identity_dir)) (\<lambda>_.
     sbind (sget (\<lambda>fs. map_sum CertIo id (fs_metadata fs identity_dir))) (\<lambda>meta.
     sbind (slift meta) (\<lambda>_.
     sbind (sget (\<lambda>fs. identity_complete fs identity_dir)) (\<lambda>complete.
     sbind (if complete then sret () else create_identity P kp identity_dir) (\<lambda>_.
     sbind (sget (\<lambda>fs. rbind (read_to_string fs (path_push identity_dir ''thumbprint''))
              (normalize_thumbprint P))) (\<lambda>normalized.
     sbind (slift normalized) (\<lambda>thumbprint.
     sbind (sget (\<lambda>fs. mk fs (utf8_lossy (path_push identity_dir ''identity.pem''))
                          (utf8_lossy (path_push identity_dir ''identity-key.pem'')))) (\<lambda>config.
     case config of
       None \<Rightarrow> sfail ConfigFailed
     | Some c \<Rightarrow> sret (thumbprint, c)))))))))"

text \<open>
  \<open>build_quic_config\<close> on Unix: a fixed identity under \<open>/tmp\<close> when there is one, else a new one
  in the temporary directory.
\<close>

definition static_thumbprint_default :: string where
  "static_thumbprint_default = ''94510B2219EB97320BDE08C6FE9A06F4917F3E2A''"

definition build_quic_config ::
    "pki \<Rightarrow> keypair option \<Rightarrow> (fsys \<Rightarrow> string \<Rightarrow> string \<Rightarrow> 'cfg option) \<Rightarrow> string
      \<Rightarrow> (fsys, cert_error, string \<times> 'cfg) op" where
  "build_quic_config P kp mk temp_dir =
     (let configured = (\<lambda>t cert_path key_path.
            sbind (sget (\<lambda>fs. mk fs (utf8_lossy cert_path) (utf8_lossy key_path)))
              (\<lambda>config. case config of None \<Rightarrow> sfail ConfigFailed | Some c \<Rightarrow> sret (t, c)));
          static_cert = ''/tmp/quiczilla_static_cert.pem'';
          static_key = ''/tmp/quiczilla_static_key.pem'' in
      sbind (sget (\<lambda>fs. path_exists fs static_cert \<and> path_exists fs static_key)) (\<lambda>static_identity.
      if static_identity then
        sbind (sget (\<lambda>fs. case read_to_string fs ''/tmp/quiczilla_static_thumbprint.txt'' of
                 Inl _ \<Rightarrow> static_thumbprint_default | Inr t \<Rightarrow> t)) (\<lambda>t.
        configured (trim t) static_cert static_key)
      else
        (let cert_path = path_push temp_dir ''quiczilla_cert.pem'';
             key_path = path_push temp_dir ''quiczilla_key.pem'' in
         sbind (slift (generate_msquic_pem P kp)) (\<lambda>(local_thumbprint, cert, key).
         sbind (lift_io (fs_write cert_path cert)) (\<lambda>_.
         sbind (lift_io (fs_write key_path key)) (\<lambda>_.
         configured local_thumbprint cert_path key_path))))))"

section \<open>Facts about thumbprints\<close>

lemma ascii_upper_lower [simp]: "ascii_upper (ascii_lower c) = ascii_upper c"
proof -
  have "code c \<le> 90 \<Longrightarrow> code (char_of (code c + 32)) = code c + 32"
    by (rule code_char_of) simp
  moreover have "char_of (code c) = c" by (simp add: code_def)
  ultimately show ?thesis by (auto simp: ascii_lower_def ascii_upper_def)
qed

lemma ascii_upper_twice [simp]: "ascii_upper (ascii_upper c) = ascii_upper c"
  by (metis ascii_lower_upper ascii_upper_lower)

lemma hexdigit_upper [simp]: "is_ascii_hexdigit (ascii_upper c) = is_ascii_hexdigit c"
proof -
  have "code (char_of (code c - 32)) = code c - 32"
    by (rule code_char_of) (use code_less[of c] in linarith)
  then show ?thesis by (auto simp: ascii_upper_def is_ascii_hexdigit_def is_ascii_digit_def)
qed

lemma hexdigit_plain:
  "is_ascii_hexdigit c \<Longrightarrow> is_ascii c \<and> \<not> is_ascii_whitespace c \<and> c \<noteq> CHR '':''"
  by (auto simp: is_ascii_hexdigit_def is_ascii_digit_def is_ascii_def is_ascii_whitespace_def code_def)

lemma thumbprint_form_iff:
  "thumbprint_form t \<longleftrightarrow> length t = 40 \<and> list_all is_ascii_hexdigit t \<and> map ascii_upper t = t"
  by (auto simp: thumbprint_form_def list_all_iff map_idI)
    (metis in_set_conv_nth nth_map)

lemma to_uppercase_upper:
  "pki_laws P \<Longrightarrow> map ascii_upper (to_uppercase (upper_tbl P) s) = to_uppercase (upper_tbl P) s"
  by (auto simp: to_uppercase_def map_case_def map_concat pki_laws_def list_all_iff map_idI
      intro!: arg_cong[where f = concat])

lemma compute_thumbprint_form: "pki_laws P \<Longrightarrow> thumbprint_form (compute_thumbprint P c)"
proof -
  assume P: "pki_laws P"
  let ?h = "hex_text P (sha1 P c)"
  have h: "length ?h = 40" "list_all is_ascii_hexdigit ?h" using P by (auto simp: pki_laws_def)
  then have "compute_thumbprint P c = map ascii_upper ?h"
    by (simp add: compute_thumbprint_def to_uppercase_def map_case_ascii list_all_iff hexdigit_plain)
  then show ?thesis using h by (simp add: thumbprint_form_def list_all_iff)
qed

lemma normalize_thumbprint_form: "pki_laws P \<Longrightarrow> normalize_thumbprint P v = Inr t \<Longrightarrow> thumbprint_form t"
  by (auto simp: normalize_thumbprint_def Let_def thumbprint_form_iff to_uppercase_upper split: if_splits)

lemma eq_ignore_case_forms:
  "thumbprint_form s \<Longrightarrow> thumbprint_form t \<Longrightarrow> eq_ignore_ascii_case s t \<longleftrightarrow> s = t"
  unfolding thumbprint_form_iff eq_ignore_ascii_case_def
  by (metis (no_types, lifting) ascii_upper_lower list.map_comp map_eq_conv comp_apply)

text \<open>Any spelling with colons and white space, in either case, stands for its thumbprint.\<close>

definition spelling :: "string \<Rightarrow> string" where
  "spelling raw = filter (\<lambda>c. \<not> is_ascii_whitespace c \<and> c \<noteq> CHR '':'') raw"

lemma concat_singletons_filter:
  "concat (filter (\<lambda>ch. \<not> separator_char ch) (map (\<lambda>c. [c]) s)) = spelling s"
  by (induction s) (auto simp: separator_char_def spelling_def)

lemma normalize_ascii:
  assumes "list_all is_ascii raw"
  shows "normalize_thumbprint P raw =
     (if length (spelling raw) = 40 \<and> list_all is_ascii_hexdigit (spelling raw)
      then Inr (map ascii_upper (spelling raw)) else Inl BadThumbprint)"
proof -
  have a: "list_all is_ascii (spelling raw)" using assms by (auto simp: spelling_def list_all_iff)
  show ?thesis
    unfolding normalize_thumbprint_def Let_def utf8_chars_ascii[OF assms] concat_singletons_filter
      to_uppercase_def map_case_ascii[OF a]
    by (auto simp: list.pred_map comp_def)
qed

lemma normalize_spelling:
  assumes "thumbprint_form t" "list_all is_ascii raw" "eq_ignore_ascii_case (spelling raw) t"
  shows "normalize_thumbprint P raw = Inr t"
proof -
  have u: "map ascii_upper (spelling raw) = t"
    using assms(1,3) unfolding thumbprint_form_iff eq_ignore_ascii_case_def
    by (metis (no_types, lifting) ascii_upper_lower list.map_comp map_eq_conv comp_apply)
  then have "length (spelling raw) = 40" "list_all is_ascii_hexdigit (spelling raw)"
    using assms(1) by (auto simp: thumbprint_form_iff list.pred_map comp_def list_all_iff
        dest: map_eq_imp_length_eq)
  then show ?thesis using u by (simp add: normalize_ascii[OF assms(2)])
qed

lemma spelling_form: "thumbprint_form t \<Longrightarrow> spelling t = t \<and> list_all is_ascii t"
  by (auto simp: thumbprint_form_def spelling_def list_all_iff filter_id_conv hexdigit_plain)

lemma normalize_form [simp]: "thumbprint_form t \<Longrightarrow> normalize_thumbprint P t = Inr t"
  using normalize_spelling[of t t P] spelling_form[of t] by simp

section \<open>Checks against pinned certificates\<close>

locale pin_check =
  fixes accepts :: "'v \<Rightarrow> byte list \<Rightarrow> bool"
    and pins :: "'v \<Rightarrow> string list"
    and thumb :: "byte list \<Rightarrow> string"
  assumes accepts_iff: "accepts v c \<longleftrightarrow> list_ex (eq_ignore_ascii_case (thumb c)) (pins v)"
begin

lemma accepts_same_thumb: "thumb c = thumb d \<Longrightarrow> accepts v c = accepts v d"
  by (simp add: accepts_iff)

lemma accepts_exactly:
  assumes "thumbprint_form (thumb c)" "list_all thumbprint_form (pins v)"
  shows "accepts v c \<longleftrightarrow> thumb c \<in> set (pins v)"
  using assms eq_ignore_case_forms by (auto simp: accepts_iff list_ex_iff list_all_iff)

lemma accepts_none: "pins v = [] \<Longrightarrow> \<not> accepts v c"
  by (simp add: accepts_iff)

lemma accepts_more: "set (pins v) \<subseteq> set (pins w) \<Longrightarrow> accepts v c \<Longrightarrow> accepts w c"
  by (auto simp: accepts_iff list_ex_iff)

end

interpretation server_pin: pin_check
  "\<lambda>v c. is_ok (verify_server_cert P v c)" "\<lambda>v. [v]" "compute_thumbprint P" for P
  by unfold_locales (simp add: verify_server_cert_def)

interpretation client_pin: pin_check
  "\<lambda>v c. is_ok (verify_client_cert P v c)" allowed_thumbprints "compute_thumbprint P" for P
  by unfold_locales (simp add: verify_client_cert_def Let_def list_ex_iff)

section \<open>Writing and reading an identity\<close>

lemma fs_write_child [fs_simps]:
  "dir_at fs p B \<Longrightarrow> plain_name s \<Longrightarrow> \<forall>t. nodes fs (B @ [s]) \<noteq> Some (Symlink t) \<Longrightarrow>
     nodes fs (B @ [s]) \<noteq> Some Dir \<Longrightarrow>
     fs_write (path_push p s) bs fs = (Inr (), set_node (B @ [s]) (Some (File bs)) fs)"
  by (simp add: fs_write_def sbind_def file_create_child file_append_def file_content_def)

lemma dir_at_write [fs_simps]:
  "dir_at fs p B \<Longrightarrow> \<forall>t. nodes fs (B @ [s]) \<noteq> Some (Symlink t) \<Longrightarrow>
     nodes fs (B @ [s]) \<noteq> Some Dir \<Longrightarrow> dir_at (set_node (B @ [s]) (Some (File bs)) fs) p B"
  by (erule dir_at_grows[where B = B], rule grows_set_node) auto

lemma path_is_file_child [fs_simps]:
  "dir_at fs p B \<Longrightarrow> plain_name s \<Longrightarrow> \<forall>t. nodes fs (B @ [s]) \<noteq> Some (Symlink t) \<Longrightarrow>
     path_is_file fs (path_push p s) = (case nodes fs (B @ [s]) of Some (File _) \<Rightarrow> True | _ \<Rightarrow> False)"
  by (simp add: path_is_file_def fs_metadata_child ok_or_def split: option.splits node.splits)

lemma read_to_string_child [fs_simps]:
  "dir_at fs p B \<Longrightarrow> plain_name s \<Longrightarrow> nodes fs (B @ [s]) = Some (File c) \<Longrightarrow>
     read_to_string fs (path_push p s) = ok_or NotUtf8 (from_utf8 c)"
  by (simp add: read_to_string_def fs_metadata_child ok_or_def)

lemma lift_io_existing: "dir_at fs p B \<Longrightarrow> lift_io (create_dir_all p) fs = (Inr (), fs)"
  by (simp add: lift_io_def szoom_def create_dir_all_existing)

lemma lift_io_ok [op_simps]: "m fs = (Inr a, fs') \<Longrightarrow> lift_io m fs = (Inr a, fs')"
  by (simp add: lift_io_def szoom_eq)

lemma identity_names: "plain_name ''identity.pem''" "plain_name ''identity-key.pem''" "plain_name ''thumbprint''"
  by (simp_all add: plain_name_def)

text \<open>A place of the identity directory that \<open>fs::write\<close> can fill.\<close>

definition writable_slot :: "fsys \<Rightarrow> string list \<Rightarrow> bool" where
  "writable_slot fs k \<longleftrightarrow> (case nodes fs k of None \<Rightarrow> True | Some (File _) \<Rightarrow> True | _ \<Rightarrow> False)"

lemma writable_slot_iff:
  "writable_slot fs k \<longleftrightarrow> nodes fs k \<noteq> Some Dir \<and> (\<forall>t. nodes fs k \<noteq> Some (Symlink t))"
  by (auto simp: writable_slot_def split: option.splits node.splits)

definition with_identity :: "string list \<Rightarrow> keypair \<Rightarrow> string \<Rightarrow> fsys \<Rightarrow> fsys" where
  "with_identity B k t fs =
     set_node (B @ [''thumbprint'']) (Some (File (as_bytes (t @ [CHR 0x0A]))))
       (set_node (B @ [''identity-key.pem'']) (Some (File (key_pem k)))
         (set_node (B @ [''identity.pem'']) (Some (File (cert_pem k))) fs))"

lemma create_identity_writes:
  assumes "dir_at fs dir B"
    and "list_all (\<lambda>s. writable_slot fs (B @ [s])) [''identity.pem'', ''identity-key.pem'', ''thumbprint'']"
  shows "create_identity P (Some k) dir fs =
      (Inr (), with_identity B k (compute_thumbprint P (cert_der k)) fs)"
    and "dir_at (with_identity B k t fs) dir B"
proof -
  let ?f1 = "set_node (B @ [''identity.pem'']) (Some (File (cert_pem k))) fs"
  let ?f2 = "set_node (B @ [''identity-key.pem'']) (Some (File (key_pem k))) ?f1"
  have s: "writable_slot fs (B @ [''identity.pem''])" "writable_slot fs (B @ [''identity-key.pem''])"
      "writable_slot fs (B @ [''thumbprint''])" using assms(2) by simp_all
  have d1: "dir_at ?f1 dir B" using assms(1) s(1) by (auto simp: dir_at_write writable_slot_iff)
  have d2: "dir_at ?f2 dir B" using s(2) by (intro dir_at_write[OF d1]) (auto simp: writable_slot_iff)
  show "dir_at (with_identity B k t fs) dir B" unfolding with_identity_def
    using s(3) by (intro dir_at_write[OF d2]) (auto simp: writable_slot_iff)
  have w1: "lift_io (fs_write (path_push dir ''identity.pem'') (cert_pem k)) fs = (Inr (), ?f1)"
    using assms(1) s(1) by (intro lift_io_ok fs_write_child identity_names) (auto simp: writable_slot_iff)
  have w2: "lift_io (fs_write (path_push dir ''identity-key.pem'') (key_pem k)) ?f1 = (Inr (), ?f2)"
    using d1 s(2) by (intro lift_io_ok fs_write_child identity_names) (auto simp: writable_slot_iff)
  have w3: "lift_io (fs_write (path_push dir ''thumbprint'') bs) ?f2
      = (Inr (), set_node (B @ [''thumbprint'']) (Some (File bs)) ?f2)" for bs
    using d2 s(3) by (intro lift_io_ok fs_write_child identity_names) (auto simp: writable_slot_iff)
  show "create_identity P (Some k) dir fs =
      (Inr (), with_identity B k (compute_thumbprint P (cert_der k)) fs)"
    by (simp add: create_identity_def generate_msquic_pem_def sbind_def w1 w2 w3 with_identity_def)
qed

lemma thumbprint_line:
  assumes "thumbprint_form t"
  shows "rbind (ok_or NotUtf8 (from_utf8 (as_bytes (t @ [CHR 0x0A])))) (normalize_thumbprint P) = Inr t"
proof -
  have a: "list_all is_ascii (t @ [CHR 0x0A])"
    using spelling_form[OF assms] by (simp add: is_ascii_def code_def)
  have "spelling (t @ [CHR 0x0A]) = t"
    using spelling_form[OF assms] by (simp add: spelling_def is_ascii_whitespace_def code_def)
  then show ?thesis
    using normalize_spelling[OF assms a] utf8_valid_ascii[OF a] by (simp add: ok_or_def)
qed

lemma build_complete:
  assumes "dir_at fs dir B" "dir \<noteq> []" "thumbprint_form t"
    and "nodes fs (B @ [''thumbprint'']) = Some (File (as_bytes (t @ [CHR 0x0A])))"
    and "identity_complete fs dir"
  shows "build_persistent_quic_config P kp mk dir fs =
     (case mk fs (utf8_lossy (path_push dir ''identity.pem'')) (utf8_lossy (path_push dir ''identity-key.pem''))
      of None \<Rightarrow> Inl ConfigFailed | Some c \<Rightarrow> Inr (t, c), fs)"
proof -
  have "fs_metadata fs dir = Inr Dir" using path_is_dir_at[OF assms(1,2)] by (simp add: path_is_dir_def)
  moreover have "rbind (read_to_string fs (path_push dir ''thumbprint'')) (normalize_thumbprint P) = Inr t"
    using thumbprint_line[OF assms(3)] read_to_string_child[OF assms(1) identity_names(3) assms(4)] by simp
  ultimately show ?thesis
    using assms(5) lift_io_existing[OF assms(1)]
    by (simp add: build_persistent_quic_config_def sbind_def split: option.splits)
qed

text \<open>The identity a directory ends up with: the thumbprint is that of the certificate beside it.\<close>

lemma build_fresh:
  fixes k :: keypair
  assumes "pki_laws P" "dir_at fs dir B" "dir \<noteq> []" "\<not> identity_complete fs dir"
    and "list_all (\<lambda>s. writable_slot fs (B @ [s])) [''identity.pem'', ''identity-key.pem'', ''thumbprint'']"
  defines "t \<equiv> compute_thumbprint P (cert_der k)"
  shows "build_persistent_quic_config P (Some k) mk dir fs =
     build_persistent_quic_config P kp mk dir (with_identity B k t fs)"
    and "snd (build_persistent_quic_config P kp mk dir (with_identity B k t fs)) = with_identity B k t fs"
    and "fst (build_persistent_quic_config P kp mk dir (with_identity B k t fs)) =
     (case mk (with_identity B k t fs)
        (utf8_lossy (path_push dir ''identity.pem'')) (utf8_lossy (path_push dir ''identity-key.pem''))
      of None \<Rightarrow> Inl ConfigFailed | Some c \<Rightarrow> Inr (t, c))"
proof -
  let ?fs = "with_identity B k t fs"
  note cw = create_identity_writes[OF assms(2,5), where k = k]
  have d: "dir_at ?fs dir B" by (rule cw(2))
  have n: "nodes ?fs (B @ [''thumbprint'']) = Some (File (as_bytes (t @ [CHR 0x0A])))"
    by (simp add: with_identity_def)
  have tf: "thumbprint_form t" unfolding t_def by (rule compute_thumbprint_form[OF assms(1)])
  have c: "identity_complete ?fs dir"
    unfolding identity_complete_def
    using path_is_file_child[OF d identity_names(1)] path_is_file_child[OF d identity_names(2)]
      path_is_file_child[OF d identity_names(3)]
    by (simp add: with_identity_def)
  note bc = build_complete[OF d assms(3) tf n c, where P = P and mk = mk]
  show "snd (build_persistent_quic_config P kp mk dir ?fs) = ?fs" by (simp add: bc)
  show "fst (build_persistent_quic_config P kp mk dir ?fs) =
     (case mk ?fs (utf8_lossy (path_push dir ''identity.pem'')) (utf8_lossy (path_push dir ''identity-key.pem''))
      of None \<Rightarrow> Inl ConfigFailed | Some c \<Rightarrow> Inr (t, c))" by (simp add: bc)
  have m: "fs_metadata fs dir = Inr Dir" "fs_metadata ?fs dir = Inr Dir"
    using path_is_dir_at[OF assms(2,3)] path_is_dir_at[OF d assms(3)] by (simp_all add: path_is_dir_def)
  have cr: "create_identity P (Some k) dir fs = (Inr (), ?fs)" unfolding t_def by (rule cw(1))
  show "build_persistent_quic_config P (Some k) mk dir fs = build_persistent_quic_config P kp mk dir ?fs"
    unfolding build_persistent_quic_config_def sbind_def
    using assms(4) c cr m lift_io_existing[OF assms(2)]
      lift_io_existing[OF d]
    by simp
qed

section \<open>Properties\<close>

text \<open>
  C20: A pin accepts exactly the certificates of its thumbprint. However the pin was typed (in
  either case, with colons and white space), it normalizes to the thumbprint, and then the
  server verifier accepts a certificate if and only if its thumbprint is that one.
\<close>

theorem pin_accepts_exactly:
  assumes "pki_laws P" "list_all is_ascii raw"
    and "eq_ignore_ascii_case (spelling raw) (compute_thumbprint P pinned)"
  shows "\<exists>pin. normalize_thumbprint P raw = Inr pin
     \<and> (\<forall>cert. is_ok (verify_server_cert P pin cert)
            \<longleftrightarrow> compute_thumbprint P cert = compute_thumbprint P pinned)"
proof -
  let ?t = "compute_thumbprint P pinned"
  have f: "thumbprint_form (compute_thumbprint P c)" for c
    by (rule compute_thumbprint_form[OF assms(1)])
  have "normalize_thumbprint P raw = Inr ?t" by (rule normalize_spelling[OF f assms(2,3)])
  then show ?thesis using server_pin.accepts_exactly[of P _ ?t] f by auto
qed

definition hex_char :: "nat \<Rightarrow> char" where
  "hex_char n = (if n < 10 then char_of (48 + n) else char_of (87 + n))"

definition demo_pki :: pki where
  "demo_pki = \<lparr>sha1 = (\<lambda>bs. replicate 19 0 @ [foldr (+) bs 0]),
     hex_text = (\<lambda>bs. concat (map (\<lambda>b. [hex_char (unat b div 16), hex_char (unat b mod 16)]) bs)),
     upper_tbl = (\<lambda>_. [])\<rparr>"

lemma hex_char_digit: "n < 16 \<Longrightarrow> is_ascii_hexdigit (hex_char n)"
proof -
  assume "n < 16"
  then have "code (hex_char n) = (if n < 10 then 48 + n else 87 + n)"
    by (simp add: hex_char_def code_char_of)
  then show ?thesis using \<open>n < 16\<close> by (simp add: is_ascii_hexdigit_def is_ascii_digit_def)
qed

lemma demo_pki_laws: "pki_laws demo_pki"
proof -
  have d: "unat (b :: byte) div 16 < 16" for b
  proof -
    have "unat b < 256" using unsigned_less[where 'a = nat, of b] by simp
    then show ?thesis by linarith
  qed
  have "length (hex_text demo_pki bs) = 2 * length bs \<and> list_all is_ascii_hexdigit (hex_text demo_pki bs)" for bs
    by (induction bs) (use d in \<open>auto simp: demo_pki_def hex_char_digit\<close>)
  then show ?thesis by (simp add: pki_laws_def) (simp add: demo_pki_def)
qed

definition demo_identity_disk :: fsys where
  "demo_identity_disk = \<lparr>nodes = [[''id''] \<mapsto> Dir], cwd = []\<rparr>"

definition demo_keypair :: keypair where
  "demo_keypair = \<lparr>cert_der = [1, 2, 3], cert_pem = [80], key_pem = [81]\<rparr>"

lemma demo_thumbprint:
  "compute_thumbprint demo_pki [1, 2, 3] = concat (replicate 19 ''00'') @ ''06''"
proof -
  have z: "hex_char 0 = CHR ''0''" "hex_char 6 = CHR ''6''"
    by (simp_all add: code_inj[symmetric] hex_char_def code_char_of) (simp_all add: code_def)
  have h: "hex_text demo_pki (sha1 demo_pki [1, 2, 3]) = concat (replicate 19 ''00'') @ ''06''"
    by (simp add: demo_pki_def z)
  have a: "list_all is_ascii (concat (replicate 19 ''00'') @ ''06'')"
    by (simp add: is_ascii_def code_def list_all_iff)
  have "map ascii_upper (concat (replicate 19 ''00'') @ ''06'') = concat (replicate 19 ''00'') @ ''06''"
    by (simp add: map_concat ascii_upper_def code_def)
  then show ?thesis
    unfolding compute_thumbprint_def h to_uppercase_def map_case_ascii[OF a] .
qed

theorem pin_accepts_exactly_witness:
  "\<exists>pin. normalize_thumbprint demo_pki (CHR '' '' # concat (replicate 19 ''00'') @ '':06'') = Inr pin
     \<and> (\<forall>cert. is_ok (verify_server_cert demo_pki pin cert)
            \<longleftrightarrow> compute_thumbprint demo_pki cert = compute_thumbprint demo_pki [1, 2, 3])"
proof (rule pin_accepts_exactly[OF demo_pki_laws])
  show "list_all is_ascii (CHR '' '' # concat (replicate 19 ''00'') @ '':06'')"
    by (simp add: is_ascii_def code_def list_all_iff)
  have "spelling (CHR '' '' # concat (replicate 19 ''00'') @ '':06'') = concat (replicate 19 ''00'') @ ''06''"
    by (simp add: spelling_def is_ascii_whitespace_def code_def filter_concat)
  then show "eq_ignore_ascii_case (spelling (CHR '' '' # concat (replicate 19 ''00'') @ '':06''))
      (compute_thumbprint demo_pki [1, 2, 3])"
    by (simp only: demo_thumbprint eq_ignore_ascii_case_refl)
qed

text \<open>
  C34: A persistent identity is stable. When one of its files is missing, a new certificate, its
  key and its thumbprint are stored, and the thumbprint announced is that of the stored
  certificate. Every later start finds the identity complete: it generates nothing, changes
  nothing on the disk and returns the same result, whatever the generator would give.
\<close>

theorem identity_is_stable:
  assumes "pki_laws P" "dir_at fs dir B" "dir \<noteq> []" "\<not> identity_complete fs dir"
    and "list_all (\<lambda>s. writable_slot fs (B @ [s])) [''identity.pem'', ''identity-key.pem'', ''thumbprint'']"
    and "build_persistent_quic_config P (Some k) mk dir fs = (r, fs')"
  shows "file_content fs' (B @ [''identity.pem'']) = cert_pem k
    \<and> file_content fs' (B @ [''identity-key.pem'']) = key_pem k
    \<and> map_sum id fst r \<in> {Inl ConfigFailed, Inr (compute_thumbprint P (cert_der k))}
    \<and> build_persistent_quic_config P kp mk dir fs' = (r, fs')"
proof -
  let ?fs = "with_identity B k (compute_thumbprint P (cert_der k)) fs"
  note bf = build_fresh[OF assms(1-5), where k = k and mk = mk]
  have fs': "fs' = ?fs" using assms(6) bf(1)[of None] bf(2)[of None] by (metis snd_conv)
  have again: "build_persistent_quic_config P kp mk dir ?fs = (r, ?fs)"
    using assms(6) bf(1)[of kp] fs' by simp
  have "map_sum id fst r \<in> {Inl ConfigFailed, Inr (compute_thumbprint P (cert_der k))}"
    using bf(3)[of kp] again by (auto split: option.splits)
  then show ?thesis using again fs' by (simp add: with_identity_def file_content_def)
qed

theorem identity_is_stable_witness:
  "\<exists>r fs'. build_persistent_quic_config demo_pki (Some demo_keypair) (\<lambda>_ _ _. Some ()) ''id'' demo_identity_disk
       = (r, fs')
     \<and> file_content fs' [''id'', ''identity.pem''] = [80]
     \<and> build_persistent_quic_config demo_pki None (\<lambda>_ _ _. Some ()) ''id'' fs' = (r, fs')"
proof -
  obtain r fs' where b:
    "build_persistent_quic_config demo_pki (Some demo_keypair) (\<lambda>_ _ _. Some ()) ''id'' demo_identity_disk = (r, fs')"
    by fastforce
  have c: "components ''id'' = [Normal ''id'']" by (rule components_plain) (simp add: plain_name_def)
  have d: "dir_at demo_identity_disk ''id'' [''id'']"
    unfolding dir_at_def c by (simp add: demo_identity_disk_def max_symlinks_def node_at_def)
  have i: "\<not> identity_complete demo_identity_disk ''id''"
    unfolding identity_complete_def
    using path_is_file_child[OF d identity_names(1)] by (simp add: demo_identity_disk_def)
  have w: "list_all (\<lambda>s. writable_slot demo_identity_disk ([''id''] @ [s]))
      [''identity.pem'', ''identity-key.pem'', ''thumbprint'']"
    by (simp add: writable_slot_def demo_identity_disk_def)
  have "''id'' \<noteq> ([] :: string)" by simp
  from identity_is_stable[OF demo_pki_laws d this i w b, of None] b show ?thesis
    by (simp add: demo_keypair_def)
qed

end
