(* ===== verification/Msquic_Stream.thy ===== *)
theory Msquic_Stream
  imports Rust_Io
begin

text \<open>
  One QUIC stream (\<open>msquic/stream.rs\<close>): the shared state under its mutex, the callback that
  MsQuic invokes, and the polls of the two halves. Callbacks and polls take the mutex, so a run of
  the stream is a sequence of them; \<open>stream_step\<close> is the step relation, with what the MsQuic
  documentation promises about its events as \<open>permitted\<close>.

  The heap blocks that \<open>poll_write\<close> hands to MsQuic are \<open>boxes\<close>, keyed by the context pointer;
  \<open>handed\<close> records every call of \<open>StreamSend\<close> that MsQuic accepted, \<open>finished\<close> the graceful
  shutdown requested of MsQuic, \<open>woken\<close> the wakers called.
\<close>

section \<open>State\<close>

type_synonym waker = nat

record stream_shared =
  stream_handle :: nat
  recv_buf :: "byte list"
  recv_waker :: "waker option"
  send_waker :: "waker option"
  is_closed_read :: bool
  is_closed_write :: bool
  in_flight_bytes :: nat
  stream_error :: "(io_error \<times> string) option"
  boxes :: "(nat \<times> byte list) list"
  next_box :: nat
  handed :: "byte list list"
  finished :: bool
  woken :: "waker list"

text \<open>The entries of the MsQuic table: whether it loads, and what its functions return.\<close>

record stream_api =
  api_loads :: "string option"
  StreamSend :: "(nat \<Rightarrow> byte list \<Rightarrow> u32) option"
  StreamShutdown :: bool

definition is_quic_success_or_pending :: "u32 \<Rightarrow> bool" where
  "is_quic_success_or_pending s \<longleftrightarrow> s = 0 \<or> s = 0x000703e5 \<or> s = 0x703e5 \<or> s = 0xfffffffe"

definition new_stream :: "nat \<Rightarrow> stream_shared" where
  "new_stream h = \<lparr>stream_handle = h, recv_buf = [], recv_waker = None, send_waker = None,
     is_closed_read = False, is_closed_write = False, in_flight_bytes = 0, stream_error = None,
     boxes = [], next_box = 1, handed = [], finished = False, woken = []\<rparr>"

definition wake_recv :: "stream_shared \<Rightarrow> stream_shared" where
  "wake_recv s = (case recv_waker s of None \<Rightarrow> s
     | Some w \<Rightarrow> s\<lparr>recv_waker := None, woken := woken s @ [w]\<rparr>)"

definition wake_send :: "stream_shared \<Rightarrow> stream_shared" where
  "wake_send s = (case send_waker s of None \<Rightarrow> s
     | Some w \<Rightarrow> s\<lparr>send_waker := None, woken := woken s @ [w]\<rparr>)"

section \<open>The callback\<close>

text \<open>A received buffer is \<open>None\<close> when its pointer is null; so is the context of a completed send.\<close>

datatype stream_event =
    RECEIVE "byte list option list"
  | SEND_COMPLETE "nat option"
  | PEER_SEND_SHUTDOWN
  | PEER_RECEIVE_ABORTED
  | PEER_SEND_ABORTED
  | SHUTDOWN_COMPLETE
  | OtherEvent

definition buffer_bytes :: "byte list option list \<Rightarrow> byte list" where
  "buffer_bytes bufs = concat (map (\<lambda>b. case b of None \<Rightarrow> [] | Some bs \<Rightarrow> bs) bufs)"

definition box_size :: "(nat \<times> byte list) list \<Rightarrow> nat \<Rightarrow> nat" where
  "box_size bs p = (case map_of bs p of None \<Rightarrow> 0 | Some d \<Rightarrow> length d)"

definition free_box :: "nat \<Rightarrow> (nat \<times> byte list) list \<Rightarrow> (nat \<times> byte list) list" where
  "free_box p bs = filter (\<lambda>(q, _). q \<noteq> p) bs"

fun msquic_stream_callback :: "stream_event \<Rightarrow> stream_shared \<Rightarrow> stream_shared" where
  "msquic_stream_callback (RECEIVE buffers) s =
     wake_recv (s\<lparr>recv_buf := recv_buf s @ buffer_bytes buffers\<rparr>)"
| "msquic_stream_callback (SEND_COMPLETE ctx) s =
     wake_send (case ctx of
        None \<Rightarrow> s
      | Some p \<Rightarrow> s\<lparr>in_flight_bytes := in_flight_bytes s - box_size (boxes s) p,
                     boxes := free_box p (boxes s)\<rparr>)"
| "msquic_stream_callback PEER_SEND_SHUTDOWN s = wake_recv (s\<lparr>is_closed_read := True\<rparr>)"
| "msquic_stream_callback PEER_RECEIVE_ABORTED s =
     wake_send (s\<lparr>is_closed_write := True,
       stream_error := Some (ConnectionReset, ''Peer aborted receive'')\<rparr>)"
| "msquic_stream_callback PEER_SEND_ABORTED s =
     wake_recv (s\<lparr>is_closed_read := True,
       stream_error := Some (ConnectionReset, ''Peer aborted send'')\<rparr>)"
| "msquic_stream_callback SHUTDOWN_COMPLETE s =
     wake_send (wake_recv (s\<lparr>is_closed_read := True, is_closed_write := True\<rparr>))"
| "msquic_stream_callback OtherEvent s = s"

section \<open>The polls\<close>

datatype 'a poll = Pending | Ready 'a

type_synonym 'a io_poll = "(io_error \<times> string + 'a) poll"

text \<open>\<open>poll_read\<close> into a buffer with \<open>remaining\<close> free bytes; no bytes mean end of file.\<close>

definition poll_read :: "waker \<Rightarrow> nat \<Rightarrow> stream_shared \<Rightarrow> byte list io_poll \<times> stream_shared" where
  "poll_read cx remaining s =
     (case stream_error s of
        Some err \<Rightarrow> (Ready (Inl err), s)
      | None \<Rightarrow>
          if recv_buf s \<noteq> [] then
            (let to_read = min remaining (length (recv_buf s)) in
             (Ready (Inr (take to_read (recv_buf s))), s\<lparr>recv_buf := drop to_read (recv_buf s)\<rparr>))
          else if is_closed_read s then (Ready (Inr []), s)
          else (Pending, s\<lparr>recv_waker := Some cx\<rparr>))"

definition MAX_IN_FLIGHT_BYTES :: nat where
  "MAX_IN_FLIGHT_BYTES = 16 * 1024 * 1024"

text \<open>The length MsQuic is given has 32 bits.\<close>

definition buffer_len :: "byte list \<Rightarrow> nat" where
  "buffer_len buf = unat (word_of_nat (length buf) :: u32)"

definition poll_write :: "stream_api \<Rightarrow> waker \<Rightarrow> byte list \<Rightarrow> stream_shared \<Rightarrow> nat io_poll \<times> stream_shared" where
  "poll_write api cx buf s =
     (case stream_error s of
        Some err \<Rightarrow> (Ready (Inl err), s)
      | None \<Rightarrow>
          if is_closed_write s then (Ready (Inl (BrokenPipe, ''Stream closed for writing'')), s)
          else if MAX_IN_FLIGHT_BYTES \<le> in_flight_bytes s then (Pending, s\<lparr>send_waker := Some cx\<rparr>)
          else if buf = [] then (Ready (Inr 0), s)
          else (case api_loads api of
              Some e \<Rightarrow> (Ready (Inl (OtherIo, e)), s)
            | None \<Rightarrow>
              (case StreamSend api of
                 None \<Rightarrow> (Ready (Inl (OtherIo, ''StreamSend missing'')), s)
               | Some stream_send \<Rightarrow>
                   (let n = buffer_len buf;
                        s1 = s\<lparr>boxes := boxes s @ [(next_box s, buf)], next_box := next_box s + 1,
                               in_flight_bytes := in_flight_bytes s + n\<rparr>;
                        status = stream_send (stream_handle s) (take n buf) in
                    if \<not> is_quic_success_or_pending status then
                      (Ready (Inl (OtherIo, ''StreamSend failed with status 0x'' @ show_hex_width 8 status)),
                       s1\<lparr>in_flight_bytes := in_flight_bytes s1 - n,
                          boxes := free_box (next_box s) (boxes s1)\<rparr>)
                    else (Ready (Inr n), s1\<lparr>handed := handed s @ [take n buf]\<rparr>)))))"

definition poll_flush :: "waker \<Rightarrow> stream_shared \<Rightarrow> unit io_poll \<times> stream_shared" where
  "poll_flush cx s =
     (if 0 < in_flight_bytes s then (Pending, s\<lparr>send_waker := Some cx\<rparr>) else (Ready (Inr ()), s))"

definition poll_shutdown :: "stream_api \<Rightarrow> waker \<Rightarrow> stream_shared \<Rightarrow> unit io_poll \<times> stream_shared" where
  "poll_shutdown api cx s =
     (if 0 < in_flight_bytes s then (Pending, s\<lparr>send_waker := Some cx\<rparr>)
      else if \<not> is_closed_write s then
        (case api_loads api of
           Some e \<Rightarrow> (Ready (Inl (OtherIo, e)), s)
         | None \<Rightarrow>
             (Ready (Inr ()),
              (if StreamShutdown api then s\<lparr>finished := True\<rparr> else s)\<lparr>is_closed_write := True\<rparr>))
      else (Ready (Inr ()), s))"

section \<open>Runs of a stream\<close>

datatype stream_act = Event stream_event | Read waker nat | Write waker "byte list" | Flush waker
  | Shutdown waker

text \<open>What the program sees of a step: the bytes read and the number of bytes accepted.\<close>

datatype seen = Nothing | GotBytes "byte list io_poll" | Accepted "byte list" "nat io_poll" | Done "unit io_poll"

fun perform :: "stream_api \<Rightarrow> stream_act \<Rightarrow> stream_shared \<Rightarrow> seen \<times> stream_shared" where
  "perform api (Event ev) s = (Nothing, msquic_stream_callback ev s)"
| "perform api (Read cx n) s = (let (r, s') = poll_read cx n s in (GotBytes r, s'))"
| "perform api (Write cx buf) s = (let (r, s') = poll_write api cx buf s in (Accepted buf r, s'))"
| "perform api (Flush cx) s = (let (r, s') = poll_flush cx s in (Done r, s'))"
| "perform api (Shutdown cx) s = (let (r, s') = poll_shutdown api cx s in (Done r, s'))"

text \<open>
  MsQuic completes a send once, with the context it was given, and delivers no bytes after the
  end of the peer's direction.
\<close>

fun permitted :: "stream_shared \<Rightarrow> stream_act \<Rightarrow> bool" where
  "permitted s (Event (SEND_COMPLETE (Some p))) = (p \<in> set (map fst (boxes s)))"
| "permitted s (Event (RECEIVE bufs)) = (buffer_bytes bufs = [] \<or> \<not> is_closed_read s)"
| "permitted s (Write cx buf) = (length buf < 2 ^ 32)"
| "permitted s _ = True"

inductive stream_run :: "stream_api \<Rightarrow> stream_shared \<Rightarrow> (stream_act \<times> seen) list \<Rightarrow> stream_shared \<Rightarrow> bool"
  for api where
  run_nil: "stream_run api s [] s"
| run_step: "stream_run api s tr s1 \<Longrightarrow> permitted s1 a \<Longrightarrow> perform api a s1 = (v, s2) \<Longrightarrow>
     stream_run api s (tr @ [(a, v)]) s2"

inductive_cases stream_run_NilE: "stream_run api s [] s'"

text \<open>The bytes a run received from MsQuic, gave to the reader, and took from the writer.\<close>

fun received_by :: "stream_act \<times> seen \<Rightarrow> byte list" where
  "received_by (Event (RECEIVE bufs), _) = buffer_bytes bufs"
| "received_by _ = []"

fun read_by :: "stream_act \<times> seen \<Rightarrow> byte list" where
  "read_by (_, GotBytes (Ready (Inr bs))) = bs"
| "read_by _ = []"

fun accepted_by :: "stream_act \<times> seen \<Rightarrow> byte list" where
  "accepted_by (_, Accepted buf (Ready (Inr n))) = take n buf"
| "accepted_by _ = []"

definition received :: "(stream_act \<times> seen) list \<Rightarrow> byte list" where
  "received tr = concat (map received_by tr)"

definition delivered :: "(stream_act \<times> seen) list \<Rightarrow> byte list" where
  "delivered tr = concat (map read_by tr)"

definition accepted :: "(stream_act \<times> seen) list \<Rightarrow> byte list" where
  "accepted tr = concat (map accepted_by tr)"

section \<open>The invariant of the shared state\<close>

definition box_sum :: "(nat \<times> byte list) list \<Rightarrow> nat" where
  "box_sum bs = sum_list (map (length \<circ> snd) bs)"

definition boxes_ok :: "stream_shared \<Rightarrow> bool" where
  "boxes_ok s \<longleftrightarrow> distinct (map fst (boxes s)) \<and> list_all (\<lambda>(p, d). p < next_box s) (boxes s)
     \<and> in_flight_bytes s = box_sum (boxes s) \<and> list_all (\<lambda>(p, d). d \<noteq> []) (boxes s)"

definition wakers_ok :: "stream_shared \<Rightarrow> bool" where
  "wakers_ok s \<longleftrightarrow>
     (recv_waker s \<noteq> None \<longrightarrow> recv_buf s = [] \<and> \<not> is_closed_read s)
     \<and> (send_waker s \<noteq> None \<longrightarrow> boxes s \<noteq> [])"

definition shutdown_ok :: "stream_shared \<Rightarrow> bool" where
  "shutdown_ok s \<longleftrightarrow> (finished s \<longrightarrow> is_closed_write s \<and> boxes s = [])"

definition error_ok :: "stream_shared \<Rightarrow> bool" where
  "error_ok s \<longleftrightarrow> (case stream_error s of None \<Rightarrow> True | Some (k, _) \<Rightarrow> k = ConnectionReset)"

named_theorems stream_simps \<open>effect of the operations of a stream on its fields\<close>

lemma wake_fields [stream_simps, simp]:
  "recv_buf (wake_recv s) = recv_buf s" "recv_buf (wake_send s) = recv_buf s"
  "boxes (wake_recv s) = boxes s" "boxes (wake_send s) = boxes s"
  "next_box (wake_recv s) = next_box s" "next_box (wake_send s) = next_box s"
  "in_flight_bytes (wake_recv s) = in_flight_bytes s" "in_flight_bytes (wake_send s) = in_flight_bytes s"
  "is_closed_read (wake_recv s) = is_closed_read s" "is_closed_read (wake_send s) = is_closed_read s"
  "is_closed_write (wake_recv s) = is_closed_write s" "is_closed_write (wake_send s) = is_closed_write s"
  "finished (wake_recv s) = finished s" "finished (wake_send s) = finished s"
  "handed (wake_recv s) = handed s" "handed (wake_send s) = handed s"
  "stream_error (wake_recv s) = stream_error s" "stream_error (wake_send s) = stream_error s"
  "recv_waker (wake_recv s) = None" "send_waker (wake_send s) = None"
  "recv_waker (wake_send s) = recv_waker s" "send_waker (wake_recv s) = send_waker s"
  by (auto simp: wake_recv_def wake_send_def split: option.splits)

lemma buffer_len_small [simp]: "length buf < 2 ^ 32 \<Longrightarrow> buffer_len buf = length buf"
  by (simp add: buffer_len_def unat_word_of_nat)

lemma box_sum_simps [simp]: "box_sum [] = 0" "box_sum (a # bs) = length (snd a) + box_sum bs"
    "box_sum (bs @ cs) = box_sum bs + box_sum cs"
  by (simp_all add: box_sum_def)

lemma box_size_le: "box_size bs p \<le> box_sum bs"
proof (induction bs)
  case (Cons a bs)
  then show ?case by (cases a) (auto simp: box_size_def split: option.splits)
qed (simp add: box_size_def)

lemma box_sum_free:
  "distinct (map fst bs) \<Longrightarrow> p \<in> set (map fst bs) \<Longrightarrow> box_sum (free_box p bs) = box_sum bs - box_size bs p"
proof (induction bs)
  case (Cons a bs)
  obtain q d where a: "a = (q, d)" by fastforce
  show ?case
  proof (cases "q = p")
    case True
    then have "free_box p bs = bs" using Cons.prems a by (force simp: free_box_def filter_id_conv)
    then show ?thesis using True a by (simp add: free_box_def box_size_def)
  next
    case False
    then show ?thesis using Cons a box_size_le[of bs p] by (auto simp: free_box_def box_size_def)
  qed
qed simp

lemma free_box_subset: "set (free_box p bs) \<subseteq> set bs"
  by (auto simp: free_box_def)

lemma free_box_distinct: "distinct (map fst bs) \<Longrightarrow> distinct (map fst (free_box p bs))"
  by (simp add: free_box_def distinct_map_filter)

lemma free_new_box [simp]:
  "list_all (\<lambda>(p, d). p < n) bs \<Longrightarrow> free_box n (bs @ [(n, d)]) = bs"
  by (auto simp: free_box_def list_all_iff filter_id_conv)

lemma box_sum_zero: "list_all (\<lambda>(p, d). d \<noteq> []) bs \<Longrightarrow> box_sum bs = 0 \<longleftrightarrow> bs = []"
  by (cases bs) auto

lemma callback_boxes_ok:
  assumes "boxes_ok s" "permitted s (Event ev)"
  shows "boxes_ok (msquic_stream_callback ev s)"
proof (cases ev)
  case (SEND_COMPLETE ctx)
  show ?thesis
  proof (cases ctx)
    case (Some p)
    then have "distinct (map fst (free_box p (boxes s)))"
      "box_sum (free_box p (boxes s)) = box_sum (boxes s) - box_size (boxes s) p"
      using assms SEND_COMPLETE by (auto simp: boxes_ok_def free_box_distinct box_sum_free)
    then show ?thesis using assms free_box_subset[of p "boxes s"] SEND_COMPLETE Some
      by (auto simp: boxes_ok_def list_all_iff)
  qed (use assms SEND_COMPLETE in \<open>simp add: boxes_ok_def\<close>)
qed (use assms in \<open>simp_all add: boxes_ok_def\<close>)

lemma callback_other_ok:
  assumes "permitted s (Event ev)"
  shows "wakers_ok s \<Longrightarrow> wakers_ok (msquic_stream_callback ev s)"
    and "shutdown_ok s \<Longrightarrow> shutdown_ok (msquic_stream_callback ev s)"
    and "error_ok s \<Longrightarrow> error_ok (msquic_stream_callback ev s)"
  by (cases ev; auto simp: wakers_ok_def shutdown_ok_def error_ok_def free_box_def split: option.splits)+

lemma poll_write_cases:
  assumes "poll_write api cx buf s = (r, s')" "boxes_ok s" "length buf < 2 ^ 32"
  obtains (same) "s' = s" "\<forall>n. r = Ready (Inr n) \<longrightarrow> n = 0"
  | (wait) "r = Pending" "s' = s\<lparr>send_waker := Some cx\<rparr>" "MAX_IN_FLIGHT_BYTES \<le> in_flight_bytes s"
  | (refused) e where "r = Ready (Inl e)" "s' = s\<lparr>next_box := next_box s + 1\<rparr>"
  | (sent) "r = Ready (Inr (length buf))" "buf \<noteq> []" "in_flight_bytes s < MAX_IN_FLIGHT_BYTES"
      "stream_error s = None" "\<not> is_closed_write s"
      "s' = s\<lparr>boxes := boxes s @ [(next_box s, buf)], next_box := next_box s + 1,
              in_flight_bytes := in_flight_bytes s + length buf, handed := handed s @ [buf]\<rparr>"
proof -
  have f: "free_box (next_box s) (boxes s @ [(next_box s, buf)]) = boxes s"
    using assms(2) by (simp add: boxes_ok_def)
  have b: "buffer_len buf = length buf" using assms(3) by simp
  show thesis
  proof (cases "stream_error s")
    case (Some e)
    then show thesis using same assms(1) by (auto simp: poll_write_def)
  next
    case e: None
    show thesis
    proof (cases "is_closed_write s \<or> buf = [] \<or> api_loads api \<noteq> None \<or> StreamSend api = None
        \<or> MAX_IN_FLIGHT_BYTES \<le> in_flight_bytes s")
      case True
      then show thesis using e assms(1) same wait
        by (auto simp: poll_write_def split: if_splits option.splits)
    next
      case False
      then obtain send where send: "StreamSend api = Some send" by auto
      show thesis
      proof (cases "is_quic_success_or_pending (send (stream_handle s) buf)")
        case True
        have "r = Ready (Inr (length buf))" "s' = s\<lparr>boxes := boxes s @ [(next_box s, buf)],
            next_box := next_box s + 1, in_flight_bytes := in_flight_bytes s + length buf,
            handed := handed s @ [buf]\<rparr>"
          using e False send True assms(1) by (simp_all add: poll_write_def Let_def b not_le)
        then show thesis using sent e False by (simp add: not_le)
      next
        case no: False
        have "s' = s\<lparr>next_box := next_box s + 1\<rparr>" "\<exists>e. r = Ready (Inl e)"
          using e False send no assms(1) f by (auto simp: poll_write_def Let_def b not_le)
        then show thesis using refused by auto
      qed
    qed
  qed
qed

lemma max_in_flight_pos: "0 < MAX_IN_FLIGHT_BYTES"
  by (simp add: MAX_IN_FLIGHT_BYTES_def)

definition stream_ok :: "stream_shared \<Rightarrow> bool" where
  "stream_ok s \<longleftrightarrow> boxes_ok s \<and> wakers_ok s \<and> shutdown_ok s \<and> error_ok s"

lemma perform_ok:
  assumes ok: "stream_ok s" and p: "permitted s a" and d: "perform api a s = (v, s')"
  shows "stream_ok s'"
proof -
  note inv = ok[unfolded stream_ok_def]
  have waits: "0 < in_flight_bytes s \<Longrightarrow> boxes s \<noteq> []"
    using inv by (auto simp: boxes_ok_def)
  show ?thesis
  proof (cases a)
    case (Event ev)
    then show ?thesis using inv p d callback_boxes_ok callback_other_ok by (auto simp: stream_ok_def)
  next
    case (Read cx n)
    then show ?thesis using inv d
      by (auto simp: poll_read_def Let_def stream_ok_def boxes_ok_def wakers_ok_def shutdown_ok_def
          error_ok_def split: option.splits if_splits prod.splits)
  next
    case (Write cx buf)
    obtain r where w: "poll_write api cx buf s = (r, s')" using Write d by (auto split: prod.splits)
    have b: "boxes_ok s" "length buf < 2 ^ 32" using inv p Write by auto
    show ?thesis using w b
    proof (cases rule: poll_write_cases)
      case wait
      then have "boxes s \<noteq> []" using waits max_in_flight_pos by simp
      then show ?thesis using wait inv
        by (auto simp: stream_ok_def boxes_ok_def wakers_ok_def shutdown_ok_def error_ok_def)
    next
      case refused
      then show ?thesis using inv
        by (auto simp: stream_ok_def boxes_ok_def wakers_ok_def shutdown_ok_def error_ok_def list_all_iff less_SucI)
    next
      case sent
      then show ?thesis using inv
        by (auto simp: stream_ok_def boxes_ok_def wakers_ok_def shutdown_ok_def error_ok_def list_all_iff less_SucI)
    qed (use ok in simp)
  next
    case (Flush cx)
    then show ?thesis using inv d waits
      by (auto simp: poll_flush_def stream_ok_def boxes_ok_def wakers_ok_def shutdown_ok_def error_ok_def
          split: if_splits)
  next
    case (Shutdown cx)
    then show ?thesis using inv d waits box_sum_zero[of "boxes s"]
      by (auto simp: poll_shutdown_def stream_ok_def boxes_ok_def wakers_ok_def shutdown_ok_def error_ok_def
          split: if_splits option.splits)
  qed
qed

lemma new_stream_ok: "stream_ok (new_stream h)"
  by (simp add: stream_ok_def new_stream_def boxes_ok_def wakers_ok_def shutdown_ok_def error_ok_def)

lemma run_ok: "stream_run api s tr s' \<Longrightarrow> stream_ok s \<Longrightarrow> stream_ok s'"
  by (induction rule: stream_run.induct) (auto intro: perform_ok)

section \<open>What goes through a stream\<close>

lemma received_snoc [simp]: "received (tr @ [x]) = received tr @ received_by x"
  and delivered_snoc [simp]: "delivered (tr @ [x]) = delivered tr @ read_by x"
  and accepted_snoc [simp]: "accepted (tr @ [x]) = accepted tr @ accepted_by x"
  and trace_nil [simp]: "received [] = []" "delivered [] = []" "accepted [] = []"
  by (simp_all add: received_def delivered_def accepted_def)

lemma perform_reads:
  assumes "perform api a s = (v, s')"
  shows "read_by (a, v) @ recv_buf s' = recv_buf s @ received_by (a, v)"
proof (cases a)
  case (Event ev)
  then show ?thesis using assms by (cases ev) (auto split: option.splits)
next
  case (Read cx n)
  then show ?thesis using assms
    by (auto simp: poll_read_def Let_def split: option.splits if_splits)
next
  case (Write cx buf)
  then show ?thesis using assms
    by (auto simp: poll_write_def Let_def split: option.splits if_splits)
next
  case (Shutdown cx)
  then show ?thesis using assms
    by (auto simp: poll_shutdown_def split: option.splits if_splits)
qed (use assms in \<open>auto simp: poll_flush_def split: if_splits\<close>)

lemma perform_writes:
  assumes "perform api a s = (v, s')"
  shows "concat (handed s') = concat (handed s) @ accepted_by (a, v)"
proof (cases a)
  case (Event ev)
  then show ?thesis using assms by (cases ev) (auto split: option.splits)
next
  case (Read cx n)
  then show ?thesis using assms
    by (auto simp: poll_read_def Let_def split: option.splits if_splits)
next
  case (Write cx buf)
  then show ?thesis using assms
    by (auto simp: poll_write_def Let_def split: option.splits if_splits)
next
  case (Shutdown cx)
  then show ?thesis using assms
    by (auto simp: poll_shutdown_def split: option.splits if_splits)
qed (use assms in \<open>auto simp: poll_flush_def split: if_splits\<close>)

lemma run_reads:
  "stream_run api s tr s' \<Longrightarrow> recv_buf s = [] \<Longrightarrow> delivered tr @ recv_buf s' = received tr"
proof (induction rule: stream_run.induct)
  case (run_step s tr s1 a v s2)
  then show ?case using perform_reads[OF run_step.hyps(3)] by simp
qed simp

lemma run_writes:
  "stream_run api s tr s' \<Longrightarrow> handed s = [] \<Longrightarrow> accepted tr = concat (handed s')"
proof (induction rule: stream_run.induct)
  case (run_step s tr s1 a v s2)
  then show ?case using perform_writes[OF run_step.hyps(3)] by simp
qed simp

section \<open>Backpressure\<close>

fun write_size :: "stream_act \<Rightarrow> nat" where
  "write_size (Write _ buf) = length buf"
| "write_size _ = 0"

lemma perform_bounded:
  assumes "stream_ok s" "permitted s a" "perform api a s = (v, s')" "write_size a \<le> m"
    and b: "in_flight_bytes s < MAX_IN_FLIGHT_BYTES + m"
  shows "in_flight_bytes s' < MAX_IN_FLIGHT_BYTES + m"
proof (cases a)
  case (Event ev)
  then show ?thesis using assms by (cases ev) (auto split: option.splits)
next
  case (Read cx n)
  then show ?thesis using assms by (auto simp: poll_read_def Let_def split: option.splits if_splits)
next
  case (Write cx buf)
  obtain r where w: "poll_write api cx buf s = (r, s')" using Write assms(3) by (auto split: prod.splits)
  have l: "boxes_ok s" "length buf < 2 ^ 32" using assms(1,2) Write by (auto simp: stream_ok_def)
  show ?thesis using w l by (cases rule: poll_write_cases) (use b assms(4) Write in auto)
next
  case (Shutdown cx)
  then show ?thesis using assms by (auto simp: poll_shutdown_def split: option.splits if_splits)
qed (use assms in \<open>auto simp: poll_flush_def split: if_splits\<close>)

lemma run_bounded:
  "stream_run api s tr s' \<Longrightarrow> stream_ok s \<Longrightarrow> list_all (\<lambda>(a, v). write_size a \<le> m) tr \<Longrightarrow>
     in_flight_bytes s < MAX_IN_FLIGHT_BYTES + m \<Longrightarrow> in_flight_bytes s' < MAX_IN_FLIGHT_BYTES + m"
proof (induction rule: stream_run.induct)
  case (run_step s tr s1 a v s2)
  then show ?case using perform_bounded[OF run_ok[OF run_step.hyps(1)] run_step.hyps(2,3), of m] by simp
qed simp

section \<open>A complete stream as a source\<close>

text \<open>
  The interface of a byte stream that the rest of the library is written against: \<open>read\<close> behaves
  like \<open>read_some\<close> on the source that the state stands for. \<open>read_full\<close> is \<open>read_exact\<close> of
  \<open>AsyncReadExt\<close> on an arbitrary reader.
\<close>

function read_full :: "('s \<Rightarrow> nat \<Rightarrow> io_error + (byte list \<times> 's)) \<Rightarrow> 's \<Rightarrow> nat \<Rightarrow> io_error + (byte list \<times> 's)" where
  "read_full rd s n =
     (if n = 0 then Inr ([], s)
      else (case rd s n of
              Inl e \<Rightarrow> Inl e
            | Inr ([], _) \<Rightarrow> Inl UnexpectedEof
            | Inr (b # bs, s') \<Rightarrow>
                rbind (read_full rd s' (n - length (b # bs)))
                  (\<lambda>(cs, s''). Inr (b # bs @ cs, s''))))"
  by pat_completeness auto
termination
  by (relation "measure (\<lambda>(rd, s, n). n)") auto

declare read_full.simps [simp del]

locale byte_reader =
  fixes rd :: "'s \<Rightarrow> nat \<Rightarrow> io_error + (byte list \<times> 's)"
    and view :: "'s \<Rightarrow> source"
    and ok :: "'s \<Rightarrow> bool"
  assumes rd_view: "ok s \<Longrightarrow> map_sum id (map_prod id view) (rd s n) = read_some (view s) n"
    and rd_ok: "ok s \<Longrightarrow> rd s n = Inr (bs, s') \<Longrightarrow> ok s'"
begin

lemma rd_Inl: "ok s \<Longrightarrow> rd s n = Inl e \<Longrightarrow> read_some (view s) n = Inl e"
  using rd_view[of s n] by simp

lemma rd_Inr: "ok s \<Longrightarrow> rd s n = Inr (bs, s') \<Longrightarrow> read_some (view s) n = Inr (bs, view s')"
  using rd_view[of s n] by simp

lemma read_full_view:
  "ok s \<Longrightarrow> map_sum id (map_prod id view) (read_full rd s n) = read_exact (view s) n"
proof (induction n arbitrary: s rule: less_induct)
  case (less n)
  show ?case
  proof (cases "n = 0")
    case False
    show ?thesis
    proof (cases "rd s n")
      case (Inl e)
      then show ?thesis using False rd_Inl[OF less.prems Inl]
        by (simp add: read_full.simps[of rd s n] read_exact.simps[of "view s" n])
    next
      case (Inr bs_s)
      obtain bs s' where r: "rd s n = Inr (bs, s')" using Inr by (cases bs_s) auto
      have v: "read_some (view s) n = Inr (bs, view s')" by (rule rd_Inr[OF less.prems r])
      show ?thesis
      proof (cases bs)
        case Nil
        then show ?thesis using False r v
          by (simp add: read_full.simps[of rd s n] read_exact.simps[of "view s" n])
      next
        case (Cons b cs)
        have ih: "read_exact (view s') (n - length bs)
            = map_sum id (map_prod id view) (read_full rd s' (n - length bs))"
          by (rule less.IH[symmetric]) (use False Cons rd_ok[OF less.prems r] in simp_all)
        have "read_exact (view s) n = rbind (read_exact (view s') (n - length bs))
            (\<lambda>(ds, r'). Inr (bs @ ds, r'))"
          using False v Cons by (simp add: read_exact.simps[of "view s" n])
        moreover have "read_full rd s n = rbind (read_full rd s' (n - length bs))
            (\<lambda>(ds, r'). Inr (bs @ ds, r'))"
          using False r Cons by (simp add: read_full.simps[of rd s n])
        ultimately show ?thesis unfolding ih
          by (cases "read_full rd s' (n - length bs)") auto
      qed
    qed
  qed (simp add: read_full.simps read_exact.simps)
qed

end

text \<open>
  A stream is complete when its end is known: MsQuic has signalled the end of the peer's
  direction, or an error was recorded.
\<close>

definition complete :: "stream_shared \<Rightarrow> bool" where
  "complete s \<longleftrightarrow> error_ok s \<and> (is_closed_read s \<or> stream_error s \<noteq> None)"

definition stream_view :: "stream_shared \<Rightarrow> source" where
  "stream_view s =
     (if stream_error s = None then \<lparr>pending = recv_buf s, grain = id, broken = False\<rparr>
      else \<lparr>pending = [], grain = id, broken = True\<rparr>)"

definition stream_read :: "stream_shared \<Rightarrow> nat \<Rightarrow> io_error + (byte list \<times> stream_shared)" where
  "stream_read s n =
     (case poll_read 0 n s of
        (Ready (Inr bs), s') \<Rightarrow> Inr (bs, s')
      | (Ready (Inl (k, _)), s') \<Rightarrow> Inl k
      | (Pending, s') \<Rightarrow> Inl OtherIo)"

interpretation quic_reader: byte_reader stream_read stream_view complete
proof (unfold_locales, goal_cases)
  case (1 s n)
  have "1 \<le> length (recv_buf s) \<Longrightarrow> max 1 (length (recv_buf s)) = length (recv_buf s)" by simp
  then show ?case using 1
    by (auto simp: complete_def stream_read_def poll_read_def stream_view_def read_some_def error_ok_def
        Let_def Suc_le_eq split: option.splits)
next
  case (2 s n bs s')
  then show ?case
    by (auto simp: complete_def stream_read_def poll_read_def error_ok_def Let_def
        split: option.splits if_splits)
qed

section \<open>Properties\<close>

text \<open>
  C8: A QUIC stream loses, repeats and reorders nothing in either direction. Whatever the
  interleaving of callbacks and polls, the bytes the reader got followed by those still buffered
  are the bytes MsQuic delivered, and the bytes the writer was told are accepted are those handed
  to MsQuic, in order.
\<close>

theorem stream_in_order:
  "stream_run api (new_stream h) tr s \<Longrightarrow>
     delivered tr @ recv_buf s = received tr \<and> accepted tr = concat (handed s)"
  using run_reads[of api "new_stream h" tr s] run_writes[of api "new_stream h" tr s]
  by (simp add: new_stream_def)

definition demo_api :: stream_api where
  "demo_api = \<lparr>api_loads = None, StreamSend = Some (\<lambda>h d. 0), StreamShutdown = True\<rparr>"

definition demo_acts :: "stream_act list" where
  "demo_acts = [Read 7 2, Event (RECEIVE [Some [1, 2], None, Some [3]]), Read 7 2, Write 8 [4, 5],
     Event (SEND_COMPLETE (Some 1)), Shutdown 8, Event PEER_SEND_SHUTDOWN]"

fun perform_all :: "stream_api \<Rightarrow> stream_act list \<Rightarrow> stream_shared \<Rightarrow> ((stream_act \<times> seen) list \<times> stream_shared) option" where
  "perform_all api [] s = Some ([], s)"
| "perform_all api (a # as) s =
     (if permitted s a then
        (let (v, s') = perform api a s in
         map_option (\<lambda>(tr, s''). ((a, v) # tr, s'')) (perform_all api as s'))
      else None)"

lemma stream_run_trans: "stream_run api s1 tr2 s2 \<Longrightarrow> stream_run api s tr1 s1 \<Longrightarrow> stream_run api s (tr1 @ tr2) s2"
proof (induction rule: stream_run.induct)
  case (run_step s tr s1 a v s2)
  then show ?case by (metis append_assoc stream_run.run_step)
qed simp

lemma perform_all_run: "perform_all api as s = Some (tr, s') \<Longrightarrow> stream_run api s tr s'"
proof (induction as arbitrary: s tr)
  case (Cons a as)
  obtain v s1 tr1 where p: "perform api a s = (v, s1)" "permitted s a" "tr = (a, v) # tr1"
    "perform_all api as s1 = Some (tr1, s')"
    using Cons.prems by (auto split: if_splits prod.splits)
  have "stream_run api s ([] @ [(a, v)]) s1" using p by (intro run_step[OF run_nil])
  then show ?case using stream_run_trans[OF Cons.IH[OF p(4)], of s "[(a, v)]"] p(3) by simp
qed (simp add: run_nil)

text \<open>The run of the demonstration, and the state it ends in.\<close>

definition demo_stream :: stream_shared where
  "demo_stream = (new_stream 9)\<lparr>recv_buf := [3], recv_waker := None, is_closed_read := True,
     is_closed_write := True, next_box := 2, handed := [[4, 5]], finished := True, woken := [7]\<rparr>"

definition demo_trace :: "(stream_act \<times> seen) list" where
  "demo_trace = zip demo_acts [GotBytes Pending, Nothing, GotBytes (Ready (Inr [1, 2])),
     Accepted [4, 5] (Ready (Inr 2)), Nothing, Done (Ready (Inr ())), Nothing]"

lemma demo_run: "stream_run demo_api (new_stream 9) demo_trace demo_stream"
proof -
  have "buffer_len [4, 5] = 2" by simp
  then have "perform_all demo_api demo_acts (new_stream 9) = Some (demo_trace, demo_stream)"
    by (simp add: demo_acts_def demo_trace_def demo_stream_def demo_api_def new_stream_def
        poll_read_def poll_write_def poll_shutdown_def buffer_bytes_def wake_recv_def wake_send_def
        is_quic_success_or_pending_def free_box_def box_size_def MAX_IN_FLIGHT_BYTES_def Let_def)
  then show ?thesis by (rule perform_all_run)
qed

theorem stream_in_order_witness:
  "delivered demo_trace @ recv_buf demo_stream = received demo_trace
     \<and> accepted demo_trace = concat (handed demo_stream) \<and> received demo_trace = [1, 2, 3]"
proof -
  have "received demo_trace = [1, 2, 3]"
    by (simp add: received_def demo_trace_def demo_acts_def buffer_bytes_def)
  then show ?thesis using stream_in_order[OF demo_run] by blast
qed

text \<open>
  C32: Memory in flight is bounded and accounted for. If no single write is longer than \<open>m\<close>
  bytes, the bytes handed to MsQuic and not yet completed stay below 16 MiB plus \<open>m\<close>; they are
  exactly the lengths of the heap blocks not yet freed, so every completion frees its block once
  and the counter never saturates; and when the graceful shutdown has been requested, no block
  is left and nothing more will be sent.
\<close>

theorem in_flight_bounded:
  assumes "stream_run api (new_stream h) tr s" "list_all (\<lambda>(a, v). write_size a \<le> m) tr"
  shows "in_flight_bytes s < MAX_IN_FLIGHT_BYTES + m
    \<and> in_flight_bytes s = sum_list (map (length \<circ> snd) (boxes s)) \<and> distinct (map fst (boxes s))
    \<and> (finished s \<longrightarrow> boxes s = [] \<and> is_closed_write s)"
proof -
  have "in_flight_bytes (new_stream h) < MAX_IN_FLIGHT_BYTES + m"
    using max_in_flight_pos by (simp add: new_stream_def)
  then show ?thesis
    using run_bounded[OF assms(1) new_stream_ok assms(2)] run_ok[OF assms(1) new_stream_ok]
    by (auto simp: stream_ok_def boxes_ok_def box_sum_def shutdown_ok_def)
qed

theorem in_flight_bounded_witness:
  "in_flight_bytes demo_stream < MAX_IN_FLIGHT_BYTES + 2 \<and> finished demo_stream \<and> boxes demo_stream = []"
proof -
  have "list_all (\<lambda>(a, v). write_size a \<le> 2) demo_trace" "finished demo_stream"
    by (simp_all add: demo_trace_def demo_acts_def demo_stream_def)
  then show ?thesis using in_flight_bounded[OF demo_run, of 2] by blast
qed





end
