(* ===== verification/Msquic_Engine.thy ===== *)
theory Msquic_Engine
  imports Cert Stun Msquic_Stream Result_State
begin

text \<open>
  The MsQuic engine (\<open>msquic/engine.rs\<close>): registrations, configurations, connections, listeners
  and their callbacks. Every call of the native library goes through \<open>invoke\<close>, which records it
  and takes the returned status from the environment; \<open>live\<close> are the handles opened and not yet
  closed. A connection's callback runs on its context, and \<open>conn_run\<close> is the step relation of the
  events with what the MsQuic documentation promises about their order.
\<close>

section \<open>The native library\<close>

record quic_settings =
  StreamRecvWindowDefault :: nat
  ConnFlowControlWindow :: nat
  SendBufferingEnabled :: bool
  CongestionControlAlgorithm :: nat
  MaximumMtu :: nat
  MaxWorkerQueueDelayUs :: nat
  PeerBidiStreamCount :: nat
  IdleTimeoutMs :: nat

datatype credential = Pkcs12 "byte list" string | CertificateFile string string | NoCredential

datatype api_call =
    RegistrationOpen string
  | RegistrationShutdown nat
  | RegistrationClose nat
  | ConfigurationOpen nat string quic_settings
  | ConfigurationLoadCredential nat credential u32
  | ConfigurationClose nat
  | ConnectionOpen nat
  | SetLocalAddress nat socket_addr
  | ConnectionStart nat nat string u16
  | ConnectionSetConfiguration nat nat
  | ConnectionShutdown nat
  | ConnectionClose nat
  | StreamOpen nat
  | StreamStart nat
  | SetCallbackHandler nat
  | ListenerOpen nat
  | ListenerStart nat string u16
  | GetListenerAddress nat
  | ListenerStop nat
  | ListenerClose nat

fun entry :: "api_call \<Rightarrow> string" where
  "entry (RegistrationOpen _) = ''RegistrationOpen''"
| "entry (RegistrationShutdown _) = ''RegistrationShutdown''"
| "entry (RegistrationClose _) = ''RegistrationClose''"
| "entry (ConfigurationOpen _ _ _) = ''ConfigurationOpen''"
| "entry (ConfigurationLoadCredential _ _ _) = ''ConfigurationLoadCredential''"
| "entry (ConfigurationClose _) = ''ConfigurationClose''"
| "entry (ConnectionOpen _) = ''ConnectionOpen''"
| "entry (SetLocalAddress _ _) = ''SetParam''"
| "entry (ConnectionStart _ _ _ _) = ''ConnectionStart''"
| "entry (ConnectionSetConfiguration _ _) = ''ConnectionSetConfiguration''"
| "entry (ConnectionShutdown _) = ''ConnectionShutdown''"
| "entry (ConnectionClose _) = ''ConnectionClose''"
| "entry (StreamOpen _) = ''StreamOpen''"
| "entry (StreamStart _) = ''StreamStart''"
| "entry (SetCallbackHandler _) = ''SetCallbackHandler''"
| "entry (ListenerOpen _) = ''ListenerOpen''"
| "entry (ListenerStart _ _ _) = ''ListenerStart''"
| "entry (GetListenerAddress _) = ''GetParam''"
| "entry (ListenerStop _) = ''ListenerStop''"
| "entry (ListenerClose _) = ''ListenerClose''"

text \<open>
  The library as the engine sees it: why it does not load, which entries its table has, the
  status of every call, the text of an address and the address a listener got.
\<close>

record quic_env =
  api_error :: "string option"
  provides :: "string \<Rightarrow> bool"
  status_of :: "api_call \<Rightarrow> u32"
  ip_text :: "ip_addr \<Rightarrow> string"
  listener_addr :: "nat \<Rightarrow> socket_addr option"

record native =
  next_handle :: nat
  live :: "nat list"
  calls :: "api_call list"

datatype engine_error = Failed string | Panicked

type_synonym 'a quic_op = "(native, engine_error, 'a) op"

definition get_api :: "quic_env \<Rightarrow> unit quic_op" where
  "get_api E = slift (case api_error E of None \<Rightarrow> Inr () | Some e \<Rightarrow> Inl (Failed e))"

text \<open>A call, and a call whose entry is unwrapped.\<close>

definition invoke :: "quic_env \<Rightarrow> api_call \<Rightarrow> u32 quic_op" where
  "invoke E c n = (Inr (status_of E c), n\<lparr>calls := calls n @ [c]\<rparr>)"

definition invoke_unwrapped :: "quic_env \<Rightarrow> api_call \<Rightarrow> u32 quic_op" where
  "invoke_unwrapped E c = sbind (sguard (provides E (entry c)) Panicked) (\<lambda>_. invoke E c)"

definition allocate :: "nat quic_op" where
  "allocate n = (Inr (next_handle n),
     n\<lparr>next_handle := next_handle n + 1, live := live n @ [next_handle n]\<rparr>)"

text \<open>A closing call whose entry is present closes the handle; without the entry nothing happens.\<close>

definition close_handle :: "quic_env \<Rightarrow> api_call \<Rightarrow> nat \<Rightarrow> native \<Rightarrow> native" where
  "close_handle E c h n =
     (if provides E (entry c) then n\<lparr>calls := calls n @ [c], live := filter (\<lambda>g. g \<noteq> h) (live n)\<rparr> else n)"

definition status_error :: "string \<Rightarrow> u32 \<Rightarrow> engine_error" where
  "status_error what st = Failed (what @ '' failed with status 0x'' @ show_hex_width 8 st)"

definition ALPN :: string where "ALPN = ''fileShare''"

definition QUIC_STATUS_SUCCESS :: u32 where "QUIC_STATUS_SUCCESS = 0"
definition QUIC_STATUS_BAD_CERTIFICATE :: u32 where "QUIC_STATUS_BAD_CERTIFICATE = 200000298"

section \<open>Registration and configuration\<close>

definition new_engine :: "quic_env \<Rightarrow> nat quic_op" where
  "new_engine E =
     sbind (get_api E) (\<lambda>_.
     sbind (invoke_unwrapped E (RegistrationOpen ''quiczilla'')) (\<lambda>status.
     if status \<noteq> 0 then sfail (status_error ''RegistrationOpen'' status) else allocate))"

definition engine_settings :: quic_settings where
  "engine_settings = \<lparr>StreamRecvWindowDefault = 32 * 1024 * 1024, ConnFlowControlWindow = 64 * 1024 * 1024,
     SendBufferingEnabled = True, CongestionControlAlgorithm = 1, MaximumMtu = 1500,
     MaxWorkerQueueDelayUs = 1000, PeerBidiStreamCount = 100, IdleTimeoutMs = 30000\<rparr>"

definition FLAG_CLIENT :: u32 where "FLAG_CLIENT = 1"
definition FLAG_NO_CERTIFICATE_VALIDATION :: u32 where "FLAG_NO_CERTIFICATE_VALIDATION = 4"
definition FLAG_INDICATE_CERTIFICATE_RECEIVED :: u32 where "FLAG_INDICATE_CERTIFICATE_RECEIVED = 16"
definition FLAG_REQUIRE_CLIENT_AUTHENTICATION :: u32 where "FLAG_REQUIRE_CLIENT_AUTHENTICATION = 64"
definition FLAG_USE_PORTABLE_CERTIFICATES :: u32 where "FLAG_USE_PORTABLE_CERTIFICATES = 16384"

definition credential_flags :: "bool \<Rightarrow> u32" where
  "credential_flags is_server =
     (if is_server then FLAG_INDICATE_CERTIFICATE_RECEIVED OR FLAG_REQUIRE_CLIENT_AUTHENTICATION
      else FLAG_CLIENT OR FLAG_INDICATE_CERTIFICATE_RECEIVED)
     OR (FLAG_NO_CERTIFICATE_VALIDATION OR FLAG_USE_PORTABLE_CERTIFICATES)"

definition credential_of :: "byte list option \<Rightarrow> string option \<Rightarrow> string option \<Rightarrow> string option \<Rightarrow> credential" where
  "credential_of pkcs12_der pkcs12_pwd cert_file key_file =
     (case (pkcs12_der, pkcs12_pwd) of
        (Some der, Some password) \<Rightarrow> Pkcs12 der password
      | _ \<Rightarrow> (case (cert_file, key_file) of
                (Some certificate, Some key) \<Rightarrow> CertificateFile certificate key
              | _ \<Rightarrow> NoCredential))"

text \<open>\<open>CString::new(..).unwrap()\<close>: a NUL in the text is a panic.\<close>

definition c_string_ok :: "string option \<Rightarrow> bool" where
  "c_string_ok s = (case s of None \<Rightarrow> True | Some t \<Rightarrow> CHR 0x00 \<notin> set t)"

definition create_configuration_inner ::
    "quic_env \<Rightarrow> nat \<Rightarrow> bool \<Rightarrow> byte list option \<Rightarrow> string option \<Rightarrow> string option \<Rightarrow> string option \<Rightarrow> nat quic_op" where
  "create_configuration_inner E registration is_server pkcs12_der pkcs12_pwd cert_file key_file =
     sbind (get_api E) (\<lambda>_.
     sbind (invoke_unwrapped E (ConfigurationOpen registration ALPN engine_settings)) (\<lambda>status.
     if status \<noteq> 0 then sfail (status_error ''ConfigurationOpen'' status) else
     sbind allocate (\<lambda>configuration.
     sbind (sguard (c_string_ok pkcs12_pwd \<and> c_string_ok cert_file \<and> c_string_ok key_file) Panicked) (\<lambda>_.
     sbind (invoke_unwrapped E (ConfigurationLoadCredential configuration
              (credential_of pkcs12_der pkcs12_pwd cert_file key_file) (credential_flags is_server))) (\<lambda>status.
     if status \<noteq> 0 then
       sbind (smodify (close_handle E (ConfigurationClose configuration) configuration)) (\<lambda>_.
       sfail (status_error ''ConfigurationLoadCredential'' status))
     else sret configuration)))))"

text \<open>The \<open>Drop\<close> implementations; a null handle (zero) is left alone.\<close>

definition with_api :: "quic_env \<Rightarrow> (native \<Rightarrow> native) \<Rightarrow> native \<Rightarrow> native" where
  "with_api E f n = (if api_error E = None then f n else n)"

definition call_if :: "quic_env \<Rightarrow> api_call \<Rightarrow> native \<Rightarrow> native" where
  "call_if E c n = (if provides E (entry c) then n\<lparr>calls := calls n @ [c]\<rparr> else n)"

definition drop_configuration :: "quic_env \<Rightarrow> nat \<Rightarrow> native \<Rightarrow> native" where
  "drop_configuration E h n =
     (if h = 0 then n else with_api E (close_handle E (ConfigurationClose h) h) n)"

definition drop_engine :: "quic_env \<Rightarrow> nat \<Rightarrow> native \<Rightarrow> native" where
  "drop_engine E h n =
     (if h = 0 then n
      else with_api E (\<lambda>n. close_handle E (RegistrationClose h) h (call_if E (RegistrationShutdown h) n)) n)"

section \<open>Connections\<close>

text \<open>
  The context of a connection's callback: the oneshot sender and the value it was sent, the
  pinned thumbprints, the reason of the shutdown and the channel of streams the peer opened.
\<close>

record connection_context =
  connect_tx :: bool
  connect_value :: "(engine_error + unit) option"
  allowed_peer_thumbprints :: "string list"
  shutdown_reason :: "string option"
  stream_queue :: "stream_shared list"

datatype connection_event =
    CONNECTED
  | PEER_CERTIFICATE_RECEIVED "byte list option"
  | SHUTDOWN_INITIATED_BY_TRANSPORT u32 u64
  | SHUTDOWN_INITIATED_BY_PEER u64
  | PEER_STREAM_STARTED nat
  | OtherConnectionEvent

definition settle :: "engine_error + unit \<Rightarrow> connection_context \<Rightarrow> connection_context" where
  "settle v ctx = (if connect_tx ctx then ctx\<lparr>connect_tx := False, connect_value := Some v\<rparr> else ctx)"

definition is_tls :: "u64 \<Rightarrow> bool" where
  "is_tls err_code \<longleftrightarrow> 0x0100 \<le> err_code \<and> err_code \<le> 0x01ff"

definition transport_error :: "u32 \<Rightarrow> u64 \<Rightarrow> string" where
  "transport_error status err_code =
     (if is_tls err_code \<or> status = QUIC_STATUS_BAD_CERTIFICATE then
        ''TLS handshake / certificate verification failure (Status 0x'' @ show_hex_width 8 status
        @ '', ErrorCode 0x'' @ show_hex err_code @ '')''
      else ''Connection failed with transport error 0x'' @ show_hex_width 8 status)"

definition peer_error :: "u64 \<Rightarrow> string" where
  "peer_error err_code =
     (if is_tls err_code then
        ''Peer rejected connection due to TLS certificate verification failure (ErrorCode 0x'' @ show_hex err_code @ '')''
      else ''Peer shutdown (ErrorCode 0x'' @ show_hex err_code @ '')'')"

text \<open>The callback returns its status and the calls it made; \<open>thumb\<close> is \<open>compute_thumbprint\<close>.\<close>

fun connection_callback :: "quic_env \<Rightarrow> (byte list \<Rightarrow> string) \<Rightarrow> connection_event \<Rightarrow> connection_context
    \<Rightarrow> u32 \<times> api_call list \<times> connection_context" where
  "connection_callback E thumb CONNECTED ctx = (QUIC_STATUS_SUCCESS, [], settle (Inr ()) ctx)"
| "connection_callback E thumb (PEER_CERTIFICATE_RECEIVED cert) ctx =
     (if allowed_peer_thumbprints ctx \<noteq> [] then
        (case cert of
           Some der \<Rightarrow>
             (let actual_thumbprint = thumb der in
              if list_ex (\<lambda>expected. eq_ignore_ascii_case actual_thumbprint expected) (allowed_peer_thumbprints ctx)
              then (QUIC_STATUS_SUCCESS, [], ctx) else (QUIC_STATUS_BAD_CERTIFICATE, [], ctx))
         | None \<Rightarrow> (QUIC_STATUS_BAD_CERTIFICATE, [], ctx))
      else (QUIC_STATUS_SUCCESS, [], ctx))"
| "connection_callback E thumb (SHUTDOWN_INITIATED_BY_TRANSPORT status err_code) ctx =
     (let err_msg = transport_error status err_code in
      (QUIC_STATUS_SUCCESS, [], settle (Inl (Failed err_msg)) (ctx\<lparr>shutdown_reason := Some err_msg\<rparr>)))"
| "connection_callback E thumb (SHUTDOWN_INITIATED_BY_PEER err_code) ctx =
     (let err_msg = peer_error err_code in
      (QUIC_STATUS_SUCCESS, [], settle (Inl (Failed err_msg)) (ctx\<lparr>shutdown_reason := Some err_msg\<rparr>)))"
| "connection_callback E thumb (PEER_STREAM_STARTED h) ctx =
     (case api_error E of
        Some _ \<Rightarrow> (QUIC_STATUS_SUCCESS, [], ctx)
      | None \<Rightarrow>
          (QUIC_STATUS_SUCCESS,
           if provides E (entry (SetCallbackHandler h)) then [SetCallbackHandler h] else [],
           ctx\<lparr>stream_queue := stream_queue ctx @ [new_stream h]\<rparr>))"
| "connection_callback E thumb OtherConnectionEvent ctx = (QUIC_STATUS_SUCCESS, [], ctx)"

definition client_context :: "string option \<Rightarrow> connection_context" where
  "client_context expected_thumbprint = \<lparr>connect_tx = True, connect_value = None,
     allowed_peer_thumbprints = (case expected_thumbprint of None \<Rightarrow> [] | Some t \<Rightarrow> [t]),
     shutdown_reason = None, stream_queue = []\<rparr>"

definition server_context :: "string list \<Rightarrow> connection_context" where
  "server_context allowed = \<lparr>connect_tx = False, connect_value = None,
     allowed_peer_thumbprints = allowed, shutdown_reason = None, stream_queue = []\<rparr>"

text \<open>
  \<open>connect\<close> up to the point where it waits for the oneshot; \<open>PendingConnection\<close> closes the handle
  on every early return. Then \<open>finish_connect\<close>, when the value has come, or \<open>drop_pending\<close>, when
  the future is dropped while it waits.
\<close>

definition drop_pending :: "quic_env \<Rightarrow> nat \<Rightarrow> native \<Rightarrow> native" where
  "drop_pending E h n = (if h = 0 then n else with_api E (close_handle E (ConnectionClose h) h) n)"

definition abandon :: "quic_env \<Rightarrow> nat \<Rightarrow> engine_error \<Rightarrow> 'a quic_op" where
  "abandon E h e = sbind (smodify (drop_pending E h)) (\<lambda>_. sfail e)"

definition start_connect :: "quic_env \<Rightarrow> nat \<Rightarrow> nat \<Rightarrow> socket_addr \<Rightarrow> socket_addr option \<Rightarrow> nat quic_op" where
  "start_connect E registration config remote_addr local_bind_addr =
     sbind (get_api E) (\<lambda>_.
     sbind (invoke_unwrapped E (ConnectionOpen registration)) (\<lambda>status.
     if status \<noteq> 0 then sfail (status_error ''ConnectionOpen'' status) else
     sbind allocate (\<lambda>h.
     sbind (case local_bind_addr of
              None \<Rightarrow> sret ()
            | Some a \<Rightarrow>
                if \<not> provides E (entry (SetLocalAddress h a))
                then abandon E h (Failed ''MsQuic SetParam is unavailable'')
                else sbind (invoke E (SetLocalAddress h a)) (\<lambda>status.
                       if status \<noteq> 0
                       then abandon E h (Failed (''Failed to bind local QUIC address '' @ ip_text E (ip a)
                              @ '':'' @ show_word (port a) @ '': 0x'' @ show_hex_width 8 status))
                       else sret ())) (\<lambda>_.
     let host = ip_text E (ip remote_addr) in
     if \<not> c_string_ok (Some host) then abandon E h (Failed ''nul byte found in provided data'') else
     if \<not> provides E ''ConnectionStart'' then abandon E h Panicked else
     sbind (invoke E (ConnectionStart h config host (port remote_addr))) (\<lambda>status.
     if \<not> is_quic_success_or_pending status
     then abandon E h (status_error ''ConnectionStart'' status) else sret h)))))"

record quic_connection =
  handle :: nat
  ctx_box :: connection_context

definition finish_connect :: "quic_env \<Rightarrow> nat \<Rightarrow> connection_context \<Rightarrow> quic_connection option quic_op" where
  "finish_connect E h ctx =
     (case connect_value ctx of
        None \<Rightarrow> sret None
      | Some (Inl e) \<Rightarrow> abandon E h e
      | Some (Inr _) \<Rightarrow> sret (Some \<lparr>handle = h, ctx_box = ctx\<rparr>))"

definition open_stream :: "quic_env \<Rightarrow> quic_connection \<Rightarrow> stream_shared quic_op" where
  "open_stream E conn =
     sbind (get_api E) (\<lambda>_.
     sbind (invoke_unwrapped E (StreamOpen (handle conn))) (\<lambda>status.
     if status \<noteq> 0 then sfail (status_error ''StreamOpen'' status) else
     sbind allocate (\<lambda>stream_handle.
     sbind (invoke_unwrapped E (StreamStart stream_handle)) (\<lambda>status.
     if \<not> is_quic_success_or_pending status then sfail (status_error ''StreamStart'' status)
     else sret (new_stream stream_handle)))))"

text \<open>\<open>accept_stream\<close>: the next stream of the channel, when there is one.\<close>

definition accept_stream :: "quic_connection \<Rightarrow> (stream_shared \<times> quic_connection) option" where
  "accept_stream conn =
     (case stream_queue (ctx_box conn) of
        [] \<Rightarrow> None
      | s # rest \<Rightarrow> Some (s, conn\<lparr>ctx_box := (ctx_box conn)\<lparr>stream_queue := rest\<rparr>\<rparr>))"

definition shutdown_connection :: "quic_env \<Rightarrow> quic_connection \<Rightarrow> native \<Rightarrow> native" where
  "shutdown_connection E conn n =
     (if handle conn = 0 then n else with_api E (call_if E (ConnectionShutdown (handle conn))) n)"

definition drop_connection :: "quic_env \<Rightarrow> quic_connection \<Rightarrow> native \<Rightarrow> native" where
  "drop_connection E conn n =
     (if handle conn = 0 then n
      else with_api E (close_handle E (ConnectionClose (handle conn)) (handle conn)) n)"

section \<open>Listeners\<close>

record listener_context =
  conn_queue :: "quic_connection list"
  receiver_alive :: bool
  server_config :: nat
  listener_thumbprints :: "string list"

text \<open>
  \<open>NEW_CONNECTION\<close> with the handle of the connection. The connection joins the channel; without
  a receiver it is dropped, which closes it.
\<close>

definition listener_callback :: "quic_env \<Rightarrow> nat \<Rightarrow> listener_context \<Rightarrow> native \<Rightarrow> u32 \<times> listener_context \<times> native" where
  "listener_callback E conn_handle ctx n =
     (if api_error E \<noteq> None then (QUIC_STATUS_SUCCESS, ctx, n)
      else
        (let n1 = call_if E (SetCallbackHandler conn_handle) n;
             c = ConnectionSetConfiguration conn_handle (server_config ctx);
             n2 = call_if E c n1;
             conn = \<lparr>handle = conn_handle, ctx_box = server_context (listener_thumbprints ctx)\<rparr> in
         if provides E (entry c) \<and> \<not> is_quic_success_or_pending (status_of E c) then (status_of E c, ctx, n2)
         else if receiver_alive ctx
         then (QUIC_STATUS_SUCCESS, ctx\<lparr>conn_queue := conn_queue ctx @ [conn]\<rparr>, n2)
         else (QUIC_STATUS_SUCCESS, ctx, drop_connection E conn n2)))"

definition start_listener :: "quic_env \<Rightarrow> nat \<Rightarrow> nat \<Rightarrow> u16 \<Rightarrow> string list \<Rightarrow> (nat \<times> listener_context) quic_op" where
  "start_listener E registration config at_port allowed =
     sbind (get_api E) (\<lambda>_.
     sbind (invoke_unwrapped E (ListenerOpen registration)) (\<lambda>status.
     if status \<noteq> 0 then sfail (status_error ''ListenerOpen'' status) else
     sbind allocate (\<lambda>listener.
     sbind (invoke_unwrapped E (ListenerStart listener ALPN at_port)) (\<lambda>status.
     if status \<noteq> 0 then sfail (status_error ''ListenerStart'' status)
     else sret (listener, \<lparr>conn_queue = [], receiver_alive = True, server_config = config,
            listener_thumbprints = allowed\<rparr>)))))"

definition listener_local_addr :: "quic_env \<Rightarrow> nat \<Rightarrow> socket_addr quic_op" where
  "listener_local_addr E h =
     sbind (get_api E) (\<lambda>_.
     sbind (invoke_unwrapped E (GetListenerAddress h)) (\<lambda>status.
     if status \<noteq> 0
     then sfail (Failed (''GetParam(QUIC_PARAM_LISTENER_LOCAL_ADDRESS) failed: 0x'' @ show_hex_width 8 status))
     else slift (ok_or (Failed ''Invalid socket addr from MsQuic'') (listener_addr E h))))"

definition drop_listener :: "quic_env \<Rightarrow> nat \<Rightarrow> native \<Rightarrow> native" where
  "drop_listener E h n =
     (if h = 0 then n
      else with_api E (\<lambda>n. close_handle E (ListenerClose h) h (call_if E (ListenerStop h) n)) n)"

section \<open>Runs of a connection\<close>

text \<open>
  The handshake as MsQuic sees it: the certificate that the callback accepted, whether it refused
  one, and whether the connection is established.
\<close>

record handshake =
  verified :: bool
  peer_cert :: "byte list option"
  refused :: bool
  established :: bool

text \<open>
  The documented order: one certificate is indicated, \<open>CONNECTED\<close> follows only if the callback
  accepted it, and streams of the peer follow \<open>CONNECTED\<close>.
\<close>

fun event_permitted :: "handshake \<Rightarrow> connection_event \<Rightarrow> bool" where
  "event_permitted hs CONNECTED = (verified hs \<and> \<not> established hs)"
| "event_permitted hs (PEER_CERTIFICATE_RECEIVED _) = (\<not> verified hs \<and> \<not> refused hs)"
| "event_permitted hs (PEER_STREAM_STARTED _) = established hs"
| "event_permitted hs _ = True"

fun advance :: "connection_event \<Rightarrow> u32 \<Rightarrow> handshake \<Rightarrow> handshake" where
  "advance CONNECTED st hs = hs\<lparr>established := True\<rparr>"
| "advance (PEER_CERTIFICATE_RECEIVED cert) st hs =
     (if st = QUIC_STATUS_SUCCESS then hs\<lparr>verified := True, peer_cert := cert\<rparr> else hs\<lparr>refused := True\<rparr>)"
| "advance _ st hs = hs"

definition new_handshake :: handshake where
  "new_handshake = \<lparr>verified = False, peer_cert = None, refused = False, established = False\<rparr>"

inductive conn_run :: "quic_env \<Rightarrow> (byte list \<Rightarrow> string) \<Rightarrow> connection_context
    \<Rightarrow> connection_event list \<Rightarrow> handshake \<Rightarrow> connection_context \<Rightarrow> bool"
  for E thumb start where
  conn_start: "conn_run E thumb start [] new_handshake start"
| conn_event: "conn_run E thumb start evs hs ctx \<Longrightarrow> event_permitted hs ev \<Longrightarrow>
     connection_callback E thumb ev ctx = (st, cs, ctx') \<Longrightarrow>
     conn_run E thumb start (evs @ [ev]) (advance ev st hs) ctx'"

interpretation connection_pin: pin_check
  "\<lambda>ctx c. allowed_peer_thumbprints ctx \<noteq> []
     \<and> fst (connection_callback E thumb (PEER_CERTIFICATE_RECEIVED (Some c)) ctx) = QUIC_STATUS_SUCCESS"
  allowed_peer_thumbprints thumb for E thumb
  by unfold_locales
    (auto simp: Let_def list_ex_iff QUIC_STATUS_SUCCESS_def QUIC_STATUS_BAD_CERTIFICATE_def)

lemma settle_fields [simp]:
  "allowed_peer_thumbprints (settle v ctx) = allowed_peer_thumbprints ctx"
  "stream_queue (settle v ctx) = stream_queue ctx" "shutdown_reason (settle v ctx) = shutdown_reason ctx"
  "\<not> connect_tx (settle v ctx)"
  by (simp_all add: settle_def)

text \<open>Nothing is settled as connected and no stream is queued before an accepted certificate.\<close>

definition authenticated :: "(byte list \<Rightarrow> string) \<Rightarrow> string list \<Rightarrow> connection_event list \<Rightarrow> handshake
    \<Rightarrow> connection_context \<Rightarrow> bool" where
  "authenticated thumb pins evs hs ctx \<longleftrightarrow>
     allowed_peer_thumbprints ctx = pins
     \<and> (verified hs \<longrightarrow> (\<exists>c. peer_cert hs = Some c \<and> PEER_CERTIFICATE_RECEIVED (Some c) \<in> set evs
          \<and> list_ex (eq_ignore_ascii_case (thumb c)) pins))
     \<and> (established hs \<longrightarrow> verified hs)
     \<and> (connect_value ctx = Some (Inr ()) \<longrightarrow> established hs)
     \<and> (stream_queue ctx \<noteq> [] \<longrightarrow> established hs)"

lemma conn_run_authenticated:
  assumes "conn_run E thumb start evs hs ctx" "pins \<noteq> []"
    and "allowed_peer_thumbprints start = pins" "connect_value start = None" "stream_queue start = []"
  shows "authenticated thumb pins evs hs ctx"
  using assms
proof (induction rule: conn_run.induct)
  case conn_start
  then show ?case by (simp add: authenticated_def new_handshake_def)
next
  case (conn_event evs hs ctx ev st cs ctx')
  then have a: "authenticated thumb pins evs hs ctx" and ne: "allowed_peer_thumbprints ctx \<noteq> []"
    by (simp_all add: authenticated_def)
  show ?case
  proof (cases ev)
    case (PEER_CERTIFICATE_RECEIVED cert)
    show ?thesis
    proof (cases "\<exists>c. cert = Some c \<and> list_ex (eq_ignore_ascii_case (thumb c)) pins")
      case True
      then show ?thesis using a conn_event PEER_CERTIFICATE_RECEIVED ne
        by (auto simp: authenticated_def Let_def)
    next
      case False
      then have "st \<noteq> QUIC_STATUS_SUCCESS" "ctx' = ctx"
        using a conn_event PEER_CERTIFICATE_RECEIVED ne
        by (auto simp: authenticated_def Let_def QUIC_STATUS_SUCCESS_def QUIC_STATUS_BAD_CERTIFICATE_def
            split: option.splits if_splits)
      then show ?thesis using a PEER_CERTIFICATE_RECEIVED by (auto simp: authenticated_def)
    qed
  next
    case (PEER_STREAM_STARTED h)
    then show ?thesis using a conn_event.hyps by (auto simp: authenticated_def split: option.splits)
  qed (use a conn_event.hyps in \<open>auto simp: authenticated_def settle_def Let_def split: if_splits\<close>)
qed

section \<open>The result of a connection attempt\<close>

fun deliver :: "quic_env \<Rightarrow> (byte list \<Rightarrow> string) \<Rightarrow> connection_event list \<Rightarrow> connection_context \<Rightarrow> connection_context" where
  "deliver E thumb [] ctx = ctx"
| "deliver E thumb (ev # evs) ctx = deliver E thumb evs (snd (snd (connection_callback E thumb ev ctx)))"

text \<open>The specification: the first event that decides gives the result, the last shutdown the reason.\<close>

fun decision :: "connection_event \<Rightarrow> (engine_error + unit) option" where
  "decision CONNECTED = Some (Inr ())"
| "decision (SHUTDOWN_INITIATED_BY_TRANSPORT st c) = Some (Inl (Failed (transport_error st c)))"
| "decision (SHUTDOWN_INITIATED_BY_PEER c) = Some (Inl (Failed (peer_error c)))"
| "decision _ = None"

fun reason :: "connection_event \<Rightarrow> string option" where
  "reason (SHUTDOWN_INITIATED_BY_TRANSPORT st c) = Some (transport_error st c)"
| "reason (SHUTDOWN_INITIATED_BY_PEER c) = Some (peer_error c)"
| "reason _ = None"

definition first_decision :: "connection_event list \<Rightarrow> (engine_error + unit) option" where
  "first_decision evs = (case List.map_filter decision evs of [] \<Rightarrow> None | v # _ \<Rightarrow> Some v)"

lemma first_decision_Cons [simp]:
  "first_decision [] = None"
  "first_decision (ev # evs) = (case decision ev of None \<Rightarrow> first_decision evs | Some v \<Rightarrow> Some v)"
  by (simp_all add: first_decision_def map_filter_simps split: option.splits)

lemma callback_settles:
  "connect_tx ctx \<Longrightarrow> connect_value ctx = None \<Longrightarrow>
     (let ctx' = snd (snd (connection_callback E thumb ev ctx)) in
      connect_value ctx' = decision ev \<and> connect_tx ctx' = (decision ev = None))"
  by (cases ev) (auto simp: settle_def Let_def split: option.splits)

lemma callback_settled:
  "\<not> connect_tx ctx \<Longrightarrow>
     (let ctx' = snd (snd (connection_callback E thumb ev ctx)) in
      connect_value ctx' = connect_value ctx \<and> \<not> connect_tx ctx')"
  by (cases ev) (auto simp: settle_def Let_def split: option.splits)

lemma deliver_settled: "\<not> connect_tx ctx \<Longrightarrow> connect_value (deliver E thumb evs ctx) = connect_value ctx"
proof (induction evs arbitrary: ctx)
  case (Cons ev evs)
  then show ?case using callback_settled[OF Cons.prems, of E thumb ev] by (simp add: Let_def)
qed simp

lemma deliver_value:
  "connect_tx ctx \<Longrightarrow> connect_value ctx = None \<Longrightarrow>
     connect_value (deliver E thumb evs ctx) = first_decision evs"
proof (induction evs arbitrary: ctx)
  case (Cons ev evs)
  note s = callback_settles[OF Cons.prems, of E thumb ev, unfolded Let_def]
  show ?case
  proof (cases "decision ev")
    case None
    then show ?thesis using Cons.IH s by simp
  next
    case (Some v)
    then show ?thesis using s deliver_settled by simp
  qed
qed simp

lemma callback_reason:
  "shutdown_reason (snd (snd (connection_callback E thumb ev ctx))) =
     (case reason ev of None \<Rightarrow> shutdown_reason ctx | Some r \<Rightarrow> Some r)"
  by (cases ev) (auto simp: settle_def Let_def split: option.splits)

lemma deliver_reason:
  "shutdown_reason (deliver E thumb evs ctx) =
     (case rev (List.map_filter reason evs) of [] \<Rightarrow> shutdown_reason ctx | r # _ \<Rightarrow> Some r)"
proof (induction evs arbitrary: ctx)
  case (Cons ev evs)
  then show ?case
    by (cases "reason ev") (auto simp: callback_reason map_filter_simps split: list.splits)
qed (simp add: map_filter_simps)

section \<open>Handles\<close>

definition handles_ok :: "native \<Rightarrow> bool" where
  "handles_ok n \<longleftrightarrow> 0 < next_handle n \<and> list_all (\<lambda>h. h < next_handle n) (live n)"

lemma fresh_filter: "list_all (\<lambda>h. h < (m :: nat)) hs \<Longrightarrow> filter (\<lambda>g. g \<noteq> m) hs = hs"
  by (force simp: list_all_iff filter_id_conv)

lemma invoke_app [op_simps, simp]: "invoke E c n = (Inr (status_of E c), n\<lparr>calls := calls n @ [c]\<rparr>)"
  by (simp add: invoke_def)

lemma allocate_app [op_simps, simp]:
  "allocate n = (Inr (next_handle n), n\<lparr>next_handle := next_handle n + 1, live := live n @ [next_handle n]\<rparr>)"
  by (simp add: allocate_def)

lemma sbind_app: "sbind m f s = (case m s of (Inl e, s') \<Rightarrow> (Inl e, s') | (Inr a, s') \<Rightarrow> f a s')"
  by (simp add: sbind_def)

lemma create_configuration_handles:
  assumes "create_configuration_inner E reg srv der pwd cert key n = (r, n')" "handles_ok n"
    and "provides E ''ConfigurationClose''"
  shows "case r of Inr h \<Rightarrow> live n' = live n @ [h] \<and> h = next_handle n
    | Inl (Failed _) \<Rightarrow> live n' = live n | Inl Panicked \<Rightarrow> True"
  using assms
  by (auto simp: create_configuration_inner_def get_api_def invoke_unwrapped_def sbind_app handles_ok_def
      close_handle_def status_error_def fresh_filter split: option.splits if_splits)

lemma start_connect_handles:
  assumes "start_connect E reg cfg remote local n = (r, n')" "handles_ok n"
    and "provides E ''ConnectionClose''" "api_error E = None"
  shows "case r of Inr h \<Rightarrow> live n' = live n @ [h] \<and> h = next_handle n | Inl _ \<Rightarrow> live n' = live n"
  using assms
  by (auto simp: start_connect_def get_api_def invoke_unwrapped_def sbind_app handles_ok_def abandon_def
      drop_pending_def with_api_def close_handle_def status_error_def fresh_filter Let_def
      split: option.splits if_splits)

definition connect :: "quic_env \<Rightarrow> (byte list \<Rightarrow> string) \<Rightarrow> nat \<Rightarrow> nat \<Rightarrow> socket_addr \<Rightarrow> socket_addr option
    \<Rightarrow> string option \<Rightarrow> connection_event list \<Rightarrow> quic_connection option quic_op" where
  "connect E thumb registration config remote_addr local_bind_addr expected_thumbprint evs =
     sbind (start_connect E registration config remote_addr local_bind_addr) (\<lambda>h.
     finish_connect E h (deliver E thumb evs (client_context expected_thumbprint)))"

lemma conn_run_deliver:
  "conn_run E thumb start evs hs ctx \<Longrightarrow> ctx = deliver E thumb evs start"
proof (induction rule: conn_run.induct)
  case (conn_event evs hs ctx ev st cs ctx')
  have "deliver E thumb (evs @ [ev]) start
      = snd (snd (connection_callback E thumb ev (deliver E thumb evs start)))" for start
    by (induction evs arbitrary: start) simp_all
  then show ?case using conn_event by simp
qed simp

text \<open>The usual run: an accepted certificate, the connection, a stream of the peer.\<close>

lemma accepted_run:
  assumes "api_error E = None" "list_ex (eq_ignore_ascii_case (thumb c)) pins"
  shows "conn_run E thumb (server_context pins) [PEER_CERTIFICATE_RECEIVED (Some c), CONNECTED, PEER_STREAM_STARTED h]
      \<lparr>verified = True, peer_cert = Some c, refused = False, established = True\<rparr>
      ((server_context pins)\<lparr>stream_queue := [new_stream h]\<rparr>)"
proof -
  let ?s = "server_context pins"
  have ne: "pins \<noteq> []" using assms(2) by auto
  have 1: "conn_run E thumb ?s ([] @ [PEER_CERTIFICATE_RECEIVED (Some c)])
      (advance (PEER_CERTIFICATE_RECEIVED (Some c)) 0 new_handshake) ?s"
    by (rule conn_event[OF conn_start])
      (use assms(2) ne in \<open>simp_all add: new_handshake_def server_context_def QUIC_STATUS_SUCCESS_def\<close>)
  have 2: "conn_run E thumb ?s (([] @ [PEER_CERTIFICATE_RECEIVED (Some c)]) @ [CONNECTED])
      (advance CONNECTED 0 (advance (PEER_CERTIFICATE_RECEIVED (Some c)) 0 new_handshake)) ?s"
    by (rule conn_event[OF 1])
      (simp_all add: new_handshake_def server_context_def settle_def QUIC_STATUS_SUCCESS_def)
  have 3: "conn_run E thumb ?s ((([] @ [PEER_CERTIFICATE_RECEIVED (Some c)]) @ [CONNECTED]) @ [PEER_STREAM_STARTED h])
      (advance (PEER_STREAM_STARTED h) 0
        (advance CONNECTED 0 (advance (PEER_CERTIFICATE_RECEIVED (Some c)) 0 new_handshake)))
      (?s\<lparr>stream_queue := [new_stream h]\<rparr>)"
    by (rule conn_event[OF 2])
      (use assms(1) in \<open>simp_all add: new_handshake_def server_context_def QUIC_STATUS_SUCCESS_def\<close>)
  then show ?thesis by (simp add: new_handshake_def QUIC_STATUS_SUCCESS_def)
qed

section \<open>Properties\<close>

text \<open>
  C2: Only authenticated peers get through. Under the event order MsQuic documents, when the
  allow-list is not empty, a connection attempt that succeeds and a stream the peer opens both
  imply that the peer presented a certificate whose thumbprint is on the list.
\<close>

theorem streams_need_pinned_certificate:
  assumes "conn_run E thumb start evs hs ctx"
    and "start = server_context pins \<or> start = client_context (Some pin) \<and> pins = [pin]"
    and "pins \<noteq> []" "connect_value ctx = Some (Inr ()) \<or> stream_queue ctx \<noteq> []"
  shows "\<exists>cert. PEER_CERTIFICATE_RECEIVED (Some cert) \<in> set evs
     \<and> list_ex (eq_ignore_ascii_case (thumb cert)) pins"
proof -
  have "authenticated thumb pins evs hs ctx"
    using assms(2) by (intro conn_run_authenticated[OF assms(1,3)]) (auto simp: server_context_def client_context_def)
  then show ?thesis using assms(4) by (auto simp: authenticated_def)
qed

definition demo_quic :: quic_env where
  "demo_quic = \<lparr>api_error = None, provides = (\<lambda>_. True), status_of = (\<lambda>_. 0),
     ip_text = (\<lambda>_. ''192.0.2.44''), listener_addr = (\<lambda>_. None)\<rparr>"

definition demo_thumb :: "byte list \<Rightarrow> string" where
  "demo_thumb der = (if der = [1] then ''AB'' else ''CD'')"

theorem streams_need_pinned_certificate_witness:
  "\<exists>cert. PEER_CERTIFICATE_RECEIVED (Some cert) \<in> set [PEER_CERTIFICATE_RECEIVED (Some [1]), CONNECTED, PEER_STREAM_STARTED 5]
     \<and> list_ex (eq_ignore_ascii_case (demo_thumb cert)) [''AB'']"
proof -
  have e: "eq_ignore_ascii_case (demo_thumb [1]) ''AB''" by (simp add: demo_thumb_def)
  from streams_need_pinned_certificate[OF accepted_run[of demo_quic _ "[1]" "[''AB'']" 5], of demo_thumb "[''AB'']" "''AB''"] e
  show ?thesis by (simp add: demo_quic_def)
qed

text \<open>
  The result of a connection attempt is the first event that decides it, and only that:
  later events change neither the result nor a success into a failure, while the recorded
  shutdown reason is that of the last shutdown. Without a deciding event the attempt still waits.
\<close>

theorem first_event_decides:
  "connect_value (deliver E thumb evs (client_context expected)) = first_decision evs
   \<and> shutdown_reason (deliver E thumb evs (client_context expected)) =
      (case rev (List.map_filter reason evs) of [] \<Rightarrow> None | r # _ \<Rightarrow> Some r)"
proof -
  have c: "connect_tx (client_context expected)" "connect_value (client_context expected) = None"
    "shutdown_reason (client_context expected) = None"
    by (simp_all add: client_context_def)
  show ?thesis
    unfolding deliver_value[OF c(1,2)] deliver_reason c(3) by simp
qed

text \<open>
  C21: A connection attempt leaks no handle. Whatever call of the library fails and whatever
  events come, an attempt that fails or panics leaves exactly the handles that were open before,
  an attempt that succeeds adds the handle of its connection, which dropping the connection
  closes, and dropping the future of an attempt that still waits closes its handle.
\<close>

theorem connect_leaks_nothing:
  assumes "connect E thumb reg cfg remote bind_to expected evs n = (r, n')" "handles_ok n"
    and "provides E ''ConnectionClose''" "api_error E = None"
  shows "case r of
      Inl e \<Rightarrow> live n' = live n
    | Inr None \<Rightarrow> live (drop_pending E (next_handle n) n') = live n
    | Inr (Some conn) \<Rightarrow> live n' = live n @ [handle conn] \<and> live (drop_connection E conn n') = live n"
proof -
  obtain r1 n1 where s: "start_connect E reg cfg remote bind_to n = (r1, n1)" by fastforce
  note h = start_connect_handles[OF s assms(2-4)]
  have f: "filter (\<lambda>g. g \<noteq> next_handle n) (live n) = live n" "0 < next_handle n"
    using assms(2) fresh_filter by (auto simp: handles_ok_def)
  show ?thesis
  proof (cases r1)
    case (Inl e)
    then show ?thesis using assms(1) s h by (auto simp: connect_def sbind_app)
  next
    case (Inr a)
    then have a: "a = next_handle n" "live n1 = live n @ [next_handle n]" using h by simp_all
    show ?thesis
    proof (cases "connect_value (deliver E thumb evs (client_context expected))")
      case None
      then have "r = Inr None" "n' = n1"
        using assms(1) s Inr by (auto simp: connect_def sbind_app finish_connect_def)
      then show ?thesis using a f assms(3,4) by (simp add: drop_pending_def with_api_def close_handle_def)
    next
      case (Some v)
      have fin: "(r, n') = finish_connect E a (deliver E thumb evs (client_context expected)) n1"
        using assms(1) s Inr by (simp add: connect_def sbind_app)
      show ?thesis
      proof (cases v)
        case (Inl e)
        then have "r = Inl e" "n' = drop_pending E a n1"
          using fin Some by (simp_all add: finish_connect_def abandon_def sbind_app)
        then show ?thesis using a f assms(3,4) by (simp add: drop_pending_def with_api_def close_handle_def)
      next
        case (Inr u)
        then have "r = Inr (Some \<lparr>handle = a, ctx_box = deliver E thumb evs (client_context expected)\<rparr>)" "n' = n1"
          using fin Some by (simp_all add: finish_connect_def)
        then show ?thesis using a f assms(3,4) by (simp add: drop_connection_def with_api_def close_handle_def)
      qed
    qed
  qed
qed

theorem connect_leaks_nothing_witness:
  "\<exists>e n'. connect demo_quic demo_thumb 1 2 \<lparr>ip = IpV4 [192, 0, 2, 44], port = 443\<rparr> None (Some ''AB'')
       [SHUTDOWN_INITIATED_BY_PEER 0x12A] \<lparr>next_handle = 3, live = [1, 2], calls = []\<rparr> = (Inl e, n')
     \<and> live n' = [1, 2]"
proof -
  let ?n = "\<lparr>next_handle = 3, live = [1, 2], calls = []\<rparr>"
  obtain r n' where c: "connect demo_quic demo_thumb 1 2 \<lparr>ip = IpV4 [192, 0, 2, 44], port = 443\<rparr> None
      (Some ''AB'') [SHUTDOWN_INITIATED_BY_PEER 0x12A] ?n = (r, n')" by fastforce
  then obtain e where "r = Inl e"
    by (auto simp: connect_def sbind_app start_connect_def get_api_def invoke_unwrapped_def demo_quic_def
        c_string_ok_def is_quic_success_or_pending_def finish_connect_def settle_def client_context_def
        abandon_def Let_def)
  moreover have "handles_ok ?n" "provides demo_quic ''ConnectionClose''" "api_error demo_quic = None"
    by (simp_all add: handles_ok_def demo_quic_def)
  ultimately show ?thesis using connect_leaks_nothing[OF c] c by auto
qed

text \<open>
  Not so for listeners: when \<open>ListenerStart\<close> fails, the listener handle stays open and nobody
  can close it any more.
\<close>

lemma failed_listener_leaks:
  assumes "api_error E = None" "provides E = (\<lambda>_. True)" "status_of E (ListenerOpen reg) = 0"
    and "status_of E (ListenerStart (next_handle n) ALPN at_port) \<noteq> 0"
  shows "\<exists>e n'. start_listener E reg cfg at_port allowed n = (Inl e, n') \<and> live n' = live n @ [next_handle n]"
  using assms by (simp add: start_listener_def get_api_def invoke_unwrapped_def sbind_app)

end
