(* ===== verification/Worker.thy ===== *)
theory Worker
  imports Pipe Msquic_Engine Peer_Core
begin

text \<open>
  The worker (\<open>worker/src/main.rs\<close>): its command line, the list of authorized thumbprints, the
  start of the listener with the line it announces, the choice of the session mode from the first
  stream, and the events it answers during a file session. \<open>hex::decode\<close> and the parser of socket
  addresses are parameters; the child process of a pipe and the UDP punch packets are outside.
\<close>

section \<open>The command line\<close>

datatype ConflictPolicy = Overwrite | Refuse

record worker_args =
  expected_thumbprint :: string
  save_dir :: string
  is_pipe_mode :: bool
  is_directory_mode :: bool
  exec_command :: "string option"
  verify :: bool
  is_daemon :: bool
  allow_thumbprints_file :: "string option"
  listen_port :: u16
  punch_port :: "u16 option"
  punch_ip :: "string option"
  stun_server :: "socket_addr option"
  resume :: bool
  identity_dir :: "string option"
  conflict_policy :: ConflictPolicy

datatype worker_error = UsageError string | ThumbprintsUnreadable cert_error | BadThumbprintLine nat
  | BadPeerThumbprint | AuthorizationRequired | IdentityError cert_error | QuicError engine_error
  | WrongStreamHeader | NoUsableName

record worker_env =
  hex_decode :: "string \<Rightarrow> byte list option"
  parse_socket_addr :: "string \<Rightarrow> socket_addr option"

definition default_args :: "string \<Rightarrow> worker_args" where
  "default_args current_dir =
     \<lparr>expected_thumbprint = [], save_dir = utf8_lossy current_dir, is_pipe_mode = False,
      is_directory_mode = False, exec_command = None, verify = False, is_daemon = False,
      allow_thumbprints_file = None, listen_port = 0, punch_port = None, punch_ip = None,
      stun_server = None, resume = False, identity_dir = None, conflict_policy = Overwrite\<rparr>"

text \<open>
  One argument with its successor, if there is one; the flag says that the successor was used
  as its value. Unknown arguments, and options whose value is missing, are skipped.
\<close>

definition parse_option :: "worker_env \<Rightarrow> string \<Rightarrow> string option \<Rightarrow> worker_args
    \<Rightarrow> worker_error + (worker_args \<times> bool)" where
  "parse_option V arg nxt a =
     (let with_value = (\<lambda>f. case nxt of None \<Rightarrow> Inr (a, False) | Some v \<Rightarrow> Inr (f v, True)) in
      if arg = ''--peer-thumbprint'' then with_value (\<lambda>v. a\<lparr>expected_thumbprint := v\<rparr>)
      else if arg = ''--save-dir'' then with_value (\<lambda>v. a\<lparr>save_dir := clean_text v\<rparr>)
      else if arg = ''--pipe'' then Inr (a\<lparr>is_pipe_mode := True\<rparr>, False)
      else if arg = ''--directory'' then Inr (a\<lparr>is_directory_mode := True\<rparr>, False)
      else if arg = ''--exec'' then with_value (\<lambda>v. a\<lparr>exec_command := Some v\<rparr>)
      else if arg = ''--exec-hex'' then
        with_value (\<lambda>v. case Option.bind (hex_decode V v) from_utf8 of
            None \<Rightarrow> a | Some cmd \<Rightarrow> a\<lparr>exec_command := Some cmd\<rparr>)
      else if arg \<in> {''--verify'', ''--checksum''} then Inr (a\<lparr>verify := True\<rparr>, False)
      else if arg = ''--daemon'' then Inr (a\<lparr>is_daemon := True\<rparr>, False)
      else if arg = ''--allow-thumbprints'' then with_value (\<lambda>v. a\<lparr>allow_thumbprints_file := Some v\<rparr>)
      else if arg = ''--port'' then
        with_value (\<lambda>v. a\<lparr>listen_port := (case parse_u16 v of None \<Rightarrow> 0 | Some p \<Rightarrow> p)\<rparr>)
      else if arg = ''--punch-port'' then with_value (\<lambda>v. a\<lparr>punch_port := parse_u16 v\<rparr>)
      else if arg = ''--punch-ip'' then with_value (\<lambda>v. a\<lparr>punch_ip := Some v\<rparr>)
      else if arg = ''--stun-server'' then
        (case nxt of
           None \<Rightarrow> Inr (a, False)
         | Some v \<Rightarrow>
             rbind (ok_or (UsageError (''invalid STUN server address '' @ v)) (parse_socket_addr V v))
               (\<lambda>s. Inr (a\<lparr>stun_server := Some s\<rparr>, True)))
      else if arg \<in> {''-c'', ''--resume''} then Inr (a\<lparr>resume := True\<rparr>, False)
      else if arg = ''--identity-dir'' then with_value (\<lambda>v. a\<lparr>identity_dir := Some v\<rparr>)
      else if arg = ''--on-conflict'' then
        (case nxt of
           None \<Rightarrow> Inl (UsageError ''--on-conflict requires overwrite or refuse'')
         | Some v \<Rightarrow>
             if v = ''overwrite'' then Inr (a\<lparr>conflict_policy := Overwrite\<rparr>, True)
             else if v = ''refuse'' then Inr (a\<lparr>conflict_policy := Refuse\<rparr>, True)
             else Inl (UsageError (''invalid --on-conflict value '' @ v)))
      else Inr (a, False))"

definition parse_args :: "worker_env \<Rightarrow> string list \<Rightarrow> worker_args \<Rightarrow> worker_error + worker_args" where
  "parse_args V args a = scan_args (parse_option V) args a"

section \<open>Authorized thumbprints\<close>

fun thumbprint_lines :: "pki \<Rightarrow> nat \<Rightarrow> string list \<Rightarrow> string list \<Rightarrow> worker_error + string list" where
  "thumbprint_lines P n [] acc = Inr acc"
| "thumbprint_lines P n (line # rest) acc =
     (let trimmed = trim line in
      if trimmed \<noteq> [] \<and> \<not> starts_with ''#'' trimmed then
        (case normalize_thumbprint P trimmed of
           Inl _ \<Rightarrow> Inl (BadThumbprintLine (n + 1))
         | Inr t \<Rightarrow> thumbprint_lines P (n + 1) rest (if t \<in> set acc then acc else acc @ [t]))
      else thumbprint_lines P (n + 1) rest acc)"

definition allowed_list :: "pki \<Rightarrow> fsys \<Rightarrow> worker_args \<Rightarrow> worker_error + string list" where
  "allowed_list P fs a =
     rbind (case allow_thumbprints_file a of
              None \<Rightarrow> Inr []
            | Some path \<Rightarrow>
                rbind (map_sum ThumbprintsUnreadable id (read_to_string fs path))
                  (\<lambda>content. thumbprint_lines P 0 (lines content) [])) (\<lambda>from_file.
     rbind (if expected_thumbprint a \<noteq> []
            then rbind (map_sum (\<lambda>_. BadPeerThumbprint) id (normalize_thumbprint P (expected_thumbprint a)))
                   (\<lambda>t. Inr (from_file @ [t]))
            else Inr from_file) (\<lambda>allowed.
     if allowed = [] then Inl AuthorizationRequired else Inr allowed))"

section \<open>The start of the listener\<close>

text \<open>\<open>SSH_CONNECTION\<close> and \<open>SSH_CLIENT\<close> begin with the address of the client.\<close>

definition punch_target :: "worker_env \<Rightarrow> string option \<Rightarrow> string option \<Rightarrow> worker_args \<Rightarrow> socket_addr option" where
  "punch_target V ssh_connection ssh_client a =
     (let first_word = (\<lambda>s. case split_whitespace s of [] \<Rightarrow> [] | w # _ \<Rightarrow> w) in
      case punch_port a of
        None \<Rightarrow> None
      | Some p_port \<Rightarrow>
          (let ip_str = (case punch_ip a of
                  Some given \<Rightarrow> given
                | None \<Rightarrow> (case ssh_connection of
                      Some s \<Rightarrow> first_word s
                    | None \<Rightarrow> (case ssh_client of Some s \<Rightarrow> first_word s | None \<Rightarrow> []))) in
           if ip_str \<noteq> [] then parse_socket_addr V (ip_str @ '':'' @ show_word p_port) else None))"

record ready_line =
  status :: string
  udp_port :: u16
  thumbprint :: string
  public_udp_addr :: "socket_addr option"
  protocol_version :: u32
  features :: "string list"

definition bind_port :: "worker_args \<Rightarrow> u16" where
  "bind_port a = (if is_daemon a \<and> listen_port a = 0 then 55441 else listen_port a)"

text \<open>The port to bind after STUN, and the public address it found; a failure is only a warning.\<close>

definition stun_candidate :: "(socket_addr \<Rightarrow> u16 \<Rightarrow> stun_error + StunCandidate) \<Rightarrow> worker_args
    \<Rightarrow> u16 \<times> socket_addr option" where
  "stun_candidate disc a =
     (case stun_server a of
        None \<Rightarrow> (bind_port a, None)
      | Some server \<Rightarrow>
          (case disc server (bind_port a) of
             Inr c \<Rightarrow> (StunCandidate.local_port c, Some (public_addr c))
           | Inl _ \<Rightarrow> (bind_port a, None)))"

record worker_world =
  world_fs :: fsys
  world_native :: native

definition with_fs :: "(fsys, cert_error, 'a) op \<Rightarrow> (worker_world, worker_error, 'a) op" where
  "with_fs m = szoom world_fs (\<lambda>t w. w\<lparr>world_fs := t\<rparr>) IdentityError m"

definition with_native :: "'a quic_op \<Rightarrow> (worker_world, worker_error, 'a) op" where
  "with_native m = szoom world_native (\<lambda>t w. w\<lparr>world_native := t\<rparr>) QuicError m"

text \<open>
  From the arguments to the announced line: authorization, identity, configuration, STUN, listener.
  \<open>home\<close> are the variables \<open>default_identity_dir\<close> looks at. The configuration is made from the two
  paths that the identity functions return.
\<close>

definition worker_identity :: "pki \<Rightarrow> keypair option \<Rightarrow> string option \<times> string option \<Rightarrow> string
    \<Rightarrow> worker_args \<Rightarrow> (worker_world, worker_error, string \<times> string \<times> string) op" where
  "worker_identity P kp home temp_dir a =
     (if is_daemon a then
        sbind (with_fs (slift (case identity_dir a of
                  Some path \<Rightarrow> Inr path
                | None \<Rightarrow> default_identity_dir (fst home) (snd home) ''daemon''))) (\<lambda>dir.
        with_fs (build_persistent_quic_config P kp (\<lambda>_ c k. Some (c, k)) dir))
      else with_fs (build_quic_config P kp (\<lambda>_ c k. Some (c, k)) temp_dir))"

definition start_worker :: "quic_env \<Rightarrow> pki \<Rightarrow> keypair option \<Rightarrow> string option \<times> string option \<Rightarrow> string
    \<Rightarrow> (socket_addr \<Rightarrow> u16 \<Rightarrow> stun_error + StunCandidate) \<Rightarrow> worker_args
    \<Rightarrow> (worker_world, worker_error, ready_line \<times> nat \<times> listener_context) op" where
  "start_worker E P kp home temp_dir disc a =
     sbind (sget (\<lambda>w. allowed_list P (world_fs w) a)) (\<lambda>authorized.
     sbind (slift authorized) (\<lambda>allowed.
     sbind (with_native (new_engine E)) (\<lambda>registration.
     sbind (worker_identity P kp home temp_dir a) (\<lambda>(thumbprint, cert_path, key_path).
     sbind (with_native (create_configuration_inner E registration True None None
              (Some cert_path) (Some key_path))) (\<lambda>config.
     (let (at_port, public) = stun_candidate disc a in
      sbind (with_native (start_listener E registration config at_port allowed)) (\<lambda>(listener, ctx).
      sbind (with_native (listener_local_addr E listener)) (\<lambda>addr.
      sret (\<lparr>status = (if is_daemon a then ''daemon_ready'' else ''ready''), udp_port = port addr,
             thumbprint = thumbprint, public_udp_addr = public,
             protocol_version = CURRENT_PROTOCOL_VERSION, features = ALL_SUPPORTED_FEATURES\<rparr>,
            listener, ctx)))))))))"

section \<open>The session of a connection\<close>

datatype session_mode =
    DirectorySession duplex
  | PipeExec string duplex
  | PipeStdio duplex
  | FileSession duplex duplex
  | NoSession

text \<open>
  The header of the second stream and the pair, once the first stream was taken as \<open>first\<close>.
\<close>

definition second_stream :: "byte \<times> duplex \<Rightarrow> duplex list \<Rightarrow> session_mode" where
  "second_stream first rest =
     (let p = (if fst first = CONTROL_STREAM_HEADER then (Some (snd first), None) else (None, Some (snd first))) in
      case rest of
        [] \<Rightarrow> NoSession
      | d # _ \<Rightarrow>
          (case read_exact (rx d) 1 of
             Inl _ \<Rightarrow> NoSession
           | Inr (h2, r) \<Rightarrow>
               (case both (place (hd h2) (d\<lparr>rx := r\<rparr>) p) of
                  Some (c, f) \<Rightarrow> FileSession c f
                | None \<Rightarrow> NoSession)))"

text \<open>
  \<open>handle_incoming_connection\<close>: the mode follows the header of the first stream and the options
  given at start; an unreadable or unknown header ends the session without an error.
\<close>

definition choose_session :: "bool \<Rightarrow> bool \<Rightarrow> string option \<Rightarrow> duplex list \<Rightarrow> worker_error + session_mode" where
  "choose_session pipe_mode directory_mode exec streams =
     (case streams of
        [] \<Rightarrow> Inr NoSession
      | d # rest \<Rightarrow>
          (case read_exact (rx d) 1 of
             Inl _ \<Rightarrow> Inr NoSession
           | Inr (header, r) \<Rightarrow>
               (let h = hd header; d = d\<lparr>rx := r\<rparr> in
                if h = DIRECTORY_STREAM_HEADER \<or> directory_mode then
                  (if h \<noteq> DIRECTORY_STREAM_HEADER then Inl WrongStreamHeader else Inr (DirectorySession d))
                else if h = PIPE_STREAM_HEADER \<or> pipe_mode then
                  Inr (case exec of Some cmd \<Rightarrow> PipeExec cmd d | None \<Rightarrow> PipeStdio d)
                else if h = CONTROL_STREAM_HEADER \<or> h = FILE_STREAM_HEADER then
                  Inr (second_stream (h, d) rest)
                else Inr NoSession)))"

text \<open>A daemon serves file sessions only by their header: it passes no mode and no command.\<close>

definition serve_connection :: "worker_args \<Rightarrow> duplex list \<Rightarrow> worker_error + session_mode" where
  "serve_connection a streams =
     (if is_daemon a then choose_session False False None streams
      else choose_session (is_pipe_mode a) (is_directory_mode a) (exec_command a) streams)"

section \<open>Events of a file session\<close>

text \<open>What an event makes the worker do; a rejected offer continues the loop.\<close>

datatype reaction = Continue "PeerCommand option" | EndSession

definition on_offer :: "worker_args \<Rightarrow> fsys \<Rightarrow> string \<Rightarrow> bool \<Rightarrow> bool \<Rightarrow> worker_error + reaction" where
  "on_offer a fs name peer_resume peer_checksum =
     rbind (ok_or NoUsableName (file_name name)) (\<lambda>safe_name.
     let destination = path_push (save_dir a) safe_name;
         resume_requested = resume a \<or> peer_resume in
     if conflict_policy a = Refuse \<and> path_exists fs destination \<and> \<not> resume_requested
     then Inr (Continue (Some RejectFile))
     else Inr (Continue (Some (AcceptFile (save_dir a) (verify a \<or> peer_checksum) resume_requested))))"

definition on_event :: "worker_args \<Rightarrow> fsys \<Rightarrow> PeerEvent \<Rightarrow> worker_error + reaction" where
  "on_event a fs ev =
     (case ev of
        FileOffered name sz peer_resume peer_checksum \<Rightarrow> on_offer a fs name peer_resume peer_checksum
      | TransferComplete _ \<Rightarrow> Inr EndSession
      | Disconnected _ \<Rightarrow> Inr EndSession
      | _ \<Rightarrow> Inr (Continue None))"

section \<open>Facts about authorization\<close>

lemma thumbprint_lines_form:
  "pki_laws P \<Longrightarrow> thumbprint_lines P n ls acc = Inr ts \<Longrightarrow> list_all thumbprint_form acc \<Longrightarrow>
     list_all thumbprint_form ts"
proof (induction ls arbitrary: n acc)
  case (Cons l ls)
  then show ?case
    by (auto simp: Let_def normalize_thumbprint_form split: if_splits sum.splits)
qed simp

lemma allowed_list_form:
  assumes "pki_laws P" "allowed_list P fs a = Inr pins"
  shows "pins \<noteq> [] \<and> list_all thumbprint_form pins"
proof -
  obtain from_file where f: "(case allow_thumbprints_file a of
        None \<Rightarrow> Inr []
      | Some path \<Rightarrow> rbind (map_sum ThumbprintsUnreadable id (read_to_string fs path))
          (\<lambda>content. thumbprint_lines P 0 (lines content) [])) = Inr from_file"
    using assms(2) by (auto simp: allowed_list_def rbind_Inr_iff)
  have "list_all thumbprint_form from_file"
    using f thumbprint_lines_form[OF assms(1)] by (auto simp: rbind_Inr_iff split: option.splits)
  then show ?thesis
    using assms f normalize_thumbprint_form[OF assms(1)]
    by (auto simp: allowed_list_def rbind_Inr_iff map_sum_def split: if_splits sum.splits)
qed

lemma start_listener_context:
  "start_listener E reg cfg p allowed n = (Inr (l, ctx), n') \<Longrightarrow> listener_thumbprints ctx = allowed"
  by (auto simp: start_listener_def get_api_def invoke_unwrapped_def sbind_app
      split: option.splits if_splits)

lemma with_native_Inr: "with_native m w = (Inr a, w') \<Longrightarrow> \<exists>n'. m (world_native w) = (Inr a, n')"
  by (auto simp: with_native_def szoom_def Let_def map_sum_def split: prod.splits sum.splits)

lemma start_worker_context:
  assumes "start_worker E P kp home temp disc a w = (Inr (r, l, ctx), w')"
  shows "allowed_list P (world_fs w) a = Inr (listener_thumbprints ctx)"
proof -
  obtain allowed where a: "allowed_list P (world_fs w) a = Inr allowed"
    using assms by (auto simp: start_worker_def sbind_app split: prod.splits sum.splits)
  obtain at_port public where st: "stun_candidate disc a = (at_port, public)" by fastforce
  have "listener_thumbprints ctx = allowed"
    using assms a
    by (auto simp: st start_worker_def sbind_Inr_iff Let_def
        dest!: with_native_Inr start_listener_context split: prod.splits)
  then show ?thesis using a by simp
qed

section \<open>Pairing\<close>

definition worker_streams :: "string option \<Rightarrow> duplex list \<Rightarrow> worker_error + (duplex \<times> duplex) option" where
  "worker_streams exec ds =
     map_sum id (\<lambda>m. case m of FileSession c f \<Rightarrow> Some (c, f) | _ \<Rightarrow> None) (choose_session False False exec ds)"

lemma headers_distinct:
  "CONTROL_STREAM_HEADER \<noteq> DIRECTORY_STREAM_HEADER" "FILE_STREAM_HEADER \<noteq> DIRECTORY_STREAM_HEADER"
  "CONTROL_STREAM_HEADER \<noteq> PIPE_STREAM_HEADER" "FILE_STREAM_HEADER \<noteq> PIPE_STREAM_HEADER"
  by (simp_all add: CONTROL_STREAM_HEADER_def FILE_STREAM_HEADER_def DIRECTORY_STREAM_HEADER_def
      PIPE_STREAM_HEADER_def)

lemma choose_announced:
  "announced h d \<Longrightarrow> h \<in> {CONTROL_STREAM_HEADER, FILE_STREAM_HEADER} \<Longrightarrow>
     choose_session False False exec (d # rest) = Inr (second_stream (h, after_header d) rest)"
  using headers_distinct
  by (auto simp: choose_session_def read_header[unfolded One_nat_def] Let_def after_header_def)

lemma second_announced:
  "announced h2 d2 \<Longrightarrow> second_stream (h, d) [d2] =
     (case both (place h2 (after_header d2) (if h = CONTROL_STREAM_HEADER then (Some d, None) else (None, Some d))) of
        Some (c, f) \<Rightarrow> FileSession c f | None \<Rightarrow> NoSession)"
  by (simp add: second_stream_def read_header[unfolded One_nat_def] after_header_def Let_def)

interpretation worker_side: stream_pairing "worker_streams exec" for exec
  by unfold_locales
    (simp_all add: worker_streams_def choose_announced second_announced place_def both_def headers_differ
      headers_differ[symmetric], simp add: choose_session_def)

section \<open>Properties\<close>

text \<open>
  C6: The worker serves only authorized clients. When it has announced itself, every stream that a
  connection of its listener ever queues, under the event order MsQuic documents, comes from a
  peer whose certificate has a thumbprint on the list built from the command line and the
  allow-file, compared exactly; and that list is never empty.
\<close>

theorem worker_serves_only_authorized:
  assumes "pki_laws P"
    and "start_worker E P kp home temp disc a w = (Inr (line, listener, ctx), w')"
    and "conn_run E (compute_thumbprint P) (server_context (listener_thumbprints ctx)) evs hs conn"
    and "stream_queue conn \<noteq> []"
  shows "\<exists>pins cert. allowed_list P (world_fs w) a = Inr pins \<and> pins \<noteq> []
     \<and> PEER_CERTIFICATE_RECEIVED (Some cert) \<in> set evs \<and> compute_thumbprint P cert \<in> set pins"
proof -
  let ?pins = "listener_thumbprints ctx"
  have l: "allowed_list P (world_fs w) a = Inr ?pins" by (rule start_worker_context[OF assms(2)])
  have f: "?pins \<noteq> []" "list_all thumbprint_form ?pins" using allowed_list_form[OF assms(1) l] by simp_all
  have "authenticated (compute_thumbprint P) ?pins evs hs conn"
    by (rule conn_run_authenticated[OF assms(3) f(1)]) (simp_all add: server_context_def)
  then obtain cert where c: "PEER_CERTIFICATE_RECEIVED (Some cert) \<in> set evs"
      "list_ex (eq_ignore_ascii_case (compute_thumbprint P cert)) ?pins"
    using assms(4) by (auto simp: authenticated_def)
  have "compute_thumbprint P cert \<in> set ?pins"
    using c(2) f(2) eq_ignore_case_forms[OF compute_thumbprint_form[OF assms(1)]]
    by (auto simp: list_ex_iff list_all_iff)
  then show ?thesis using l f c(1) by blast
qed

definition demo_host :: quic_env where
  "demo_host = demo_quic\<lparr>listener_addr := (\<lambda>_. Some \<lparr>ip = IpV4 [0, 0, 0, 0], port = 55441\<rparr>)\<rparr>"

definition demo_worker_args :: worker_args where
  "demo_worker_args = (default_args ''/'')\<lparr>expected_thumbprint := concat (replicate 19 ''00'') @ ''06''\<rparr>"

definition demo_world :: worker_world where
  "demo_world = \<lparr>world_fs = \<lparr>nodes = [[''tmp''] \<mapsto> Dir], cwd = []\<rparr>,
     world_native = \<lparr>next_handle = 1, live = [], calls = []\<rparr>\<rparr>"

lemma demo_allowed: "allowed_list demo_pki fs demo_worker_args = Inr [compute_thumbprint demo_pki [1, 2, 3]]"
proof -
  have "normalize_thumbprint demo_pki (compute_thumbprint demo_pki [1, 2, 3]) = Inr (compute_thumbprint demo_pki [1, 2, 3])"
    by (rule normalize_form[OF compute_thumbprint_form[OF demo_pki_laws]])
  then show ?thesis
    by (simp add: allowed_list_def demo_worker_args_def default_args_def demo_thumbprint)
qed

lemma demo_identity:
  "\<exists>fs'. build_quic_config demo_pki (Some demo_keypair) (\<lambda>_ c k. Some (c, k)) ''/tmp'' (world_fs demo_world)
     = (Inr (compute_thumbprint demo_pki [1, 2, 3], ''/tmp/quiczilla_cert.pem'', ''/tmp/quiczilla_key.pem''), fs')"
proof -
  let ?fs = "world_fs demo_world"
  let ?f1 = "set_node [''tmp'', ''quiczilla_cert.pem''] (Some (File [80])) ?fs"
  have c: "components ''/tmp'' = [RootDir, Normal ''tmp'']" by code_simp
  have d: "dir_at ?fs ''/tmp'' [''tmp'']"
    unfolding dir_at_def c by (simp add: demo_world_def max_symlinks_def node_at_def)
  have names: "plain_name ''quiczilla_static_cert.pem''" "plain_name ''quiczilla_cert.pem''"
    "plain_name ''quiczilla_key.pem''" by (simp_all add: plain_name_def)
  have p: "path_push ''/tmp'' ''quiczilla_static_cert.pem'' = ''/tmp/quiczilla_static_cert.pem''"
    "path_push ''/tmp'' ''quiczilla_cert.pem'' = ''/tmp/quiczilla_cert.pem''"
    "path_push ''/tmp'' ''quiczilla_key.pem'' = ''/tmp/quiczilla_key.pem''"
    by (simp_all add: path_push_def has_root_def)
  have ns: "\<not> path_exists ?fs ''/tmp/quiczilla_static_cert.pem''"
    using fs_metadata_child[OF d names(1)] by (simp add: path_exists_def p(1) demo_world_def ok_or_def)
  have d1: "dir_at ?f1 ''/tmp'' [''tmp'']" using dir_at_write[OF d, of "''quiczilla_cert.pem''"] by (simp add: demo_world_def)
  have w1: "lift_io (fs_write ''/tmp/quiczilla_cert.pem'' [80]) ?fs = (Inr (), ?f1)"
    using fs_write_child[OF d names(2), of "[80]"] by (intro lift_io_ok) (simp add: p(2) demo_world_def)
  have w2: "lift_io (fs_write ''/tmp/quiczilla_key.pem'' [81]) ?f1
      = (Inr (), set_node [''tmp'', ''quiczilla_key.pem''] (Some (File [81])) ?f1)"
    using fs_write_child[OF d1 names(3), of "[81]"] by (intro lift_io_ok) (simp add: p(3) demo_world_def)
  have u: "utf8_lossy ''/tmp/quiczilla_cert.pem'' = ''/tmp/quiczilla_cert.pem''"
    "utf8_lossy ''/tmp/quiczilla_key.pem'' = ''/tmp/quiczilla_key.pem''"
    by (rule utf8_lossy_valid, code_simp)+
  show ?thesis
    by (simp add: build_quic_config_def ns Let_def p generate_msquic_pem_def demo_keypair_def
        sbind_def w1 w2 u del: utf8_lossy.simps)
qed

lemma demo_start:
  "\<exists>line listener ctx w'. start_worker demo_host demo_pki (Some demo_keypair) (None, None) ''/tmp''
     (\<lambda>_ _. Inl Panic) demo_worker_args demo_world = (Inr (line, listener, ctx), w')"
proof -
  obtain fs' where i: "build_quic_config demo_pki (Some demo_keypair) (\<lambda>_ c k. Some (c, k)) ''/tmp'' (world_fs demo_world)
     = (Inr (compute_thumbprint demo_pki [1, 2, 3], ''/tmp/quiczilla_cert.pem'', ''/tmp/quiczilla_key.pem''), fs')"
    using demo_identity by blast
  have s: "\<not> is_daemon demo_worker_args" "stun_candidate disc demo_worker_args = (0, None)" for disc
    by (simp_all add: demo_worker_args_def default_args_def stun_candidate_def bind_port_def)
  have c: "c_string_ok (Some ''/tmp/quiczilla_cert.pem'')" "c_string_ok (Some ''/tmp/quiczilla_key.pem'')"
    by (simp_all add: c_string_ok_def)
  show ?thesis
    by (simp add: start_worker_def sbind_app demo_allowed worker_identity_def s with_native_def with_fs_def
        szoom_def new_engine_def get_api_def invoke_unwrapped_def demo_host_def demo_quic_def i
        create_configuration_inner_def c start_listener_def listener_local_addr_def ok_or_def)
      (simp add: c_string_ok_def)
qed

theorem worker_serves_only_authorized_witness:
  "\<exists>pins cert. allowed_list demo_pki (world_fs demo_world) demo_worker_args = Inr pins \<and> pins \<noteq> []
     \<and> PEER_CERTIFICATE_RECEIVED (Some cert)
          \<in> set [PEER_CERTIFICATE_RECEIVED (Some [1, 2, 3]), CONNECTED, PEER_STREAM_STARTED 5]
     \<and> compute_thumbprint demo_pki cert \<in> set pins"
proof -
  obtain line listener ctx w' where st: "start_worker demo_host demo_pki (Some demo_keypair) (None, None) ''/tmp''
     (\<lambda>_ _. Inl Panic) demo_worker_args demo_world = (Inr (line, listener, ctx), w')"
    using demo_start by blast
  have pins: "listener_thumbprints ctx = [compute_thumbprint demo_pki [1, 2, 3]]"
    using start_worker_context[OF st] demo_allowed by simp
  have "conn_run demo_host (compute_thumbprint demo_pki) (server_context (listener_thumbprints ctx))
      [PEER_CERTIFICATE_RECEIVED (Some [1, 2, 3]), CONNECTED, PEER_STREAM_STARTED 5]
      \<lparr>verified = True, peer_cert = Some [1, 2, 3], refused = False, established = True\<rparr>
      ((server_context (listener_thumbprints ctx))\<lparr>stream_queue := [new_stream 5]\<rparr>)"
    by (rule accepted_run) (simp_all add: demo_host_def demo_quic_def pins)
  from worker_serves_only_authorized[OF demo_pki_laws st this] show ?thesis by simp
qed

text \<open>
  What a worker executes is what its own command line says: a connection leads to a child
  process only with the command given by \<open>--exec\<close> or \<open>--exec-hex\<close>, and never in a daemon. Nothing a client sends
  chooses a command.
\<close>

theorem exec_only_from_command_line:
  assumes "serve_connection a streams = Inr (PipeExec cmd d)"
  shows "exec_command a = Some cmd \<and> \<not> is_daemon a"
  using assms
  by (auto simp: serve_connection_def choose_session_def second_stream_def Let_def
      split: list.splits sum.splits prod.splits if_splits option.splits)

theorem exec_only_from_command_line_witness:
  "\<exists>d. serve_connection ((default_args ''/'')\<lparr>exec_command := Some ''ls''\<rparr>)
       [\<lparr>tx = \<lparr>written = [], room = None\<rparr>, rx = \<lparr>pending = [3], grain = id, broken = False\<rparr>\<rparr>]
     = Inr (PipeExec ''ls'' d) \<and> exec_command ((default_args ''/'')\<lparr>exec_command := Some ''ls''\<rparr>) = Some ''ls''"
proof -
  let ?a = "(default_args ''/'')\<lparr>exec_command := Some ''ls''\<rparr>"
  let ?d = "\<lparr>tx = \<lparr>written = [], room = None\<rparr>, rx = \<lparr>pending = [3], grain = id, broken = False\<rparr>\<rparr> :: duplex"
  have "serve_connection ?a [?d] = Inr (PipeExec ''ls'' (after_header ?d))"
    by (simp add: serve_connection_def choose_session_def read_exact_eq default_args_def after_header_def Let_def
        PIPE_STREAM_HEADER_def DIRECTORY_STREAM_HEADER_def)
  then show ?thesis using exec_only_from_command_line[of ?a "[?d]" "''ls''" "after_header ?d"] by blast
qed


definition refusing_args :: worker_args where
  "refusing_args = (default_args ''/'')\<lparr>save_dir := ''/in'', conflict_policy := Refuse\<rparr>"

definition offered_coord :: coord where
  "offered_coord = (initial_coord \<lparr>nodes = [[''in''] \<mapsto> Dir, [''in'', ''a''] \<mapsto> File [7]], cwd = []\<rparr>)
     \<lparr>offered_file_name := Some ''a'', offered_file_size := Some 3\<rparr>"


text \<open>
  Without those conditions the two differ: the worker checks the name as offered, the coordinator
  cuts control characters off first. The name \<open>a\<close> with a line feed passes the check beside an
  existing \<open>a\<close>, which is then overwritten.
\<close>

lemma refuse_checks_untrimmed_name:
  "file_name ''a\<newline>'' = Some ''a\<newline>''" "accept_dest ''/in'' ''a\<newline>'' = ''/in/a''"
  by code_simp+

end
