(* ===== verification/Cli_Session.thy ===== *)
theory Cli_Session
  imports Cli_Fallback Cli_Race Worker
begin

text \<open>
  The sessions of the client (\<open>run_file_transfer_cli\<close>, \<open>run_directory_transfer_cli\<close>, \<open>run_pipe_cli\<close> and
  \<open>run_direct_cli\<close> of \<open>cli/src/main.rs\<close>): the local candidate, the arguments of the remote worker, the loops
  on the events of the peer, and how the process ends. The outside is the record \<open>cli_env\<close>; the
  peer's events and the keys come as a list of inputs.
\<close>

section \<open>The local candidate\<close>

record address_text =
  show_ip :: "ip_addr \<Rightarrow> string"
  show_addr :: "socket_addr \<Rightarrow> string"

definition local_candidate :: "(socket_addr \<Rightarrow> string + StunCandidate) \<Rightarrow> string + u16 \<Rightarrow> string \<Rightarrow> TransportPreference
    \<Rightarrow> socket_addr option \<Rightarrow> string + (u16 \<times> socket_addr option \<times> socket_addr option)" where
  "local_candidate disc free_port failed_context pref server_addr =
     (let unmapped = rbind free_port (\<lambda>p. Inr (p, None, None)) in
      case server_addr of
        Some server \<Rightarrow>
          (case disc server of
             Inr c \<Rightarrow> Inr (StunCandidate.local_port c, Some (public_addr c),
                          map_option (\<lambda>a. \<lparr>ip = a, port = StunCandidate.local_port c\<rparr>) (StunCandidate.local_addr c))
           | Inl _ \<Rightarrow> if pref = Auto then unmapped else Inl failed_context)
      | None \<Rightarrow>
          if pref = StunOnly then
            Inl ''--transport stun requires --stun-server, QUICZILLA_STUN_SERVER, or a compiled default''
          else unmapped)"

section \<open>The arguments of the worker\<close>

definition stun_args :: "address_text \<Rightarrow> socket_addr option \<Rightarrow> string list" where
  "stun_args A server = (case server of None \<Rightarrow> [] | Some s \<Rightarrow> [''--stun-server'', show_addr A s])"

definition candidate_args :: "address_text \<Rightarrow> socket_addr \<Rightarrow> string list" where
  "candidate_args A c = [''--punch-ip'', show_ip A (ip c), ''--punch-port'', show_word (port c)]"

text \<open>The last part of every argument list: a fixed port, which the manual transport needs.\<close>

definition port_args :: "TransportPreference \<Rightarrow> u16 option \<Rightarrow> string + string list" where
  "port_args pref at_port =
     (case at_port of
        Some p \<Rightarrow> Inr [''--port'', show_word p]
      | None \<Rightarrow> if pref = Manual then Inl ''--transport manual requires --quic-port <port>'' else Inr [])"

definition file_worker_args :: "address_text \<Rightarrow> string \<Rightarrow> string \<Rightarrow> bool \<Rightarrow> bool \<Rightarrow> u16 \<Rightarrow> socket_addr option
    \<Rightarrow> socket_addr option \<Rightarrow> string list" where
  "file_worker_args A thumb remote_path checksum resuming udp public server =
     [''--peer-thumbprint'', thumb, ''--save-dir'', remote_path]
     @ (if checksum then [''--checksum''] else [])
     @ (if resuming then [''--resume''] else [])
     @ (case public of Some c \<Rightarrow> candidate_args A c | None \<Rightarrow> [''--punch-port'', show_word udp])
     @ stun_args A server"

definition directory_worker_args :: "address_text \<Rightarrow> string \<Rightarrow> string \<Rightarrow> u16 \<Rightarrow> socket_addr option
    \<Rightarrow> socket_addr option \<Rightarrow> string list" where
  "directory_worker_args A thumb remote_path udp public server =
     [''--directory'', ''--peer-thumbprint'', thumb, ''--save-dir'', remote_path, ''--punch-port'', show_word udp]
     @ (case public of Some c \<Rightarrow> candidate_args A c | None \<Rightarrow> [])
     @ stun_args A server"

definition pipe_worker_args :: "address_text \<Rightarrow> hashing \<Rightarrow> string \<Rightarrow> string option \<Rightarrow> bool \<Rightarrow> u16 \<Rightarrow> socket_addr option
    \<Rightarrow> socket_addr option \<Rightarrow> string list" where
  "pipe_worker_args A H thumb exec_cmd verifying udp public server =
     [''--pipe'', ''--peer-thumbprint'', thumb, ''--punch-port'', show_word udp]
     @ (case exec_cmd of Some cmd \<Rightarrow> [''--exec-hex'', hex_encode H (as_bytes cmd)] | None \<Rightarrow> [])
     @ (if verifying then [''--verify''] else [])
     @ (case public of Some c \<Rightarrow> candidate_args A c | None \<Rightarrow> [])
     @ stun_args A server"

section \<open>The worker understands the client\<close>

text \<open>The laws of the library functions on both sides: \<open>Display\<close> and \<open>FromStr\<close> of addresses, \<open>hex\<close>.\<close>

definition address_law :: "address_text \<Rightarrow> worker_env \<Rightarrow> socket_addr option \<Rightarrow> bool" where
  "address_law A V server \<longleftrightarrow> (case server of Some s \<Rightarrow> parse_socket_addr V (show_addr A s) = Some s | None \<Rightarrow> True)"

definition hex_laws :: "hashing \<Rightarrow> worker_env \<Rightarrow> bool" where
  "hex_laws H V \<longleftrightarrow> (\<forall>bs. hex_decode V (hex_encode H bs) = Some bs)"

lemma parse_args_rules:
  "parse_args V [] a = Inr a"
  "parse_args V (''--peer-thumbprint'' # v # rest) a = parse_args V rest (a\<lparr>expected_thumbprint := v\<rparr>)"
  "parse_args V (''--save-dir'' # v # rest) a = parse_args V rest (a\<lparr>save_dir := clean_text v\<rparr>)"
  "parse_args V (''--checksum'' # rest) a = parse_args V rest (a\<lparr>verify := True\<rparr>)"
  "parse_args V (''--verify'' # rest) a = parse_args V rest (a\<lparr>verify := True\<rparr>)"
  "parse_args V (''--resume'' # rest) a = parse_args V rest (a\<lparr>resume := True\<rparr>)"
  "parse_args V (''--pipe'' # rest) a = parse_args V rest (a\<lparr>is_pipe_mode := True\<rparr>)"
  "parse_args V (''--directory'' # rest) a = parse_args V rest (a\<lparr>is_directory_mode := True\<rparr>)"
  "parse_args V (''--punch-ip'' # v # rest) a = parse_args V rest (a\<lparr>punch_ip := Some v\<rparr>)"
  "parse_args V (''--punch-port'' # show_word w # rest) a = parse_args V rest (a\<lparr>punch_port := Some w\<rparr>)"
  "parse_args V (''--port'' # show_word w # rest) a = parse_args V rest (a\<lparr>listen_port := w\<rparr>)"
  unfolding parse_args_def by (cases rest; simp add: parse_option_def)+

lemma parse_exec_hex:
  assumes "hex_laws H V" "utf8_valid cmd"
  shows "parse_args V (''--exec-hex'' # hex_encode H (as_bytes cmd) # rest) a = parse_args V rest (a\<lparr>exec_command := Some cmd\<rparr>)"
  using assms unfolding parse_args_def by (simp add: parse_option_def hex_laws_def)

lemma parse_stun_args:
  assumes "address_law A V server"
  shows "parse_args V (stun_args A server @ rest) a
    = parse_args V rest (case server of None \<Rightarrow> a | Some s \<Rightarrow> a\<lparr>stun_server := Some s\<rparr>)"
  using assms unfolding parse_args_def
  by (cases server) (simp_all add: stun_args_def parse_option_def address_law_def ok_or_def)

text \<open>What the options of the port and of the candidates leave in the arguments of the worker.\<close>

definition with_network :: "address_text \<Rightarrow> u16 \<Rightarrow> socket_addr option \<Rightarrow> socket_addr option \<Rightarrow> u16 option
    \<Rightarrow> worker_args \<Rightarrow> worker_args" where
  "with_network A udp public server at_port a =
     a\<lparr>punch_port := Some (case public of Some c \<Rightarrow> port c | None \<Rightarrow> udp),
       punch_ip := (case public of Some c \<Rightarrow> Some (show_ip A (ip c)) | None \<Rightarrow> punch_ip a),
       stun_server := (case server of Some s \<Rightarrow> Some s | None \<Rightarrow> stun_server a),
       listen_port := (case at_port of Some p \<Rightarrow> p | None \<Rightarrow> listen_port a)\<rparr>"

lemma parse_port_args:
  assumes "port_args pref at_port = Inr ps"
  shows "parse_args V ps a = Inr (case at_port of Some p \<Rightarrow> a\<lparr>listen_port := p\<rparr> | None \<Rightarrow> a)"
  using assms by (auto simp: port_args_def parse_args_rules split: option.splits if_splits)

lemma parse_candidate_args:
  "parse_args V (candidate_args A c @ rest) a
    = parse_args V rest (a\<lparr>punch_ip := Some (show_ip A (ip c)), punch_port := Some (port c)\<rparr>)"
  by (simp add: candidate_args_def parse_args_rules)

lemmas parse_rules = parse_args_rules parse_candidate_args parse_stun_args parse_exec_hex parse_port_args

lemma file_args_parsed:
  assumes "address_law A V server" "port_args pref at_port = Inr ps"
  shows "parse_args V (file_worker_args A thumb remote_path checksum resuming udp public server @ ps) a
    = Inr (with_network A udp public server at_port
        (a\<lparr>expected_thumbprint := thumb, save_dir := clean_text remote_path,
           verify := verify a \<or> checksum, resume := resume a \<or> resuming\<rparr>))"
  using assms
  by (cases checksum; cases resuming; cases public)
    (simp_all add: file_worker_args_def parse_rules with_network_def split: option.splits)

lemma directory_args_parsed:
  assumes "address_law A V server" "port_args pref at_port = Inr ps"
  shows "parse_args V (directory_worker_args A thumb remote_path udp public server @ ps) a
    = Inr (with_network A udp public server at_port
        (a\<lparr>is_directory_mode := True, expected_thumbprint := thumb, save_dir := clean_text remote_path\<rparr>))"
  using assms
  by (cases public) (simp_all add: directory_worker_args_def parse_rules with_network_def split: option.splits)

lemma pipe_args_parsed:
  assumes "address_law A V server" "hex_laws H V" "port_args pref at_port = Inr ps"
    and "case exec_cmd of Some cmd \<Rightarrow> utf8_valid cmd | None \<Rightarrow> True"
  shows "parse_args V (pipe_worker_args A H thumb exec_cmd verifying udp public server @ ps) a
    = Inr (with_network A udp public server at_port
        (a\<lparr>is_pipe_mode := True, expected_thumbprint := thumb, verify := verify a \<or> verifying,
           exec_command := (case exec_cmd of Some cmd \<Rightarrow> Some cmd | None \<Rightarrow> exec_command a)\<rparr>))"
  using assms
  by (cases verifying; cases exec_cmd; cases public)
    (simp_all add: pipe_worker_args_def parse_rules with_network_def split: option.splits)

text \<open>The joined arguments come out of the remote shell as they went in.\<close>

lemma installed_call_words:
  assumes "worker_path \<noteq> []" "as \<noteq> []" "list_all survives as"
  shows "\<exists>w. sh_tokens (last (ssh_args (installed_call T worker_path (worker_arg_str as)))) = Some (w # map Word as)"
  using worker_path_word[OF assms(1), of "worker_arg_str as"] worker_arg_str_words[OF assms(3,2)]
  by (auto simp: installed_call_def ssh_batch_def sh_tokens_def)

section \<open>The loop of a file transfer\<close>

datatype key = PauseKey | QuitKey | ControlC | OtherKey

datatype session_input = KeyPressed key | CtrlCSignal | IdleTimeout | FromPeer PeerEvent | EventsClosed

datatype printed = CompletedReceipt receipt | DirectoryReceipt string DirectoryTransferStats DirectoryTransferStats
  | FailedReceipt int string | ErrorLine string | OutputLine string

text \<open>What a session knows from its start; \<open>commands_open\<close>: the peer task still takes commands.\<close>

record session_env =
  sent_path :: string
  sent_name :: string
  sent_size :: nat
  sent_label :: string
  sent_checksum :: bool
  commands_open :: bool
  session_opts :: OutputOptions
  session_tbl :: "string \<Rightarrow> string"

record cli_session =
  is_paused :: bool
  failure :: "CliFailure option"
  transfer_completed :: bool
  fallback_allowed :: bool
  commands :: "PeerCommand list"
  prints :: "printed list"
  cancel_called :: bool
  ended :: bool

definition session_start :: cli_session where
  "session_start = \<lparr>is_paused = False, failure = None, transfer_completed = False, fallback_allowed = False,
     commands = [], prints = [], cancel_called = False, ended = False\<rparr>"

text \<open>The name of a status as \<open>Debug\<close> prints it.\<close>

fun status_debug :: "file_transfer_status \<Rightarrow> string" where
  "status_debug Cancelled = ''Cancelled''"
| "status_debug Completed = ''Completed''"
| "status_debug HashFailed = ''HashFailed''"
| "status_debug StatusAlreadySending = ''RejectedAlreadySending''"
| "status_debug StatusAlreadyReceiving = ''RejectedAlreadyReceiving''"
| "status_debug StatusUnwanted = ''RejectedUnwanted''"
| "status_debug Etc = ''Etc''"

definition status_failure :: "string \<Rightarrow> file_transfer_status \<Rightarrow> CliFailure" where
  "status_failure intro st =
     (let msg = intro @ status_debug st in
      case st of
        HashFailed \<Rightarrow> new_failure INTEGRITY_FAILURE msg
      | StatusAlreadyReceiving \<Rightarrow> new_failure CONFLICT_REFUSAL msg
      | StatusAlreadySending \<Rightarrow> new_failure CONFLICT_REFUSAL msg
      | StatusUnwanted \<Rightarrow> new_failure CONFLICT_REFUSAL msg
      | Cancelled \<Rightarrow> new_failure CANCELLED ''transfer cancelled by user''
      | _ \<Rightarrow> new_failure GENERAL_ERROR msg)"

definition end_failed :: "CliFailure \<Rightarrow> cli_session \<Rightarrow> cli_session" where
  "end_failed f s = s\<lparr>failure := Some f, cancel_called := True, ended := True\<rparr>"

definition user_cancelled :: CliFailure where
  "user_cancelled = new_failure CANCELLED ''transfer cancelled by user''"

definition request_file :: "session_env \<Rightarrow> cli_session \<Rightarrow> cli_session" where
  "request_file S s =
     s\<lparr>commands := commands s @ [SendFile (sent_path S) (sent_checksum S) (resume_transfer (session_opts S))]\<rparr>"

definition completed_session :: "session_env \<Rightarrow> cli_session \<Rightarrow> cli_session" where
  "completed_session S s =
     s\<lparr>transfer_completed := True,
       prints := prints s @ (case emit_json_receipt (json_output (session_opts S)) (sent_name S) (sent_size S)
                               (sent_label S) (sent_checksum S) of None \<Rightarrow> [] | Some r \<Rightarrow> [CompletedReceipt r]),
       cancel_called := True, ended := True\<rparr>"

definition start_failed :: CliFailure where
  "start_failed = new_failure 1 ''could not start transfer: channel closed''"

fun on_key :: "key \<Rightarrow> cli_session \<Rightarrow> cli_session" where
  "on_key PauseKey s = s\<lparr>commands := commands s @ [if is_paused s then ResumeTransfer else PauseTransfer]\<rparr>"
| "on_key QuitKey s = end_failed user_cancelled s"
| "on_key ControlC s = end_failed user_cancelled s"
| "on_key OtherKey s = s"

fun on_file_event :: "session_env \<Rightarrow> PeerEvent \<Rightarrow> cli_session \<Rightarrow> cli_session" where
  "on_file_event S Connected s = (if commands_open S then request_file S s else end_failed start_failed s)"
| "on_file_event S TransferPaused s = s\<lparr>is_paused := True\<rparr>"
| "on_file_event S TransferResumed s = s\<lparr>is_paused := False\<rparr>"
| "on_file_event S (TransferComplete st) s =
     (if st = Completed then completed_session S s
      else end_failed (status_failure ''transfer failed: '' st) (s\<lparr>transfer_completed := False\<rparr>))"
| "on_file_event S (Disconnected why) s =
     (if transfer_completed s then s\<lparr>ended := True\<rparr>
      else end_failed (new_failure (classify_error_message (session_tbl S) why) why)
             (s\<lparr>fallback_allowed := transport (session_opts S) = Auto\<rparr>))"
| "on_file_event S _ s = s"

fun file_turn :: "session_env \<Rightarrow> session_input \<Rightarrow> cli_session \<Rightarrow> cli_session" where
  "file_turn S (KeyPressed k) s = on_key k s"
| "file_turn S CtrlCSignal s = end_failed user_cancelled s"
| "file_turn S (FromPeer e) s = on_file_event S e s"
| "file_turn S EventsClosed s = s\<lparr>ended := True\<rparr>"
| "file_turn S IdleTimeout s = s"

fun session_loop :: "(session_input \<Rightarrow> cli_session \<Rightarrow> cli_session) \<Rightarrow> session_input list \<Rightarrow> cli_session \<Rightarrow> cli_session" where
  "session_loop step [] s = s"
| "session_loop step (i # is) s = (if ended s then s else session_loop step is (step i s))"

text \<open>How the process ends; \<open>Running\<close> while the session still waits for an input.\<close>

datatype process_end = ReturnsOk "printed list" | Exits int "printed list" | Panics | Running

definition report :: "bool \<Rightarrow> CliFailure \<Rightarrow> printed" where
  "report json f = (if json then FailedReceipt (exit_code f) (failure_message f) else ErrorLine (failure_message f))"

definition file_session_end :: "session_env \<Rightarrow> receipt option boot \<Rightarrow> cli_session \<Rightarrow> (ssh_call list, CliFailure, process_end) op" where
  "file_session_end S fallback s =
     (let json = json_output (session_opts S) in
      if \<not> ended s then sret Running
      else if transfer_completed s then sret (Exits 0 (prints s))
      else if fallback_allowed s then
        sbind (scatch fallback) (\<lambda>r.
        case r of
          Inl e \<Rightarrow> sret (Exits 1 (prints s @ [report json (new_failure 1 e)]))
        | Inr rc \<Rightarrow> sret (Exits 0 (prints s @ (case rc of None \<Rightarrow> [] | Some r \<Rightarrow> [CompletedReceipt r]))))
      else (case failure s of
          Some f \<Rightarrow> sret (Exits (exit_code f) (prints s @ [report json f]))
        | None \<Rightarrow> sret (Exits 1 (prints s @ [report json (new_failure 1 ''transfer ended before completion'')]))))"

definition run_file_session :: "session_env \<Rightarrow> receipt option boot \<Rightarrow> session_input list \<Rightarrow> (ssh_call list, CliFailure, process_end) op" where
  "run_file_session S fallback inputs = file_session_end S fallback (session_loop (file_turn S) inputs session_start)"

section \<open>The loop of a direct transfer\<close>

text \<open>
  The keys are not read, the progress is not paused, fifteen seconds without an event end the session,
  and a command that cannot be sent returns from the function at once.
\<close>

fun on_direct_event :: "session_env \<Rightarrow> PeerEvent \<Rightarrow> cli_session \<Rightarrow> cli_session" where
  "on_direct_event S Connected s =
     (if commands_open S then request_file S s else s\<lparr>failure := Some start_failed, ended := True\<rparr>)"
| "on_direct_event S (TransferComplete st) s =
     (if st = Completed then completed_session S s
      else end_failed (status_failure ''direct transfer failed: '' st) s)"
| "on_direct_event S (Disconnected why) s =
     (if transfer_completed s then s
      else end_failed (new_failure (classify_error_message (session_tbl S) why)
             (''direct connection failed: '' @ why)) s)"
| "on_direct_event S _ s = s"

fun direct_turn :: "session_env \<Rightarrow> session_input \<Rightarrow> cli_session \<Rightarrow> cli_session" where
  "direct_turn S IdleTimeout s = end_failed (new_failure 1 ''direct daemon did not respond for 15 seconds'') s"
| "direct_turn S CtrlCSignal s = end_failed user_cancelled s"
| "direct_turn S (FromPeer e) s = on_direct_event S e s"
| "direct_turn S EventsClosed s = s\<lparr>ended := True\<rparr>"
| "direct_turn S (KeyPressed _) s = s"

definition direct_session_end :: "session_env \<Rightarrow> cli_session \<Rightarrow> process_end" where
  "direct_session_end S s =
     (if \<not> ended s then Running
      else if transfer_completed s then Exits 0 (prints s)
      else (let f = (case failure s of Some f \<Rightarrow> f | None \<Rightarrow> new_failure 1 ''direct connection closed before completion'') in
            Exits (exit_code f) (prints s @ [report (json_output (session_opts S)) f])))"

definition run_direct_session :: "session_env \<Rightarrow> session_input list \<Rightarrow> process_end" where
  "run_direct_session S inputs = direct_session_end S (session_loop (direct_turn S) inputs session_start)"

section \<open>What decides a session\<close>

text \<open>
  The contract of both loops: until an input decides, nothing is settled; the first one that
  does ends the loop with its own verdict, and nothing after it is looked at.
\<close>

locale event_loop =
  fixes step :: "session_input \<Rightarrow> cli_session \<Rightarrow> cli_session"
    and deciding :: "session_input \<Rightarrow> bool"
    and waiting :: "cli_session \<Rightarrow> bool"
    and finish :: "cli_session \<Rightarrow> 'r"
    and undecided :: 'r
    and verdict :: "session_input \<Rightarrow> 'r"
  assumes waiting_open: "waiting s \<Longrightarrow> \<not> ended s"
    and waiting_undecided: "waiting s \<Longrightarrow> finish s = undecided"
    and keeps_waiting: "waiting s \<Longrightarrow> \<not> deciding i \<Longrightarrow> waiting (step i s)"
    and decides_end: "waiting s \<Longrightarrow> deciding i \<Longrightarrow> ended (step i s)"
    and decides_verdict: "waiting s \<Longrightarrow> deciding i \<Longrightarrow> finish (step i s) = verdict i"
begin

lemma loop_ended: "ended s \<Longrightarrow> session_loop step is s = s"
  by (cases "is") auto

lemma first_decides:
  "waiting s \<Longrightarrow> finish (session_loop step is s) = (case find deciding is of None \<Rightarrow> undecided | Some i \<Rightarrow> verdict i)"
proof (induction "is" arbitrary: s)
  case Nil
  then show ?case by (simp add: waiting_undecided)
next
  case (Cons i "is")
  then show ?case
    using waiting_open keeps_waiting decides_verdict loop_ended[OF decides_end, of s i "is"]
    by (cases "deciding i") auto
qed

end

definition undecided_session :: "cli_session \<Rightarrow> bool" where
  "undecided_session s \<longleftrightarrow> \<not> ended s \<and> \<not> transfer_completed s \<and> failure s = None \<and> \<not> fallback_allowed s \<and> prints s = []"

fun file_deciding :: "session_env \<Rightarrow> session_input \<Rightarrow> bool" where
  "file_deciding S (KeyPressed k) = (k \<in> {QuitKey, ControlC})"
| "file_deciding S CtrlCSignal = True"
| "file_deciding S (FromPeer (TransferComplete _)) = True"
| "file_deciding S (FromPeer (Disconnected _)) = True"
| "file_deciding S (FromPeer Connected) = (\<not> commands_open S)"
| "file_deciding S EventsClosed = True"
| "file_deciding S _ = False"

definition failed_exit :: "session_env \<Rightarrow> CliFailure \<Rightarrow> process_end" where
  "failed_exit S f = Exits (exit_code f) [report (json_output (session_opts S)) f]"

definition completed_exit :: "session_env \<Rightarrow> process_end" where
  "completed_exit S =
     Exits 0 (if json_output (session_opts S)
              then [CompletedReceipt \<lparr>receipt_file = sent_name S, receipt_bytes = sent_size S,
                      receipt_transport = sent_label S, receipt_verified = sent_checksum S\<rparr>] else [])"

definition fallback_exit :: "session_env \<Rightarrow> receipt option boot \<Rightarrow> (ssh_call list, CliFailure, process_end) op" where
  "fallback_exit S fallback =
     sbind (scatch fallback) (\<lambda>r.
     sret (case r of
         Inl e \<Rightarrow> failed_exit S (new_failure 1 e)
       | Inr rc \<Rightarrow> Exits 0 (case rc of None \<Rightarrow> [] | Some r \<Rightarrow> [CompletedReceipt r])))"

fun file_verdict :: "session_env \<Rightarrow> receipt option boot \<Rightarrow> session_input \<Rightarrow> (ssh_call list, CliFailure, process_end) op" where
  "file_verdict S fallback (FromPeer (TransferComplete st)) =
     sret (if st = Completed then completed_exit S else failed_exit S (status_failure ''transfer failed: '' st))"
| "file_verdict S fallback (FromPeer (Disconnected why)) =
     (if transport (session_opts S) = Auto then fallback_exit S fallback
      else sret (failed_exit S (new_failure (classify_error_message (session_tbl S) why) why)))"
| "file_verdict S fallback (FromPeer Connected) = sret (failed_exit S start_failed)"
| "file_verdict S fallback EventsClosed = sret (failed_exit S (new_failure 1 ''transfer ended before completion''))"
| "file_verdict S fallback _ = sret (failed_exit S user_cancelled)"

fun direct_deciding :: "session_env \<Rightarrow> session_input \<Rightarrow> bool" where
  "direct_deciding S (FromPeer (TransferComplete _)) = True"
| "direct_deciding S (FromPeer (Disconnected _)) = True"
| "direct_deciding S (FromPeer Connected) = (\<not> commands_open S)"
| "direct_deciding S (FromPeer _) = False"
| "direct_deciding S (KeyPressed _) = False"
| "direct_deciding S _ = True"

fun direct_verdict :: "session_env \<Rightarrow> session_input \<Rightarrow> process_end" where
  "direct_verdict S (FromPeer (TransferComplete st)) =
     (if st = Completed then completed_exit S else failed_exit S (status_failure ''direct transfer failed: '' st))"
| "direct_verdict S (FromPeer (Disconnected why)) =
     failed_exit S (new_failure (classify_error_message (session_tbl S) why) (''direct connection failed: '' @ why))"
| "direct_verdict S (FromPeer _) = failed_exit S start_failed"
| "direct_verdict S IdleTimeout = failed_exit S (new_failure 1 ''direct daemon did not respond for 15 seconds'')"
| "direct_verdict S EventsClosed = failed_exit S (new_failure 1 ''direct connection closed before completion'')"
| "direct_verdict S _ = failed_exit S user_cancelled"

lemmas session_defs = end_failed_def completed_session_def request_file_def undecided_session_def failed_exit_def
  completed_exit_def emit_json_receipt_def Let_def

lemma undecided_start: "undecided_session session_start"
  by (simp add: undecided_session_def session_start_def)

lemma on_key_other:
  "k \<noteq> QuitKey \<Longrightarrow> k \<noteq> ControlC \<Longrightarrow> on_key k s =
     (if k = PauseKey then s\<lparr>commands := commands s @ [if is_paused s then ResumeTransfer else PauseTransfer]\<rparr> else s)"
  by (cases k) auto

lemma new_failure_fields [simp]: "exit_code (new_failure c m) = c" "failure_message (new_failure c m) = m"
  by (simp_all add: new_failure_def)

lemma fallback_exit_form:
  "sbind (scatch fallback) (case_sum
      (\<lambda>e. sret (Exits 1 [report (json_output (session_opts S)) (new_failure 1 e)]))
      (\<lambda>rc. sret (Exits 0 (case rc of None \<Rightarrow> [] | Some r \<Rightarrow> [CompletedReceipt r])))) = fallback_exit S fallback"
  unfolding fallback_exit_def failed_exit_def new_failure_fields
  by (rule arg_cong[where f = "sbind (scatch fallback)"]) (auto split: sum.splits)

interpretation file_loop: event_loop "file_turn S" "file_deciding S" undecided_session
    "file_session_end S fallback" "sret Running" "file_verdict S fallback" for S fallback
proof unfold_locales
  fix s i
  assume w: "undecided_session s"
  show "\<not> ended s" using w by (simp add: session_defs)
  show "file_session_end S fallback s = sret Running" using w by (simp add: session_defs file_session_end_def)
  show "\<not> file_deciding S i \<Longrightarrow> undecided_session (file_turn S i s)"
    using w by (cases "(S, i)" rule: file_deciding.cases) (auto simp: session_defs on_key_other)
  assume d: "file_deciding S i"
  show "ended (file_turn S i s)"
    using w d by (cases "(S, i)" rule: file_deciding.cases) (auto simp: session_defs)
  show "file_session_end S fallback (file_turn S i s) = file_verdict S fallback i"
    using w d
    by (cases "(S, i)" rule: file_deciding.cases) (auto simp: session_defs file_session_end_def fallback_exit_form)
qed

interpretation direct_loop: event_loop "direct_turn S" "direct_deciding S" undecided_session
    "direct_session_end S" Running "direct_verdict S" for S
proof unfold_locales
  fix s i
  assume w: "undecided_session s"
  show "\<not> ended s" using w by (simp add: session_defs)
  show "direct_session_end S s = Running" using w by (simp add: session_defs direct_session_end_def)
  show "\<not> direct_deciding S i \<Longrightarrow> undecided_session (direct_turn S i s)"
    using w by (cases "(S, i)" rule: direct_deciding.cases) (auto simp: session_defs)
  assume d: "direct_deciding S i"
  show "ended (direct_turn S i s)"
    using w d by (cases "(S, i)" rule: direct_deciding.cases) (auto simp: session_defs)
  show "direct_session_end S (direct_turn S i s) = direct_verdict S i"
    using w d by (cases "(S, i)" rule: direct_deciding.cases) (auto simp: session_defs direct_session_end_def)
qed

text \<open>
  Without a directory after the colon the joined command line loses the empty argument, and
  \<open>--save-dir\<close> takes the next option as its value.
\<close>

lemma empty_directory_lost:
  "sh_tokens (worker_arg_str [''--save-dir'', [], ''--punch-port'', ''7''])
     = Some [Word ''--save-dir'', Word ''--punch-port'', Word ''7'']"
  by (simp add: sh_tokens_def worker_arg_str_def plain_char_def is_ascii_digit_def code_def)

section \<open>Properties\<close>


text \<open>
  C16: The worker understands what the client asks of it. The argument list of a file, directory or pipe
  session is parsed by the worker into exactly the client's pin, directory, options, addresses and
  command, and when no argument is special to a shell, the joined command line reaches the worker as
  these arguments again.
\<close>

theorem worker_understands_client:
  assumes "address_law A V server" "hex_laws H V" "port_args pref at_port = Inr ps"
    and "case exec_cmd of Some cmd \<Rightarrow> utf8_valid cmd | None \<Rightarrow> True"
    and "worker_path \<noteq> []" "as \<noteq> []" "list_all survives as"
  shows "parse_args V (file_worker_args A thumb remote_path checksum resuming udp public server @ ps) a
      = Inr (with_network A udp public server at_port
          (a\<lparr>expected_thumbprint := thumb, save_dir := clean_text remote_path,
             verify := verify a \<or> checksum, resume := resume a \<or> resuming\<rparr>))
    \<and> parse_args V (directory_worker_args A thumb remote_path udp public server @ ps) a
      = Inr (with_network A udp public server at_port
          (a\<lparr>is_directory_mode := True, expected_thumbprint := thumb, save_dir := clean_text remote_path\<rparr>))
    \<and> parse_args V (pipe_worker_args A H thumb exec_cmd checksum udp public server @ ps) a
      = Inr (with_network A udp public server at_port
          (a\<lparr>is_pipe_mode := True, expected_thumbprint := thumb, verify := verify a \<or> checksum,
             exec_command := (case exec_cmd of Some cmd \<Rightarrow> Some cmd | None \<Rightarrow> exec_command a)\<rparr>))
    \<and> (\<exists>w. sh_tokens (last (ssh_args (installed_call T worker_path (worker_arg_str as)))) = Some (w # map Word as))"
  using file_args_parsed[OF assms(1,3)] directory_args_parsed[OF assms(1,3)] pipe_args_parsed[OF assms(1-4)]
    installed_call_words[OF assms(5-7)]
  by blast

definition demo_addresses :: address_text where
  "demo_addresses = \<lparr>show_ip = (\<lambda>_. ''192.0.2.1''), show_addr = (\<lambda>_. ''192.0.2.1:4433'')\<rparr>"

definition demo_worker_env :: worker_env where
  "demo_worker_env = \<lparr>hex_decode = (\<lambda>s. Some (as_bytes s)), parse_socket_addr = (\<lambda>_. Some demo_addr)\<rparr>"

theorem worker_understands_client_witness:
  "parse_args demo_worker_env (pipe_worker_args demo_addresses \<lparr>sha256 = id, hex_encode = string_of_bytes\<rparr> ''AB''
       (Some ''ls'') True 7 None (Some demo_addr) @ []) (default_args ''/'')
     = Inr (with_network demo_addresses 7 None (Some demo_addr) None
         ((default_args ''/'')\<lparr>is_pipe_mode := True, expected_thumbprint := ''AB'', verify := True, exec_command := Some ''ls''\<rparr>))
   \<and> (\<exists>w. sh_tokens (last (ssh_args (installed_call demo_target ''/w'' (worker_arg_str [''--save-dir'', ''my dir''])))) =
        Some (w # map Word [''--save-dir'', ''my dir'']))"
proof -
  have h: "address_law demo_addresses demo_worker_env (Some demo_addr)"
    "hex_laws \<lparr>sha256 = id, hex_encode = string_of_bytes\<rparr> demo_worker_env"
    "port_args Auto None = Inr []" "case Some ''ls'' of Some cmd \<Rightarrow> utf8_valid cmd | None \<Rightarrow> True"
    "''/w'' \<noteq> []" "[''--save-dir'', ''my dir''] \<noteq> []"
    by (simp_all add: address_law_def hex_laws_def demo_worker_env_def port_args_def utf8_valid_ascii is_ascii_def code_def)
  have s: "list_all survives [''--save-dir'', ''my dir'']"
    by (simp add: survives_def plain_char_def inert_in_double_def code_def)
  show ?thesis
    using worker_understands_client[OF h s, of "''AB''" "[]" True False 7 None "default_args ''/''" demo_target]
    by (simp add: default_args_def)
qed

end
