(* ===== verification/Cli_Transfers.thy ===== *)
theory Cli_Transfers
  imports Cli_Session Cert
begin

text \<open>
  The commands of the client from their arguments to the end of the process (\<open>run_file_transfer_cli\<close>,
  \<open>run_directory_transfer_cli\<close>, \<open>run_pipe_cli\<close>, \<open>run_direct_cli\<close> and \<open>run_identity_cli\<close> of
  \<open>cli/src/main.rs\<close>), on the log of the ssh calls. The record \<open>cli_env\<close> is everything outside: the disk, the
  network, the event sources, and the streams of a directory or pipe transfer.
\<close>

record pipe_args =
  pipe_target :: string
  pipe_command :: "string option"
  pipe_checksum :: bool

text \<open>Which of the two ends first: the acknowledgement (the sender then has five seconds) or the sender.\<close>

datatype exchange =
    AckFirst "string + DirectoryTransferStats" "(string + DirectoryTransferStats) option"
  | SentFirst "string + DirectoryTransferStats" "string + DirectoryTransferStats"

record 'c cli_env =
  boot_of :: boot_env
  io_message :: "io_error \<Rightarrow> string"
  cert_message :: "cert_error \<Rightarrow> string"
  pki_of :: pki
  disk :: fsys
  client_identity :: "string + string"
  persistent_identity :: "string \<Rightarrow> string + string"
  config_home :: "string option"
  home_dir :: "string option"
  discovery :: "socket_addr \<Rightarrow> string + StunCandidate"
  stun_variable :: "string option"
  compiled_stun :: "string option"
  unused_port :: "string + u16"
  addresses :: address_text
  resolver :: "string \<Rightarrow> socket_addr list option"
  dial :: "string \<Rightarrow> socket_addr \<Rightarrow> socket_addr option \<Rightarrow> string + 'c"
  candidate_order :: "branch list"
  session_events :: "'c \<Rightarrow> session_input list"
  direct_events :: "socket_addr \<Rightarrow> string \<Rightarrow> session_input list"
  takes_commands :: bool
  directory_exchange :: "'c \<Rightarrow> StorageProfile \<Rightarrow> bool \<Rightarrow> string + exchange"
  pipe_exchange :: "'c \<Rightarrow> bool \<Rightarrow> string + PipeResult"
  parse_pipe :: "string list \<Rightarrow> string + pipe_args"

type_synonym 'a cli_op = "(ssh_call list, CliFailure, 'a) op"

definition as_failure :: "'c cli_env \<Rightarrow> string \<Rightarrow> CliFailure" where
  "as_failure E msg = failure_of_error (boot_tbl (boot_of E)) msg"

definition anyhow :: "'c cli_env \<Rightarrow> string + 'a \<Rightarrow> CliFailure + 'a" where
  "anyhow E r = map_sum (as_failure E) id r"

definition over_ssh :: "'c cli_env \<Rightarrow> 'a boot \<Rightarrow> 'a cli_op" where
  "over_ssh E m = szoom id (\<lambda>log _. log) (as_failure E) m"

definition target_of :: "OutputOptions \<Rightarrow> string \<Rightarrow> ssh_target" where
  "target_of opts ssh_target = \<lparr>target = ssh_target, target_port = ssh_port opts, target_identity = ssh_identity opts\<rparr>"

definition checksum_flag :: "string list \<Rightarrow> bool" where
  "checksum_flag args = list_ex (\<lambda>a. a \<in> {''--checksum'', ''--verify''}) args"

definition require_features :: "WorkerBootstrap \<Rightarrow> (string \<times> string) list \<Rightarrow> CliFailure + unit" where
  "require_features b required =
     foldr (\<lambda>(f, d) rest. rbind (ensure_feature (boot_version b) (boot_features b) f d) (\<lambda>_. rest)) required (Inr ())"

text \<open>From the worker's arguments to a connection: bootstrap, features, address, candidate.\<close>

definition open_connection :: "'c cli_env \<Rightarrow> OutputOptions \<Rightarrow> string \<Rightarrow> string list \<Rightarrow> (string \<times> string) list
    \<Rightarrow> socket_addr option \<Rightarrow> 'c candidate cli_op" where
  "open_connection E opts ssh_target worker_args required stun_bind =
     sbind (over_ssh E (bootstrap_remote_worker (boot_of E) (target_of opts ssh_target) worker_args)) (\<lambda>b.
     sbind (slift (require_features b required)) (\<lambda>_.
     sbind (slift (anyhow E (resolve_quic_address (resolver E)
              (case quic_host opts of Some h \<Rightarrow> h | None \<Rightarrow> boot_host b) (boot_udp_port b)))) (\<lambda>direct_addr.
     sret (connect_quic_candidate opts (dial E (boot_thumbprint b)) (candidate_order E) direct_addr (boot_public b) stun_bind))))"

section \<open>A file\<close>

definition fallback_op :: "'c cli_env \<Rightarrow> OutputOptions \<Rightarrow> string \<Rightarrow> string \<Rightarrow> string \<Rightarrow> string \<Rightarrow> bool \<Rightarrow> receipt option boot" where
  "fallback_op E opts ssh_target local_path remote_path file_nm checksum =
     run_ssh_fallback (boot_of E) (io_message E) (disk E) (target_of opts ssh_target) local_path remote_path file_nm
       checksum (json_output opts)"

definition fallback_return :: "'c cli_env \<Rightarrow> receipt option boot \<Rightarrow> process_end cli_op" where
  "fallback_return E fallback =
     sbind (over_ssh E fallback) (\<lambda>rc. sret (ReturnsOk (case rc of None \<Rightarrow> [] | Some r \<Rightarrow> [CompletedReceipt r])))"

definition send_file_to :: "'c cli_env \<Rightarrow> OutputOptions \<Rightarrow> string \<Rightarrow> byte list \<Rightarrow> string \<Rightarrow> string \<Rightarrow> bool \<Rightarrow> process_end cli_op" where
  "send_file_to E opts local_path content ssh_target remote_path checksum =
     (let file_nm = utf8_lossy (case file_name local_path of Some n \<Rightarrow> n | None \<Rightarrow> []);
          fallback = fallback_op E opts ssh_target local_path remote_path file_nm checksum in
      sbind (slift (anyhow E (client_identity E))) (\<lambda>thumb.
      if transport opts = Ssh then fallback_return E fallback
      else
      sbind (slift (anyhow E (configured_stun_server (boot_addr (boot_of E)) (stun_variable E) (compiled_stun E) opts))) (\<lambda>server.
      sbind (slift (anyhow E (local_candidate (discovery E) (unused_port E)
               ''STUN transport requested but discovery failed'' (transport opts) server))) (\<lambda>(udp, public, stun_bind).
      sbind (slift (anyhow E (port_args (transport opts) (quic_port opts)))) (\<lambda>ports.
      sbind (open_connection E opts ssh_target
               (file_worker_args (addresses E) thumb remote_path checksum (resume_transfer opts) udp public server @ ports)
               ((if resume_transfer opts then [(''resume'', ''transfer resumption'')] else [])
                @ (if checksum then [(''checksum'', ''checksum verification'')] else [])) stun_bind) (\<lambda>cand.
      case cand of
        Candidate (Inr (c, label)) \<Rightarrow>
          run_file_session
            \<lparr>sent_path = local_path, sent_name = file_nm, sent_size = length content, sent_label = label,
             sent_checksum = checksum, commands_open = takes_commands E, session_opts = opts,
             session_tbl = boot_tbl (boot_of E)\<rparr> fallback (session_events E c)
      | Candidate (Inl e) \<Rightarrow>
          if transport opts = Auto then fallback_return E fallback else sfail (as_failure E e)
      | CandidatePanic \<Rightarrow> sret Panics
      | StillRacing \<Rightarrow> sret Running))))))"

section \<open>A directory\<close>

text \<open>
  A \<open>?\<close> in a branch of the \<open>select!\<close> returns from the whole function, so the arm that
  would kill the worker and exit with 1 is never reached.
\<close>

definition exchange_result :: "exchange \<Rightarrow> string + (DirectoryTransferStats \<times> DirectoryTransferStats)" where
  "exchange_result x =
     (case x of
        AckFirst ack sent \<Rightarrow>
          rbind ack (\<lambda>a. rbind (case sent of Some r \<Rightarrow> r
              | None \<Rightarrow> Inr (default_stats\<lparr>files := files a, bytes := bytes a\<rparr>)) (\<lambda>s. Inr (s, a)))
      | SentFirst sent ack \<Rightarrow> rbind sent (\<lambda>s. rbind ack (\<lambda>a. Inr (s, a))))"

definition run_directory_transfer_cli :: "'c cli_env \<Rightarrow> string list \<Rightarrow> OutputOptions \<Rightarrow> process_end cli_op" where
  "run_directory_transfer_cli E args opts =
     (let err = as_failure E; source = args ! 0 in
      sbind (sguard (2 \<le> length args) (new_failure 2 ''directory transfer requires source and destination'')) (\<lambda>_.
      sbind (sguard (transport opts \<noteq> Ssh)
               (err ''native directory transfer requires QUIC; SSH directory fallback is not implemented yet'')) (\<lambda>_.
      sbind (sguard (\<not> resume_transfer opts)
               (err ''directory resume is not implemented yet; retry the directory transfer without --resume'')) (\<lambda>_.
      sbind (sguard (path_is_dir (disk E) source) (err (''local path is not a directory: '' @ source))) (\<lambda>_.
      sbind (slift (anyhow E (ok_or ''invalid remote target; expected user@host:path'' (split_once (CHR '':'') (args ! 1)))))
        (\<lambda>(ssh_target, remote_path).
      sbind (slift (anyhow E (directory_storage_profile args))) (\<lambda>storage.
      sbind (slift (anyhow E (client_identity E))) (\<lambda>thumb.
      sbind (slift (anyhow E (configured_stun_server (boot_addr (boot_of E)) (stun_variable E) (compiled_stun E) opts))) (\<lambda>server.
      sbind (slift (anyhow E (local_candidate (discovery E) (unused_port E)
               ''STUN transport requested but discovery failed'' (transport opts) server))) (\<lambda>(udp, public, stun_bind).
      sbind (slift (anyhow E (port_args (transport opts) (quic_port opts)))) (\<lambda>ports.
      sbind (open_connection E opts ssh_target
               (directory_worker_args (addresses E) thumb remote_path udp public server @ ports)
               [(''directory'', ''directory transfers'')] stun_bind) (\<lambda>cand.
      case cand of
        Candidate (Inl e) \<Rightarrow> sfail (err e)
      | CandidatePanic \<Rightarrow> sret Panics
      | StillRacing \<Rightarrow> sret Running
      | Candidate (Inr (c, label)) \<Rightarrow>
          sbind (slift (anyhow E (directory_exchange E c storage (checksum_flag args)))) (\<lambda>x.
          case exchange_result x of
            Inl e \<Rightarrow> sfail (err e)
          | Inr (s, a) \<Rightarrow> sret (Exits 0 (if json_output opts then [DirectoryReceipt label s a] else [])))))))))))))))"

text \<open>The file transfer looks at its source first and passes a directory on.\<close>

definition run_file_transfer_cli :: "'c cli_env \<Rightarrow> string list \<Rightarrow> OutputOptions \<Rightarrow> process_end cli_op" where
  "run_file_transfer_cli E args opts =
     (let local_path = args ! 0; err = as_failure E in
      sbind (sguard (2 \<le> length args) (new_failure INVALID_INVOCATION ''two transfer arguments are required'')) (\<lambda>_.
      case fs_metadata (disk E) local_path of
        Inl _ \<Rightarrow> sfail (err (''Local file does not exist: '' @ local_path))
      | Inr Dir \<Rightarrow> run_directory_transfer_cli E args opts
      | Inr (Symlink _) \<Rightarrow> sfail (err (''local path is not a regular file: '' @ local_path))
      | Inr (File content) \<Rightarrow>
          (case split_once (CHR '':'') (args ! 1) of
             None \<Rightarrow> sfail (err (''Invalid remote target '' @ quoted (args ! 1) @ ''. Expected user@host:path''))
           | Some (ssh_target, remote_path) \<Rightarrow>
               send_file_to E opts local_path content ssh_target remote_path (checksum_flag args))))"

section \<open>A pipe\<close>

text \<open>The features are checked inside an \<open>anyhow\<close> function: their failures are classified by their message.\<close>

definition reclassified :: "'c cli_env \<Rightarrow> 'a cli_op \<Rightarrow> 'a cli_op" where
  "reclassified E m log = (let (r, log') = m log in (map_sum (\<lambda>f. as_failure E (failure_message f)) id r, log'))"

definition run_pipe_cli :: "'c cli_env \<Rightarrow> string list \<Rightarrow> OutputOptions \<Rightarrow> process_end cli_op" where
  "run_pipe_cli E args opts =
     (let err = as_failure E in
      sbind (slift (anyhow E (parse_pipe E (''quic pipe'' # args)))) (\<lambda>pipe.
      sbind (sguard (transport opts \<noteq> Ssh)
               (err (''quic pipe does not support SSH streaming fallback; ''
                     @ ''select direct, STUN, manual, or auto QUIC''))) (\<lambda>_.
      sbind (slift (anyhow E (client_identity E))) (\<lambda>thumb.
      sbind (slift (anyhow E (configured_stun_server (boot_addr (boot_of E)) (stun_variable E) (compiled_stun E) opts))) (\<lambda>server.
      sbind (slift (anyhow E (local_candidate (discovery E) (unused_port E)
               ''STUN transport requested for pipe mode'' (transport opts) server))) (\<lambda>(udp, public, stun_bind).
      sbind (slift (anyhow E (port_args (transport opts) (quic_port opts)))) (\<lambda>ports.
      sbind (reclassified E (open_connection E opts (pipe_target pipe)
               (pipe_worker_args (addresses E) (boot_hash (boot_of E)) thumb (pipe_command pipe) (pipe_checksum pipe)
                  udp public server @ ports)
               ((''pipe'', ''pipe transfers'')
                # (case pipe_command pipe of Some _ \<Rightarrow> [(''exec_hex'', ''remote command execution'')] | None \<Rightarrow> []))
               stun_bind)) (\<lambda>cand.
      case cand of
        Candidate (Inl e) \<Rightarrow> sfail (err e)
      | CandidatePanic \<Rightarrow> sret Panics
      | StillRacing \<Rightarrow> sret Running
      | Candidate (Inr (c, label)) \<Rightarrow>
          sbind (slift (anyhow E (pipe_exchange E c (pipe_checksum pipe)))) (\<lambda>_. sret (Exits 0 []))))))))))"

section \<open>Direct transfers and the client's identity\<close>

definition identity_directory :: "'c cli_env \<Rightarrow> string list \<Rightarrow> CliFailure + string" where
  "identity_directory E args =
     (case option_value args ''--identity-dir'' of
        Some d \<Rightarrow> Inr d
      | None \<Rightarrow> anyhow E (map_sum (cert_message E) id (default_identity_dir (config_home E) (home_dir E) ''client'')))"

definition run_direct_cli :: "'c cli_env \<Rightarrow> string list \<Rightarrow> OutputOptions \<Rightarrow> CliFailure + process_end" where
  "run_direct_cli E args opts =
     (let err = as_failure E; host = args ! 0; local_path = args ! 1 in
      rbind (ensure (2 \<le> length args) (err (''usage: quic direct <host:port> <local_file> ''
               @ ''--thumbprint <server-thumbprint> [--checksum] [-c]''))) (\<lambda>_.
      rbind (ok_or (err (''failed to resolve daemon address '' @ host)) (resolver E host)) (\<lambda>found.
      rbind (ok_or (err (''no address resolved for '' @ host)) (case found of [] \<Rightarrow> None | a # _ \<Rightarrow> Some a)) (\<lambda>remote.
      rbind (map_sum (\<lambda>_. err (''failed to read local file '' @ local_path)) id (fs_metadata (disk E) local_path)) (\<lambda>meta.
      rbind (case meta of File c \<Rightarrow> Inr c | _ \<Rightarrow> Inl (err (''local path is not a file: '' @ local_path))) (\<lambda>content.
      rbind (ok_or (err ''local file has no file name'') (file_name local_path)) (\<lambda>name.
      rbind (ok_or (err ''--thumbprint <server-thumbprint> is required for direct mode'')
               (option_value args ''--thumbprint'')) (\<lambda>given.
      rbind (anyhow E (map_sum (cert_message E) id (normalize_thumbprint (pki_of E) given))) (\<lambda>expected.
      rbind (identity_directory E args) (\<lambda>dir.
      rbind (anyhow E (persistent_identity E dir)) (\<lambda>_.
      Inr (run_direct_session
        \<lparr>sent_path = utf8_lossy local_path, sent_name = utf8_lossy name, sent_size = length content,
         sent_label = ''direct-daemon-quic'', sent_checksum = checksum_flag args, commands_open = takes_commands E,
         session_opts = opts, session_tbl = boot_tbl (boot_of E)\<rparr> (direct_events E remote expected)))))))))))))"

definition run_identity_cli :: "'c cli_env \<Rightarrow> string list \<Rightarrow> CliFailure + process_end" where
  "run_identity_cli E args =
     rbind (identity_directory E args) (\<lambda>dir.
     rbind (anyhow E (persistent_identity E dir)) (\<lambda>thumb. Inr (Exits 0 [OutputLine thumb])))"

section \<open>The daemon command\<close>

text \<open>
  The worker is looked for beside the client, then in the path, and is extracted to the temporary
  directory last. \<open>spawn\<close> is \<open>None\<close> when a program cannot be started; its inner \<open>None\<close> is a program
  ended by a signal. The permissions of the extracted files are not modelled.
\<close>

record daemon_env =
  sibling_worker :: "string option"
  spawn :: "string \<Rightarrow> string list \<Rightarrow> int option option"
  temp_dir :: string
  spawn_message :: string

definition status_code :: "int option \<Rightarrow> int" where
  "status_code st = (case st of Some n \<Rightarrow> n | None \<Rightarrow> 1)"

definition run_daemon_cli :: "'c cli_env \<Rightarrow> daemon_env \<Rightarrow> string list \<Rightarrow> (fsys, string, int) op" where
  "run_daemon_cli E D args =
     (let worker_cmd = ''--daemon'' # args;
          launch = (\<lambda>path. slift (map_sum id status_code (ok_or (spawn_message D) (spawn D path worker_cmd))));
          on_fs = (\<lambda>m. szoom id (\<lambda>t _. t) (io_message E) m) in
      case sibling_worker D of
        Some sibling \<Rightarrow> launch sibling
      | None \<Rightarrow>
          (case spawn D ''quiczilla-worker'' worker_cmd of
             Some st \<Rightarrow> sret (status_code st)
           | None \<Rightarrow>
               (let bundle_dir = path_push (temp_dir D) (''quiczilla-daemon-'' @ WORKER_VERSION);
                    worker_path = path_push bundle_dir ''quiczilla-worker'' in
                sbind (on_fs (create_dir_all bundle_dir)) (\<lambda>_.
                sbind (on_fs (fs_write worker_path (embedded_worker (boot_of E) LinuxX86_64))) (\<lambda>_.
                sbind (slift (ok_or ''this CLI was built without an embedded Linux MsQuic runtime''
                         (embedded_runtime (boot_of E) LinuxX86_64))) (\<lambda>runtime.
                sbind (on_fs (fs_write (path_push bundle_dir ''libmsquic.so'') runtime)) (\<lambda>_.
                launch worker_path)))))))"

text \<open>The exit status of the process, when it ends.\<close>

fun exit_status :: "CliFailure + process_end \<Rightarrow> int option" where
  "exit_status (Inl f) = Some (exit_code f)"
| "exit_status (Inr (ReturnsOk _)) = Some 0"
| "exit_status (Inr (Exits n _)) = Some n"
| "exit_status (Inr Panics) = Some 101"
| "exit_status (Inr Running) = None"

section \<open>Success and failure\<close>

text \<open>No failure of the client has the exit code 0.\<close>

definition fails_nonzero :: "'a cli_op \<Rightarrow> bool" where
  "fails_nonzero m \<longleftrightarrow> (\<forall>log f log'. m log = (Inl f, log') \<longrightarrow> exit_code f \<noteq> 0)"

lemma classify_nonzero: "classify_error_message tbl msg \<noteq> 0"
proof -
  have "\<forall>(ws, c) \<in> set message_classes. c \<noteq> 0"
    by (simp add: message_classes_def PROTOCOL_INCOMPATIBLE_def AUTH_FAILURE_def INTEGRITY_FAILURE_def
        CONFLICT_REFUSAL_def NETWORK_FAILURE_def)
  then have nonzero: "(ws, c) \<in> set message_classes \<Longrightarrow> c \<noteq> 0" for ws c by auto
  show ?thesis
  proof (cases "filter (\<lambda>(ws, _). list_ex (str_contains (to_lowercase tbl msg)) ws) message_classes")
    case Nil
    then show ?thesis by (simp add: classify_error_message_def Let_def GENERAL_ERROR_def)
  next
    case (Cons wc rest)
    then have "wc \<in> set message_classes" by (metis filter_is_subset list.set_intros(1) subsetD)
    then have "snd wc \<noteq> 0" using nonzero[of "fst wc" "snd wc"] by simp
    then show ?thesis using Cons by (simp add: classify_error_message_def Let_def case_prod_beta)
  qed
qed

lemma as_failure_nonzero [simp]: "exit_code (as_failure E msg) \<noteq> 0"
  by (simp add: as_failure_def failure_of_error_def classify_nonzero)

lemma fails_nonzero_pure [intro]:
  "fails_nonzero (sret a)"
  "exit_code f \<noteq> 0 \<Longrightarrow> fails_nonzero (sfail f)"
  "exit_code f \<noteq> 0 \<Longrightarrow> fails_nonzero (sguard ok f)"
  by (auto simp: fails_nonzero_def split: if_splits)

lemma fails_nonzero_converted [intro]:
  "fails_nonzero (slift (anyhow E r))"
  "fails_nonzero (over_ssh E m)"
proof -
  show "fails_nonzero (slift (anyhow E r))" by (cases r) (auto simp: fails_nonzero_def anyhow_def)
  show "fails_nonzero (over_ssh E m)"
    unfolding fails_nonzero_def over_ssh_def szoom_def Let_def
    by (auto split: prod.splits)
      (metis as_failure_nonzero map_sum.simps(1) map_sum.simps(2) sum.exhaust sum.inject(1) sum.distinct(1))
qed

lemma fails_nonzero_bind [intro]:
  "fails_nonzero m \<Longrightarrow> (\<And>a. fails_nonzero (f a)) \<Longrightarrow> fails_nonzero (sbind m f)"
  unfolding fails_nonzero_def sbind_Inl_iff by blast

lemma require_features_nonzero: "fails_nonzero (slift (require_features b required))"
proof -
  have "require_features b required = Inl f \<Longrightarrow> exit_code f \<noteq> 0" for f
    unfolding require_features_def
    by (induction required)
      (auto simp: rbind_Inl_iff ensure_feature_def PROTOCOL_INCOMPATIBLE_def split: if_splits prod.splits)
  then show ?thesis by (auto simp: fails_nonzero_def)
qed

lemma fails_nonzero_scatch [intro]: "fails_nonzero (scatch m)"
  by (simp add: fails_nonzero_def scatch_def)

lemma file_verdict_nonzero: "fails_nonzero (file_verdict S fallback i)"
  by (cases "(S, fallback, i)" rule: file_verdict.cases) (auto simp: fallback_exit_def)

lemma file_session_nonzero: "fails_nonzero (run_file_session S fallback inputs)"
  unfolding run_file_session_def file_loop.first_decides[OF undecided_start]
  by (auto simp: file_verdict_nonzero split: option.splits)

lemma open_connection_nonzero: "fails_nonzero (open_connection E opts t as req b)"
  unfolding open_connection_def using require_features_nonzero by auto

lemma fallback_return_nonzero: "fails_nonzero (fallback_return E fb)"
  unfolding fallback_return_def by auto

lemma send_file_nonzero: "fails_nonzero (send_file_to E opts local_path content ssh_target remote_path checksum)"
  unfolding send_file_to_def Let_def
  by (auto intro!: fails_nonzero_bind fails_nonzero_pure fails_nonzero_converted file_session_nonzero open_connection_nonzero fallback_return_nonzero
      split: candidate.splits sum.splits prod.splits)

lemma status_failure_nonzero: "exit_code (status_failure m st) \<noteq> 0"
  by (cases st) (simp_all add: status_failure_def Let_def INTEGRITY_FAILURE_def CONFLICT_REFUSAL_def CANCELLED_def GENERAL_ERROR_def)

lemma verdict_zero:
  assumes "file_verdict S fallback i log = (Inr p, log')" "exit_status (Inr p) = Some 0"
  shows "i = FromPeer (TransferComplete Completed) \<or> (\<exists>rc. fallback log = (Inr rc, log'))"
  using assms
  by (cases "(S, fallback, i)" rule: file_verdict.cases)
    (auto simp: failed_exit_def fallback_exit_def start_failed_def user_cancelled_def CANCELLED_def sbind_def scatch_def prod_eq_iff
       classify_nonzero status_failure_nonzero split: if_splits sum.splits prod.splits)

lemma session_zero:
  assumes "run_file_session S fallback inputs log = (Inr p, log')" "exit_status (Inr p) = Some 0"
  shows "find (file_deciding S) inputs = Some (FromPeer (TransferComplete Completed)) \<or> (\<exists>rc. fallback log = (Inr rc, log'))"
  using assms verdict_zero[of S fallback _ log p log']
  unfolding run_file_session_def file_loop.first_decides[OF undecided_start]
  by (auto split: option.splits)

lemma over_ssh_Inr: "over_ssh E m log = (Inr a, log') \<longleftrightarrow> m log = (Inr a, log')"
  by (cases "m log"; cases "fst (m log)") (auto simp: over_ssh_def szoom_def)

lemma fallback_return_ok:
  assumes "fallback_return E fallback log = (Inr p, log')"
  shows "\<exists>rc. fallback log = (Inr rc, log')"
  using assms by (auto simp: fallback_return_def sbind_Inr_iff over_ssh_Inr)

lemma open_connection_ok:
  assumes "open_connection E opts t as req bnd log = (Inr (Candidate (Inr (c, label))), log')"
  shows "\<exists>b addr from_addr. bootstrap_remote_worker (boot_of E) (target_of opts t) as log = (Inr b, log')
    \<and> dial E (boot_thumbprint b) addr from_addr = Inr c"
  using assms chosen_candidate_allowed[of opts "dial E (boot_thumbprint _)"]
  by (auto simp: open_connection_def sbind_Inr_iff over_ssh_Inr) (metis chosen_candidate_allowed)+

text \<open>What the peer reported on the connection \<open>c\<close>, before anything else could end the session.\<close>

definition reported_complete :: "'c cli_env \<Rightarrow> 'c \<Rightarrow> bool" where
  "reported_complete E c \<longleftrightarrow>
     (\<exists>S. commands_open S = takes_commands E
        \<and> find (file_deciding S) (session_events E c) = Some (FromPeer (TransferComplete Completed)))"

definition pinned_connection :: "'c cli_env \<Rightarrow> OutputOptions \<Rightarrow> string \<Rightarrow> 'c \<Rightarrow> bool" where
  "pinned_connection E opts t c \<longleftrightarrow>
     (\<exists>as l b l' addr from_addr. bootstrap_remote_worker (boot_of E) (target_of opts t) as l = (Inr b, l')
        \<and> dial E (boot_thumbprint b) addr from_addr = Inr c)"

lemma send_file_success:
  assumes run: "send_file_to E opts local_path content t remote_path ck log = (Inr p, log')"
    and zero: "exit_status (Inr p) = Some 0"
  shows "delivered_over_ssh (boot_of E) (disk E) (target_of opts t) local_path remote_path
       (utf8_lossy (case file_name local_path of Some n \<Rightarrow> n | None \<Rightarrow> [])) log'
    \<or> (\<exists>c. pinned_connection E opts t c \<and> reported_complete E c)"
proof -
  let ?name = "utf8_lossy (case file_name local_path of Some n \<Rightarrow> n | None \<Rightarrow> [])"
  let ?fallback = "fallback_op E opts t local_path remote_path ?name ck"
  have delivered: ?thesis if "?fallback l = (Inr rc, log')" for l rc
    using fallback_delivers that unfolding fallback_op_def by blast
  show ?thesis
  proof (cases "transport opts = Ssh")
    case True
    then have "fallback_return E ?fallback log = (Inr p, log')"
      using run unfolding send_file_to_def Let_def by (auto simp: sbind_Inr_iff)
    then show ?thesis using fallback_return_ok delivered by blast
  next
    case False
    define S where "S = (\<lambda>label. \<lparr>sent_path = local_path, sent_name = ?name, sent_size = length content,
      sent_label = label, sent_checksum = ck, commands_open = takes_commands E, session_opts = opts,
      session_tbl = boot_tbl (boot_of E)\<rparr>)"
    have S: "commands_open (S label) = takes_commands E" for label by (simp add: S_def)
    from False run obtain as req bnd cand l' where opened: "open_connection E opts t as req bnd log = (Inr cand, l')"
      and rest: "(case cand of
          Candidate (Inr (c, label)) \<Rightarrow> run_file_session (S label) ?fallback (session_events E c)
        | Candidate (Inl e) \<Rightarrow> if transport opts = Auto then fallback_return E ?fallback else sfail (as_failure E e)
        | CandidatePanic \<Rightarrow> sret Panics
        | StillRacing \<Rightarrow> sret Running) l' = (Inr p, log')"
      unfolding send_file_to_def Let_def S_def
      by (auto simp: sbind_Inr_iff split del: if_split split: prod.splits)
    show ?thesis
    proof (cases cand)
      case (Candidate x)
      show ?thesis
      proof (cases x)
        case (Inl e)
        then have "fallback_return E ?fallback l' = (Inr p, log')"
          using rest Candidate by (auto split: if_splits)
        then show ?thesis using fallback_return_ok delivered by blast
      next
        case (Inr y)
        obtain c label where y: "y = (c, label)" by (cases y)
        have "run_file_session (S label) ?fallback (session_events E c) l' = (Inr p, log')"
          using rest Candidate Inr y by simp
        from session_zero[OF this zero] open_connection_ok[of E opts t as req bnd log c label l'] opened S
        show ?thesis
          using delivered Candidate Inr y unfolding pinned_connection_def reported_complete_def by blast
      qed
    qed (use rest zero in auto)
  qed
qed

section \<open>Properties\<close>

text \<open>
  C7: The client reports success only for a delivered file. When the transfer of a file ends with exit status 0,
  either the first deciding event of a connection, dialled with the thumbprint that the started
  worker announced over \<open>ssh\<close>, was the report of completion, or the SSH fallback carried exactly
  the bytes of the file to the remote command and that command succeeded.
\<close>

theorem success_means_delivered:
  assumes "run_file_transfer_cli E args opts log = (res, log')" "exit_status res = Some 0"
    and "fs_metadata (disk E) (args ! 0) = Inr (File content)"
  shows "\<exists>ssh_target remote_path. split_once (CHR '':'') (args ! 1) = Some (ssh_target, remote_path)
    \<and> (delivered_over_ssh (boot_of E) (disk E) (target_of opts ssh_target) (args ! 0) remote_path
         (utf8_lossy (case file_name (args ! 0) of Some n \<Rightarrow> n | None \<Rightarrow> [])) log'
       \<or> (\<exists>c. pinned_connection E opts ssh_target c \<and> reported_complete E c))"
proof -
  have nonzero: "exit_code (new_failure INVALID_INVOCATION m) \<noteq> 0" for m
    by (simp add: INVALID_INVOCATION_def)
  from assms obtain ssh_target remote_path where target: "split_once (CHR '':'') (args ! 1) = Some (ssh_target, remote_path)"
    and run: "send_file_to E opts (args ! 0) content ssh_target remote_path (checksum_flag args) log = (res, log')"
    using nonzero
    by (auto simp: run_file_transfer_cli_def Let_def sbind_def split: option.splits if_splits)
  have "\<exists>p. res = Inr p"
    using run assms(2) send_file_nonzero unfolding fails_nonzero_def by (cases res) force+
  then show ?thesis using send_file_success run assms(2) target by blast
qed

definition demo_cli :: "nat cli_env" where
  "demo_cli = \<lparr>boot_of = demo_boot, io_message = (\<lambda>_. []), cert_message = (\<lambda>_. []), pki_of = demo_pki,
     disk = demo_local, client_identity = Inr ''AB'', persistent_identity = (\<lambda>_. Inr ''AB''),
     config_home = None, home_dir = None, discovery = (\<lambda>_. Inl []), stun_variable = None, compiled_stun = None,
     unused_port = Inr 1, addresses = demo_addresses, resolver = (\<lambda>_. None), dial = (\<lambda>_ _ _. Inl []),
     candidate_order = [], session_events = (\<lambda>_. []), direct_events = (\<lambda>_ _. []), takes_commands = True,
     directory_exchange = (\<lambda>_ _ _. Inl []), pipe_exchange = (\<lambda>_ _. Inl []), parse_pipe = (\<lambda>_. Inl [])\<rparr>"

definition demo_ssh_options :: OutputOptions where
  "demo_ssh_options = no_options\<lparr>transport := Ssh, json_output := True\<rparr>"

lemma demo_transfer_zero:
  "exit_status (fst (run_file_transfer_cli demo_cli [''/a'', ''u@h:in'', ''--checksum''] demo_ssh_options [])) = Some 0"
proof -
  obtain rc log where run: "run_ssh_fallback demo_boot (\<lambda>_. []) demo_local demo_target ''/a'' ''in'' ''a'' True True [] = (Inr rc, log)"
    using demo_fallback_ok
    by (cases "run_ssh_fallback demo_boot (\<lambda>_. []) demo_local demo_target ''/a'' ''in'' ''a'' True True []") (auto simp: is_ok_iff)
  have e: "fs_metadata demo_local ''/a'' = Inr (File [7])" "split_once (CHR '':'') ''u@h:in'' = Some (''u@h'', ''in'')"
    "file_name ''/a'' = Some ''a''" "utf8_lossy ''a'' = ''a''"
    by code_simp+
  have t: "target_of demo_ssh_options ''u@h'' = demo_target"
    by (simp add: target_of_def demo_ssh_options_def no_options_def demo_target_def)
  have f: "fallback_op demo_cli demo_ssh_options ''u@h'' ''/a'' ''in'' ''a'' True [] = (Inr rc, log)"
    unfolding fallback_op_def t using run by (simp add: demo_cli_def demo_ssh_options_def)
  have i: "client_identity demo_cli = Inr ''AB''" "disk demo_cli = demo_local" by (simp_all add: demo_cli_def)
  have s: "transport demo_ssh_options = Ssh" by (simp add: demo_ssh_options_def)
  have "send_file_to demo_cli demo_ssh_options ''/a'' [7] ''u@h'' ''in'' True []
      = fallback_return demo_cli (fallback_op demo_cli demo_ssh_options ''u@h'' ''/a'' ''in'' ''a'' True) []"
    by (simp add: send_file_to_def Let_def e s i sbind_def anyhow_def del: utf8_lossy.simps)
  moreover have "fst (fallback_return demo_cli (fallback_op demo_cli demo_ssh_options ''u@h'' ''/a'' ''in'' ''a'' True) [])
      = Inr (ReturnsOk (case rc of None \<Rightarrow> [] | Some r \<Rightarrow> [CompletedReceipt r]))"
    using f by (simp add: fallback_return_def sbind_def over_ssh_def szoom_def)
  ultimately show ?thesis
    by (simp add: run_file_transfer_cli_def Let_def sbind_def e i checksum_flag_def)
qed

theorem success_means_delivered_witness:
  "exit_status (fst (run_file_transfer_cli demo_cli [''/a'', ''u@h:in'', ''--checksum''] demo_ssh_options [])) = Some 0
   \<and> (\<exists>ssh_target remote_path. split_once (CHR '':'') ''u@h:in'' = Some (ssh_target, remote_path))"
proof -
  obtain res log where run: "run_file_transfer_cli demo_cli [''/a'', ''u@h:in'', ''--checksum''] demo_ssh_options [] = (res, log)"
    by (cases "run_file_transfer_cli demo_cli [''/a'', ''u@h:in'', ''--checksum''] demo_ssh_options []") auto
  then have z: "exit_status res = Some 0" using demo_transfer_zero by simp
  have m: "fs_metadata (disk demo_cli) ([''/a'', ''u@h:in'', ''--checksum''] ! 0) = Inr (File [7])"
    unfolding demo_cli_def by code_simp
  show ?thesis using success_means_delivered[OF run z m] run z by auto
qed

end
