(* ===== verification/Cert_Windows.thy ===== *)
theory Cert_Windows
  imports Cert
begin

text \<open>
  The identity of Windows (\<open>cert.rs\<close>, the \<open>cfg(windows)\<close> functions): the certificate and its key
  live in the certificate store, the identity directory holds only the thumbprint. The store is
  an abstract state; PowerShell, which changes it, and MsQuic, which looks a certificate up by its
  hash, are parameters. The second part models the two rustls configurations.
\<close>

section \<open>Hexadecimal bytes\<close>

datatype win_error = Win cert_error | BadHex | OutOfText | NoPowerShell | PowerShellFailed | NoLocalAppData

definition hex_value :: "char \<Rightarrow> nat option" where
  "hex_value c =
     (if is_ascii_digit c then Some (code c - 48)
      else if 65 \<le> code c \<and> code c \<le> 70 then Some (code c - 55)
      else if 97 \<le> code c \<and> code c \<le> 102 then Some (code c - 87)
      else None)"

fun hex_digits :: "nat \<Rightarrow> string \<Rightarrow> nat option" where
  "hex_digits acc [] = Some acc"
| "hex_digits acc (c # cs) =
     Option.bind (hex_value c) (\<lambda>d.
       if acc * 16 + d < 256 then hex_digits (acc * 16 + d) cs else None)"

text \<open>\<open>u8::from_str_radix(_, 16)\<close>, which takes a leading plus sign.\<close>

definition u8_from_hex :: "string \<Rightarrow> byte option" where
  "u8_from_hex s =
     (case s of
        [] \<Rightarrow> None
      | c # cs \<Rightarrow>
          map_option word_of_nat
            (if c = CHR ''+'' then (if cs = [] then None else hex_digits 0 cs) else hex_digits 0 s))"

text \<open>
  The loop of \<open>thumbprint_bytes\<close>; a slice beyond the text panics (\<open>OutOfText\<close>). The texts it is
  called on are ASCII, so no slice cuts a character.
\<close>

fun hex_pairs :: "nat \<Rightarrow> string \<Rightarrow> win_error + byte list" where
  "hex_pairs 0 s = Inr []"
| "hex_pairs (Suc n) s =
     (if length s < 2 then Inl OutOfText
      else rbind (ok_or BadHex (u8_from_hex (take 2 s))) (\<lambda>b.
           rbind (hex_pairs n (drop 2 s)) (\<lambda>bs. Inr (b # bs))))"

definition thumbprint_bytes :: "string \<Rightarrow> win_error + byte list" where
  "thumbprint_bytes thumbprint = hex_pairs 20 thumbprint"

section \<open>The identity\<close>

record 's win_state =
  disk :: fsys
  store :: 's

text \<open>What a finished PowerShell gives: whether it succeeded, and its standard output.\<close>

type_synonym 's powershell = "'s \<Rightarrow> (bool \<times> byte list) option \<times> 's"

definition win_disk :: "'a fs_op \<Rightarrow> ('s win_state, win_error, 'a) op" where
  "win_disk m = szoom disk (\<lambda>d w. w\<lparr>disk := d\<rparr>) (Win \<circ> CertIo) m"

definition create_windows_store_identity ::
    "pki \<Rightarrow> 's powershell \<Rightarrow> ('s win_state, win_error, string) op" where
  "create_windows_store_identity P ps =
     sbind (\<lambda>w. let (out, s) = ps (store w) in (Inr out, w\<lparr>store := s\<rparr>)) (\<lambda>out.
     case out of
       None \<Rightarrow> sfail NoPowerShell
     | Some (success, stdout) \<Rightarrow>
         if \<not> success then sfail PowerShellFailed
         else slift (map_sum Win id (normalize_thumbprint P (trim (utf8_lossy (string_of_bytes stdout))))))"

text \<open>A stored thumbprint is used only while the store still has its certificate.\<close>

definition stored_windows_identity ::
    "pki \<Rightarrow> ('s \<Rightarrow> byte list \<Rightarrow> 'cfg option) \<Rightarrow> string
      \<Rightarrow> ('s win_state, win_error, (string \<times> 'cfg) option) op" where
  "stored_windows_identity P mk thumbprint_path =
     sbind (sget (\<lambda>w. path_is_file (disk w) thumbprint_path)) (\<lambda>present.
     if present then
       sbind (sget (\<lambda>w. rbind (read_to_string (disk w) thumbprint_path) (normalize_thumbprint P))) (\<lambda>n.
       sbind (slift (map_sum Win id n)) (\<lambda>thumbprint.
       sbind (slift (thumbprint_bytes thumbprint)) (\<lambda>bs.
       sget (\<lambda>w. map_option (Pair thumbprint) (mk (store w) bs)))))
     else sret None)"

definition new_windows_identity ::
    "pki \<Rightarrow> 's powershell \<Rightarrow> ('s \<Rightarrow> byte list \<Rightarrow> 'cfg option) \<Rightarrow> string
      \<Rightarrow> ('s win_state, win_error, string \<times> 'cfg) op" where
  "new_windows_identity P ps mk thumbprint_path =
     sbind (create_windows_store_identity P ps) (\<lambda>thumbprint.
     sbind (win_disk (fs_write thumbprint_path (as_bytes (thumbprint @ [CHR 0x0A])))) (\<lambda>_.
     sbind (slift (thumbprint_bytes thumbprint)) (\<lambda>bs.
     sbind (sget (\<lambda>w. mk (store w) bs)) (\<lambda>config.
     case config of
       None \<Rightarrow> sfail (Win ConfigFailed)
     | Some c \<Rightarrow> sret (thumbprint, c)))))"

definition build_windows_quic_config ::
    "pki \<Rightarrow> 's powershell \<Rightarrow> ('s \<Rightarrow> byte list \<Rightarrow> 'cfg option) \<Rightarrow> string
      \<Rightarrow> ('s win_state, win_error, string \<times> 'cfg) op" where
  "build_windows_quic_config P ps mk identity_dir =
     (let thumbprint_path = path_push identity_dir ''thumbprint'' in
      sbind (win_disk (create_dir_all identity_dir)) (\<lambda>_.
      sbind (stored_windows_identity P mk thumbprint_path) (\<lambda>stored.
      case stored of
        Some found \<Rightarrow> sret found
      | None \<Rightarrow> new_windows_identity P ps mk thumbprint_path)))"

definition default_windows_identity_dir :: "string option \<Rightarrow> string \<Rightarrow> win_error + string" where
  "default_windows_identity_dir local_app_data role =
     rbind (ok_or NoLocalAppData local_app_data) (\<lambda>base.
     Inr (path_push (path_push base ''quiczilla'') role))"

section \<open>The rustls configurations\<close>

text \<open>Whether rustls accepts a certificate with its key is a parameter.\<close>

record 'k client_config =
  server_pin_text :: string
  client_identity :: "byte list \<times> 'k"
  client_alpn :: "string list"

record 'k server_config =
  client_pins :: client_verifier
  server_identity :: "byte list \<times> 'k"
  server_alpn :: "string list"

definition ALPN_PROTOCOL :: string where "ALPN_PROTOCOL = ''fileShare''"

definition build_client_config ::
    "(byte list \<Rightarrow> 'k \<Rightarrow> bool) \<Rightarrow> byte list \<Rightarrow> 'k \<Rightarrow> string \<Rightarrow> cert_error + 'k client_config" where
  "build_client_config usable own_cert own_key expected =
     (if usable own_cert own_key
      then Inr \<lparr>server_pin_text = expected, client_identity = (own_cert, own_key), client_alpn = [ALPN_PROTOCOL]\<rparr>
      else Inl ConfigFailed)"

definition build_server_config_multi ::
    "(byte list \<Rightarrow> 'k \<Rightarrow> bool) \<Rightarrow> byte list \<Rightarrow> 'k \<Rightarrow> string list \<Rightarrow> cert_error + 'k server_config" where
  "build_server_config_multi usable own_cert own_key allowed =
     (if usable own_cert own_key
      then Inr \<lparr>client_pins = new_multi allowed, server_identity = (own_cert, own_key), server_alpn = [ALPN_PROTOCOL]\<rparr>
      else Inl ConfigFailed)"

definition build_server_config ::
    "(byte list \<Rightarrow> 'k \<Rightarrow> bool) \<Rightarrow> byte list \<Rightarrow> 'k \<Rightarrow> string \<Rightarrow> cert_error + 'k server_config" where
  "build_server_config usable own_cert own_key expected =
     build_server_config_multi usable own_cert own_key [expected]"

text \<open>
  The answers of the verifiers to rustls that do not depend on the certificate; the signatures of the
  handshake are checked by rustls itself.
\<close>

datatype SignatureScheme =
  ECDSA_NISTP256_SHA256 | ECDSA_NISTP384_SHA384 | ED25519 | RSA_PKCS1_SHA256 | RSA_PSS_SHA256

definition supported_verify_schemes :: "SignatureScheme list" where
  "supported_verify_schemes =
     [ECDSA_NISTP256_SHA256, ECDSA_NISTP384_SHA384, ED25519, RSA_PKCS1_SHA256, RSA_PSS_SHA256]"

definition client_supported_verify_schemes :: "SignatureScheme list" where
  "client_supported_verify_schemes = supported_verify_schemes"

definition offer_client_auth :: bool where "offer_client_auth = True"

definition client_auth_mandatory :: bool where "client_auth_mandatory = True"

text \<open>
  The PKCS12 identity: \<open>rcgen\<close> makes a certificate with its key from the parameters, and \<open>pfx\<close> is
  what the \<open>p12\<close> crate makes of it with a password and a friendly name.
\<close>

datatype ExtendedKeyUsagePurpose = ServerAuth | ClientAuth

record CertificateParams =
  subject_alt_names :: "string list"
  not_before :: "int \<times> nat \<times> nat"
  not_after :: "int \<times> nat \<times> nat"
  extended_key_usages :: "ExtendedKeyUsagePurpose list"

definition msquic_params :: CertificateParams where
  "msquic_params =
     \<lparr>subject_alt_names = [''quicshare'', ''192.0.2.44'', ''localhost'', ''127.0.0.1''],
      not_before = (2020, 1, 1), not_after = (2120, 1, 1),
      extended_key_usages = [ServerAuth, ClientAuth]\<rparr>"

definition generate_msquic_pkcs12 ::
    "pki \<Rightarrow> (CertificateParams \<Rightarrow> keypair option) \<Rightarrow> (keypair \<Rightarrow> string \<Rightarrow> string \<Rightarrow> byte list option)
      \<Rightarrow> string \<Rightarrow> cert_error + (string \<times> byte list)" where
  "generate_msquic_pkcs12 P rcgen pfx password =
     rbind (ok_or GenerateFailed (rcgen msquic_params)) (\<lambda>k.
     rbind (ok_or GenerateFailed (pfx k password ''quicshare'')) (\<lambda>der.
     Inr (compute_thumbprint P (cert_der k), der)))"

section \<open>Facts about hexadecimal bytes\<close>

definition upper_digit :: "nat \<Rightarrow> char" where
  "upper_digit n = char_of (if n < 10 then 48 + n else 55 + n)"

definition upper_hex :: "byte list \<Rightarrow> string" where
  "upper_hex bs = concat (map (\<lambda>b. [upper_digit (unat b div 16), upper_digit (unat b mod 16)]) bs)"

lemma upper_char:
  assumes "is_ascii_hexdigit c" "ascii_upper c = c"
  obtains d where "hex_value c = Some d" "d < 16" "upper_digit d = c" "c \<noteq> CHR ''+''"
proof -
  have u: "\<not> (97 \<le> code c \<and> code c \<le> 102)"
  proof
    assume l: "97 \<le> code c \<and> code c \<le> 102"
    then have "code c - 32 < 256" by linarith
    then have "code (ascii_upper c) = code c - 32" using l by (simp add: ascii_upper_def code_char_of)
    then have "code c = code c - 32" using assms(2) by simp
    then show False using l by linarith
  qed
  have inv: "char_of (code c) = c" by (simp add: code_def)
  have p: "c \<noteq> CHR ''+''" using assms(1) by (auto simp: is_ascii_hexdigit_def is_ascii_digit_def code_def)
  show thesis
  proof (cases "is_ascii_digit c")
    case True
    then have "hex_value c = Some (code c - 48)" "code c - 48 < 16" "upper_digit (code c - 48) = c"
      using inv by (auto simp: hex_value_def is_ascii_digit_def upper_digit_def)
    then show thesis using p that by blast
  next
    case False
    then have r: "65 \<le> code c" "code c \<le> 70" using assms(1) u by (auto simp: is_ascii_hexdigit_def)
    then have "hex_value c = Some (code c - 55)" "code c - 55 < 16" "upper_digit (code c - 55) = c"
      using inv False by (auto simp: hex_value_def upper_digit_def)
    then show thesis using p that by blast
  qed
qed

lemma hex_pairs_upper:
  "length s = 2 * n \<Longrightarrow> list_all (\<lambda>c. is_ascii_hexdigit c \<and> ascii_upper c = c) s \<Longrightarrow>
     \<exists>bs. hex_pairs n s = Inr bs \<and> length bs = n \<and> upper_hex bs = s"
proof (induction n arbitrary: s)
  case 0
  then show ?case by (simp add: upper_hex_def)
next
  case (Suc n)
  then obtain x y t where s: "s = x # y # t" by (cases s; cases "tl s") auto
  obtain d where d: "hex_value x = Some d" "d < 16" "upper_digit d = x" "x \<noteq> CHR ''+''"
    using upper_char[of x] Suc.prems(2) s by auto
  obtain e where e: "hex_value y = Some e" "e < 16" "upper_digit e = y"
    using upper_char[of y] Suc.prems(2) s by auto
  have b: "d * 16 + e < 256" using d(2) e(2) by linarith
  then have u: "unat (word_of_nat (d * 16 + e) :: byte) = d * 16 + e" by (intro unat_word_of_nat) simp
  have "u8_from_hex [x, y] = Some (word_of_nat (d * 16 + e))"
    using d e b by (simp add: u8_from_hex_def)
  moreover obtain bs where "hex_pairs n t = Inr bs" "length bs = n" "upper_hex bs = t"
    using Suc.IH[of t] Suc.prems s by auto
  ultimately show ?case
    using d e u
    by (intro exI[of _ "word_of_nat (d * 16 + e) # bs"]) (simp add: s upper_hex_def ok_or_def)
qed

lemma thumbprint_bytes_form:
  "thumbprint_form t \<Longrightarrow> \<exists>bs. thumbprint_bytes t = Inr bs \<and> length bs = 20 \<and> upper_hex bs = t"
  using hex_pairs_upper[of t 20] by (simp add: thumbprint_bytes_def thumbprint_form_def)

section \<open>Properties\<close>

lemma win_disk_ok: "m (disk w) = (Inr a, d) \<Longrightarrow> win_disk m w = (Inr a, w\<lparr>disk := d\<rparr>)"
  by (simp add: win_disk_def szoom_eq)

lemma map_sum_Inr [simp]: "map_sum f id r = Inr a \<longleftrightarrow> r = Inr a"
  by (cases r) auto

lemma existing_dir: "dir_at (disk w) dir B \<Longrightarrow> win_disk (create_dir_all dir) w = (Inr (), w)"
  using lift_io_existing[of "disk w" dir B]
  by (auto simp: lift_io_def win_disk_def szoom_def Let_def split: prod.splits)

text \<open>A start that finds a stored thumbprint whose certificate the store still has.\<close>

lemma stored_identity_iff:
  "stored_windows_identity P mk path w = (Inr (Some (t, c)), w') \<longleftrightarrow>
     path_is_file (disk w) path
     \<and> rbind (read_to_string (disk w) path) (normalize_thumbprint P) = Inr t
     \<and> (\<exists>bs. thumbprint_bytes t = Inr bs \<and> mk (store w) bs = Some c) \<and> w' = w"
  by (auto simp: stored_windows_identity_def sbind_Inr_iff)

lemma stored_identity_same: "stored_windows_identity P mk path w = (r, w') \<Longrightarrow> w' = w"
  by (auto simp: stored_windows_identity_def sbind_def split: if_splits sum.splits prod.splits)

lemma build_windows_stored:
  assumes "dir_at (disk w) dir B"
    and "stored_windows_identity P mk (path_push dir ''thumbprint'') w = (Inr (Some (t, c)), w)"
  shows "build_windows_quic_config P ps mk dir w = (Inr (t, c), w)"
  using assms by (simp add: build_windows_quic_config_def Let_def sbind_def existing_dir)

lemma new_identity_Inr:
  assumes "new_windows_identity P ps mk path w = (Inr (t, c), w')"
  obtains bs s raw where "normalize_thumbprint P raw = Inr t" "thumbprint_bytes t = Inr bs"
    "win_disk (fs_write path (as_bytes (t @ [CHR 0x0A]))) (w\<lparr>store := s\<rparr>) = (Inr (), w')"
    "mk (store w') bs = Some c"
proof -
  from assms obtain w1 bs where c: "create_windows_store_identity P ps w = (Inr t, w1)"
    and rest: "win_disk (fs_write path (as_bytes (t @ [CHR 0x0A]))) w1 = (Inr (), w')"
      "thumbprint_bytes t = Inr bs" "mk (store w') bs = Some c"
    by (auto simp: new_windows_identity_def sbind_Inr_iff split: option.splits)
  obtain s raw where "w1 = w\<lparr>store := s\<rparr>" "normalize_thumbprint P raw = Inr t"
    using c by (auto simp: create_windows_store_identity_def sbind_Inr_iff Let_def
        split: prod.splits option.splits if_splits)
  then show thesis using that rest by blast
qed

text \<open>
  C35: The identity of Windows is stable, and its thumbprint text names the certificate. Whenever a
  start in an existing directory succeeds, the announced thumbprint has the normal form, the
  configuration was made from the twenty bytes that the thumbprint spells, and a later start gives
  the same answer, changes nothing on the disk or in the store, and does not depend on PowerShell.
\<close>

theorem windows_identity_is_stable:
  assumes "pki_laws P" "dir_at (disk w) dir B" "writable_slot (disk w) (B @ [''thumbprint''])"
    and "build_windows_quic_config P ps mk dir w = (Inr (t, c), w')"
  shows "thumbprint_form t
    \<and> (\<exists>bs. thumbprint_bytes t = Inr bs \<and> length bs = 20 \<and> upper_hex bs = t \<and> mk (store w') bs = Some c)
    \<and> build_windows_quic_config P ps' mk dir w' = (Inr (t, c), w')"
proof (cases "\<exists>w1. stored_windows_identity P mk (path_push dir ''thumbprint'') w = (Inr (Some (t, c)), w1)")
  case True
  then have st: "stored_windows_identity P mk (path_push dir ''thumbprint'') w = (Inr (Some (t, c)), w)"
    using stored_identity_same by blast
  have "w' = w" using assms(4) build_windows_stored[OF assms(2) st] by simp
  moreover obtain raw bs where raw: "normalize_thumbprint P raw = Inr t" "thumbprint_bytes t = Inr bs"
    "mk (store w) bs = Some c"
    using st by (auto simp: stored_identity_iff rbind_Inr_iff)
  moreover have "thumbprint_form t" by (rule normalize_thumbprint_form[OF assms(1) raw(1)])
  ultimately show ?thesis
    using thumbprint_bytes_form[of t] build_windows_stored[OF assms(2) st] by auto
next
  case False
  let ?k = "B @ [''thumbprint'']" and ?line = "as_bytes (t @ [CHR 0x0A])" and ?p = "path_push dir ''thumbprint''"
  have "new_windows_identity P ps mk ?p w = (Inr (t, c), w')"
    using assms(4) False
    by (auto simp: build_windows_quic_config_def Let_def sbind_Inr_iff existing_dir[OF assms(2)]
        dest: stored_identity_same split: option.splits)
  then obtain bs s raw where created: "normalize_thumbprint P raw = Inr t" "thumbprint_bytes t = Inr bs"
    "win_disk (fs_write ?p ?line) (w\<lparr>store := s\<rparr>) = (Inr (), w')" "mk (store w') bs = Some c"
    by (rule new_identity_Inr)
  have t: "thumbprint_form t" by (rule normalize_thumbprint_form[OF assms(1) created(1)])
  have slot: "\<forall>x. nodes (disk w) ?k \<noteq> Some (Symlink x)" "nodes (disk w) ?k \<noteq> Some Dir"
    using assms(3) by (auto simp: writable_slot_iff)
  have w': "disk w' = set_node ?k (Some (File ?line)) (disk w)"
    using created(3) fs_write_child[OF assms(2) identity_names(3) slot, of ?line]
      win_disk_ok[of "fs_write ?p ?line" "w\<lparr>store := s\<rparr>"] by auto
  then have d: "dir_at (disk w') dir B" using dir_at_write[OF assms(2) slot] by simp
  have n: "nodes (disk w') ?k = Some (File ?line)" by (simp add: w' set_node_def)
  have "stored_windows_identity P mk ?p w' = (Inr (Some (t, c)), w')"
    using thumbprint_line[OF t] read_to_string_child[OF d identity_names(3) n]
      path_is_file_child[OF d identity_names(3)] n created(2,4)
    by (auto simp: stored_identity_iff)
  then show ?thesis
    using build_windows_stored[OF d] thumbprint_bytes_form[OF t] created(2,4) t by auto
qed

definition demo_stored :: string where
  "demo_stored = replicate 40 (CHR ''0'')"

definition demo_windows :: "unit win_state" where
  "demo_windows = \<lparr>disk = \<lparr>nodes = [[''id''] \<mapsto> Dir,
       [''id'', ''thumbprint''] \<mapsto> File (as_bytes (demo_stored @ [CHR 0x0A]))], cwd = []\<rparr>, store = ()\<rparr>"

theorem windows_identity_is_stable_witness:
  "thumbprint_form demo_stored
    \<and> (\<exists>bs. thumbprint_bytes demo_stored = Inr bs \<and> length bs = 20 \<and> upper_hex bs = demo_stored)
    \<and> build_windows_quic_config demo_pki (\<lambda>s. (None, s)) (\<lambda>_. Some) ''id'' demo_windows
        = build_windows_quic_config demo_pki (\<lambda>s. (Some (False, []), s)) (\<lambda>_. Some) ''id'' demo_windows"
proof -
  have t: "thumbprint_form demo_stored"
    by (simp add: thumbprint_form_def demo_stored_def list_all_iff is_ascii_hexdigit_def
        is_ascii_digit_def ascii_upper_def code_def)
  obtain bs where bs: "thumbprint_bytes demo_stored = Inr bs" using thumbprint_bytes_form[OF t] by blast
  have c: "components ''id'' = [Normal ''id'']" by (rule components_plain) (simp add: plain_name_def)
  have d: "dir_at (disk demo_windows) ''id'' [''id'']"
    unfolding dir_at_def c by (simp add: demo_windows_def max_symlinks_def node_at_def)
  have n: "nodes (disk demo_windows) ([''id''] @ [''thumbprint'']) = Some (File (as_bytes (demo_stored @ [CHR 0x0A])))"
    by (simp add: demo_windows_def)
  have "stored_windows_identity demo_pki (\<lambda>_. Some) (path_push ''id'' ''thumbprint'') demo_windows
      = (Inr (Some (demo_stored, bs)), demo_windows)"
    using thumbprint_line[OF t] read_to_string_child[OF d identity_names(3) n]
      path_is_file_child[OF d identity_names(3)] n bs
    by (auto simp: stored_identity_iff)
  from build_windows_stored[OF d this]
  have b: "build_windows_quic_config demo_pki ps (\<lambda>_. Some) ''id'' demo_windows
      = (Inr (demo_stored, bs), demo_windows)" for ps .
  have "writable_slot (disk demo_windows) ([''id''] @ [''thumbprint''])" using n by (simp add: writable_slot_iff)
  from windows_identity_is_stable[OF demo_pki_laws d this b, of "\<lambda>s. (Some (False, []), s)"]
  show ?thesis using b by auto
qed

text \<open>
  The two rustls configurations: a client and a server built with each other's pins accept each
  other's certificates exactly when the pins are their thumbprints, and offer the same protocol.
\<close>

lemma rustls_pins:
  assumes "pki_laws P" "thumbprint_form expected" "list_all thumbprint_form allowed"
    and "build_client_config u cert key expected = Inr cc"
    and "build_server_config_multi v cert' key' allowed = Inr sc"
  shows "is_ok (verify_server_cert P (server_pin_text cc) (fst (server_identity sc)))
      \<longleftrightarrow> compute_thumbprint P cert' = expected"
    and "is_ok (verify_client_cert P (client_pins sc) (fst (client_identity cc)))
      \<longleftrightarrow> compute_thumbprint P cert \<in> set allowed"
    and "client_alpn cc = server_alpn sc"
proof -
  note form = compute_thumbprint_form[OF assms(1)]
  have cc: "server_pin_text cc = expected" "client_identity cc = (cert, key)" "client_alpn cc = [ALPN_PROTOCOL]"
    using assms(4) by (auto simp: build_client_config_def split: if_splits)
  have sc: "client_pins sc = new_multi allowed" "server_identity sc = (cert', key')" "server_alpn sc = [ALPN_PROTOCOL]"
    using assms(5) by (auto simp: build_server_config_multi_def split: if_splits)
  show "is_ok (verify_server_cert P (server_pin_text cc) (fst (server_identity sc)))
      \<longleftrightarrow> compute_thumbprint P cert' = expected"
    using server_pin.accepts_exactly[of P cert' expected] form assms(2) by (simp add: cc sc)
  show "is_ok (verify_client_cert P (client_pins sc) (fst (client_identity cc)))
      \<longleftrightarrow> compute_thumbprint P cert \<in> set allowed"
    using client_pin.accepts_exactly[of P cert "new_multi allowed"] form assms(3) by (simp add: cc sc new_multi_def)
  show "client_alpn cc = server_alpn sc" by (simp add: cc sc)
qed

end
