(* ===== verification/Float64.thy ===== *)
theory Float64
  imports Complex_Main "HOL-Library.Log_Nat" Prelude
begin

text \<open>
  The part of Rust's \<open>f64\<close> the program uses for rates and percentages: finite numbers that are
  not negative, in the normal range, as rationals. Every operation rounds its exact result to 53
  bits, ties to even (\<open>fl\<close>). With them, how \<open>format!\<close> prints such a number with a fixed
  number of decimals, and the conversions between \<open>f64\<close>, \<open>u64\<close> and \<open>Duration\<close>.
\<close>

type_synonym f64 = rat

section \<open>Rounding\<close>

definition round_even :: "rat \<Rightarrow> int" where
  "round_even x =
     (let f = \<lfloor>x\<rfloor>; r = x - of_int f in
      if r < 1 / 2 then f else if 1 / 2 < r then f + 1 else if even f then f else f + 1)"

text \<open>The binary exponent of a positive number.\<close>

definition binade :: "rat \<Rightarrow> int" where
  "binade x =
     (let (p, q) = quotient_of x; k = bitlen p - bitlen q in if 2 powi k \<le> x then k else k - 1)"

definition fl :: "rat \<Rightarrow> f64" where
  "fl x =
     (if x \<le> 0 then 0
      else (let e = binade x - 52 in of_int (round_even (x / 2 powi e)) * 2 powi e))"

lemma round_even_le: "x \<le> of_int m \<Longrightarrow> round_even x \<le> m"
proof -
  assume x: "x \<le> of_int m"
  have "\<lfloor>x\<rfloor> \<le> m" using floor_mono[OF x] by simp
  moreover have "x = of_int m" if "\<lfloor>x\<rfloor> = m" using x that of_int_floor_le[of x] by simp
  ultimately show ?thesis by (cases "\<lfloor>x\<rfloor> = m") (auto simp: round_even_def Let_def)
qed

lemma round_even_ge: "of_int m \<le> x \<Longrightarrow> m \<le> round_even x"
  using le_floor_iff[of m x] by (auto simp: round_even_def Let_def)

lemma round_even_near: "\<bar>of_int (round_even x) - x\<bar> \<le> 1 / 2"
proof -
  have "of_int \<lfloor>x\<rfloor> \<le> x" "x < of_int \<lfloor>x\<rfloor> + 1" by linarith+
  then show ?thesis by (auto simp: round_even_def Let_def abs_le_iff)
qed

lemma bitlen_scale:
  assumes "0 < p" shows "2 powi (bitlen p - 1) \<le> (of_int p :: rat)" "of_int p < (2 powi bitlen p :: rat)"
proof -
  have b: "0 < bitlen p" "2 ^ nat (bitlen p - 1) \<le> p" "p < 2 ^ nat (bitlen p)"
    using bitlen_bounds[OF assms] bitlen_eq_zero_iff[of p] bitlen_nonneg[of p] assms by linarith+
  then have "(of_int (2 ^ nat (bitlen p - 1)) :: rat) \<le> of_int p" "(of_int p :: rat) < of_int (2 ^ nat (bitlen p))"
    by (simp_all only: of_int_le_iff of_int_less_iff)
  then show "2 powi (bitlen p - 1) \<le> (of_int p :: rat)" "of_int p < (2 powi bitlen p :: rat)"
    using b(1) by (simp_all add: power_int_def)
qed

lemma binade_bounds:
  assumes "0 < x" shows "2 powi binade x \<le> x" "x < 2 powi (binade x + 1)"
proof -
  obtain p q where pq: "quotient_of x = (p, q)" by (cases "quotient_of x")
  let ?k = "bitlen p - bitlen q"
  have q: "0 < q" and x: "x = of_int p / of_int q"
    using quotient_of_denom_pos[OF pq] quotient_of_div[OF pq] by auto
  then have p: "0 < p" using assms by (simp add: zero_less_divide_iff)
  note P = bitlen_scale[OF p] and Q = bitlen_scale[OF q]
  have "x < 2 powi bitlen p / 2 powi (bitlen q - 1)"
    unfolding x using P Q p q by (intro frac_less) auto
  also have "\<dots> = 2 powi (?k + 1)" by (simp add: power_int_diff power_int_add)
  finally have up: "x < 2 powi (?k + 1)" .
  have "2 powi (?k - 1) = (2 powi (bitlen p - 1) / 2 powi bitlen q :: rat)"
    by (simp add: power_int_diff)
  also have "\<dots> \<le> x"
    unfolding x using P Q p q by (intro frac_le) auto
  finally have lo: "2 powi (?k - 1) \<le> x" .
  show "2 powi binade x \<le> x" "x < 2 powi (binade x + 1)"
    using up lo by (auto simp: binade_def pq Let_def)
qed

lemma fl_nonneg [simp]: "0 \<le> fl x"
proof (cases "x \<le> 0")
  case False
  then have "0 \<le> round_even (x / 2 powi (binade x - 52))" by (intro round_even_ge) simp
  then show ?thesis using False by (simp add: fl_def Let_def)
qed (simp add: fl_def)

lemma round_even_mono:
  assumes "x \<le> y" shows "round_even x \<le> round_even y"
proof (cases "\<lfloor>x\<rfloor> = \<lfloor>y\<rfloor>")
  case True
  then show ?thesis using assms by (auto simp: round_even_def Let_def)
next
  case False
  then have "\<lfloor>x\<rfloor> + 1 \<le> \<lfloor>y\<rfloor>" using floor_mono[OF assms] by linarith
  moreover have "round_even x \<le> \<lfloor>x\<rfloor> + 1" "\<lfloor>y\<rfloor> \<le> round_even y"
    by (simp_all add: round_even_def Let_def)
  ultimately show ?thesis by linarith
qed

lemma fl_binade:
  assumes "0 < x" shows "2 powi binade x \<le> fl x" "fl x \<le> 2 powi (binade x + 1)"
proof -
  let ?u = "2 powi (binade x - 52) :: rat"
  have u: "0 < ?u" by simp
  have p: "2 powi binade x = of_int (2 ^ 52) * ?u" "2 powi (binade x + 1) = of_int (2 ^ 53) * ?u"
    by (simp_all add: power_int_diff power_int_add)
  have "of_int (2 ^ 52) \<le> x / ?u" "x / ?u \<le> of_int (2 ^ 53)"
    using binade_bounds[OF assms] u by (simp_all only: p le_divide_eq divide_le_eq if_True less_imp_le)
  then have "2 ^ 52 \<le> round_even (x / ?u)" "round_even (x / ?u) \<le> 2 ^ 53"
    by (auto intro: round_even_ge round_even_le)
  then have "(of_int (2 ^ 52) :: rat) \<le> of_int (round_even (x / ?u))"
    "(of_int (round_even (x / ?u)) :: rat) \<le> of_int (2 ^ 53)"
    by (simp_all only: of_int_le_iff)
  then show "2 powi binade x \<le> fl x" "fl x \<le> 2 powi (binade x + 1)"
    unfolding p using assms u by (simp_all add: fl_def Let_def mult_right_mono)
qed

lemma fl_mono:
  assumes "x \<le> y" shows "fl x \<le> fl y"
proof (cases "x \<le> 0")
  case False
  then have x: "0 < x" and y: "0 < y" using assms by auto
  show ?thesis
  proof (cases "binade x = binade y")
    case True
    then show ?thesis
      using x y assms by (auto simp: fl_def Let_def intro!: mult_right_mono round_even_mono divide_right_mono)
  next
    case False
    have "\<not> binade y < binade x"
    proof
      assume "binade y < binade x"
      then have "2 powi (binade y + 1) \<le> (2 powi binade x :: rat)"
        by (intro power_int_increasing) auto
      then show False using binade_bounds[OF x] binade_bounds[OF y] assms by linarith
    qed
    then have "2 powi (binade x + 1) \<le> (2 powi binade y :: rat)"
      using False by (intro power_int_increasing) auto
    then show ?thesis using fl_binade[OF x] fl_binade[OF y] by linarith
  qed
next
  case True
  then have "fl x = 0" by (simp add: fl_def)
  then show ?thesis by simp
qed

text \<open>The relative error of one operation.\<close>

lemma fl_error:
  assumes "0 < x" shows "\<bar>fl x - x\<bar> \<le> x / 2 ^ 53"
proof -
  let ?u = "2 powi (binade x - 52) :: rat"
  let ?r = "of_int (round_even (x / ?u)) :: rat"
  have u: "0 < ?u" by simp
  have "fl x - x = (?r - x / ?u) * ?u"
    using assms by (simp add: fl_def Let_def left_diff_distrib)
  then have "\<bar>fl x - x\<bar> = \<bar>?r - x / ?u\<bar> * ?u" using u by (simp add: abs_mult)
  also have "\<dots> \<le> 1 / 2 * ?u" using round_even_near u by (intro mult_right_mono) auto
  also have "\<dots> = 2 powi binade x / 2 ^ 53" by (simp add: power_int_diff)
  also have "\<dots> \<le> x / 2 ^ 53" using binade_bounds[OF assms] by (intro divide_right_mono) auto
  finally show ?thesis .
qed

lemma fl_bounds:
  assumes "0 \<le> x" shows "x / 2 \<le> fl x" "fl x \<le> 2 * x"
proof -
  have "x / 2 \<le> fl x \<and> fl x \<le> 2 * x"
  proof (cases "x = 0")
    case False
    then have x: "0 < x" using assms by simp
    have "x / 2 ^ 53 \<le> x / 2" using x by (intro divide_left_mono) auto
    then show ?thesis using fl_error[OF x] x unfolding abs_le_iff by linarith
  qed (simp add: fl_def)
  then show "x / 2 \<le> fl x" "fl x \<le> 2 * x" by auto
qed

lemma fl_pos: "0 < x \<Longrightarrow> 0 < fl x"
  using fl_bounds(1)[of x] by simp

text \<open>Integers below \<open>2^52\<close> are exact, so rounding does not step over one.\<close>

lemma round_even_int [simp]: "round_even (of_int i) = i"
  by (simp add: round_even_def)

lemma fl_nat:
  assumes "n < 2 ^ 52" shows "fl (of_nat n) = of_nat n"
proof (cases "n = 0")
  case False
  then have x: "0 < (of_nat n :: rat)" by simp
  let ?e = "binade (of_nat n) - 52"
  have "2 powi binade (of_nat n) \<le> (of_nat n :: rat)" by (rule binade_bounds(1)[OF x])
  also have "(of_nat n :: rat) < 2 powi 52"
    using assms by (metis of_nat_less_iff of_nat_numeral of_nat_power power_int_numeral)
  finally have e: "?e < 0" using power_int_le_imp_less_exp[of 2 "binade (of_nat n)" 52] by simp
  then have k: "of_nat n / 2 powi ?e = (of_int (int n * 2 ^ nat (- ?e)) :: rat)"
    by (simp add: power_int_def field_simps)
  have "fl (of_nat n) = of_int (round_even (of_nat n / 2 powi ?e)) * 2 powi ?e"
    using x by (simp add: fl_def Let_def)
  also have "\<dots> = of_nat n / 2 powi ?e * 2 powi ?e" by (simp only: k round_even_int)
  finally show ?thesis by simp
qed (simp add: fl_def)

lemma fl_le_nat:
  "x \<le> of_nat n \<Longrightarrow> n < 2 ^ 52 \<Longrightarrow> fl x \<le> of_nat n"
  using fl_mono[of x "of_nat n"] fl_nat[of n] by simp

section \<open>Conversions and printing\<close>

definition u64_f64 :: "u64 \<Rightarrow> f64" where
  "u64_f64 n = fl (of_nat (unat n))"

text \<open>The cast \<open>as u64\<close> truncates and saturates.\<close>

definition f64_u64 :: "f64 \<Rightarrow> u64" where
  "f64_u64 x = (if 2 ^ 64 \<le> x then - 1 else word_of_int \<lfloor>x\<rfloor>)"

text \<open>A \<open>Duration\<close> is its number of nanoseconds; \<open>from_secs_f64\<close> panics on overflow (\<open>None\<close>).\<close>

type_synonym duration = nat

definition from_millis :: "nat \<Rightarrow> duration" where
  "from_millis ms = ms * 1000000"

definition as_secs :: "duration \<Rightarrow> nat" where
  "as_secs d = d div 1000000000"

definition as_secs_f64 :: "duration \<Rightarrow> f64" where
  "as_secs_f64 d = fl (fl (of_nat (as_secs d)) + fl (of_nat (d mod 1000000000) / 1000000000))"

definition from_secs_f64 :: "f64 \<Rightarrow> duration option" where
  "from_secs_f64 s = (if 2 ^ 64 \<le> s then None else Some (nat (round_even (s * 1000000000))))"

definition pad_left :: "nat \<Rightarrow> char \<Rightarrow> string \<Rightarrow> string" where
  "pad_left n c s = replicate (n - length s) c @ s"

text \<open>\<open>format!\<close> with two decimals, and with none.\<close>

definition fixed2 :: "f64 \<Rightarrow> string" where
  "fixed2 x =
     (let n = nat (round_even (x * 100)) in
      show_nat (n div 100) @ ''.'' @ pad_left 2 (CHR ''0'') (show_nat (n mod 100)))"

definition fixed0 :: "f64 \<Rightarrow> string" where
  "fixed0 x = show_nat (nat (round_even x))"

lemma as_secs_f64_bounds:
  "of_nat d / 4000000000 \<le> as_secs_f64 d" "as_secs_f64 d \<le> of_nat d / 250000000"
proof -
  let ?s = "of_nat (as_secs d) :: rat" and ?n = "of_nat (d mod 1000000000) / 1000000000 :: rat"
  have "of_nat d = (of_nat (as_secs d * 1000000000 + d mod 1000000000) :: rat)"
    by (simp add: as_secs_def)
  then have d: "of_nat d / 1000000000 = ?s + ?n" by (simp add: add_divide_distrib)
  have s: "?s / 2 \<le> fl ?s" "fl ?s \<le> 2 * ?s" and n: "?n / 2 \<le> fl ?n" "fl ?n \<le> 2 * ?n"
    by (rule fl_bounds; simp)+
  have f: "(fl ?s + fl ?n) / 2 \<le> as_secs_f64 d" "as_secs_f64 d \<le> 2 * (fl ?s + fl ?n)"
    unfolding as_secs_f64_def by (rule fl_bounds; simp)+
  have up: "r \<le> 4 * (D :: rat)" and lo: "D \<le> 4 * r"
    if "D = a + b" "a / 2 \<le> a'" "a' \<le> 2 * a" "b / 2 \<le> b'" "b' \<le> 2 * b"
      "(a' + b') / 2 \<le> r" "r \<le> 2 * (a' + b')" for D a b a' b' r
    using that by simp_all
  show "of_nat d / 4000000000 \<le> as_secs_f64 d" "as_secs_f64 d \<le> of_nat d / 250000000"
    using up[OF d s n f] lo[OF d s n f] by simp_all
qed

end
