(* ===== verification/Progress_Meter.thy ===== *)
theory Progress_Meter
  imports Peer_Tasks Float64
begin

text \<open>
  The progress reports of a file task (\<open>core/src/peer_generic.rs\<close> and \<open>core/src/peer.rs\<close>): after
  every chunk the task estimates the speed, at most every two seconds, and reports, at most
  every half second. The clock is a parameter: the time of every chunk, in nanoseconds. The
  sender and the receiver run the same code on their own counters.
\<close>

definition PROGRESS_REPORT_INTERVAL_MS :: nat where "PROGRESS_REPORT_INTERVAL_MS = 500"

definition SPEED_ESTIMATION_INTERVAL_MS :: nat where "SPEED_ESTIMATION_INTERVAL_MS = 2000"

record ProgressInfo =
  bytes_transferred :: u64
  total_bytes :: u64
  speed_bytes_per_second :: f64
  percentage :: f64
  estimated_remaining_secs :: "f64 option"
  is_completed :: bool
  average_speed_bytes_per_second :: "f64 option"
  total_time_secs :: "f64 option"

record meter =
  moved :: u64
  out_of :: u64
  last_report_time :: duration
  last_speed_time :: duration
  last_speed_bytes :: u64
  current_speed :: f64

definition new_meter :: "duration \<Rightarrow> u64 \<Rightarrow> u64 \<Rightarrow> meter" where
  "new_meter now offset0 size0 =
     \<lparr>moved = offset0, out_of = size0, last_report_time = now, last_speed_time = now,
      last_speed_bytes = offset0, current_speed = 0\<rparr>"

text \<open>The differences of counters wrap like every \<open>u64\<close> of a release build.\<close>

definition estimate_speed :: "duration \<Rightarrow> meter \<Rightarrow> meter" where
  "estimate_speed now m =
     (if from_millis SPEED_ESTIMATION_INTERVAL_MS \<le> now - last_speed_time m then
        m\<lparr>current_speed := fl (u64_f64 (moved m - last_speed_bytes m) / as_secs_f64 (now - last_speed_time m)),
          last_speed_bytes := moved m, last_speed_time := now\<rparr>
      else m)"

definition progress_report :: "meter \<Rightarrow> ProgressInfo" where
  "progress_report m =
     \<lparr>bytes_transferred = moved m, total_bytes = out_of m, speed_bytes_per_second = current_speed m,
      percentage = (if 0 < out_of m then fl (fl (u64_f64 (moved m) / u64_f64 (out_of m)) * 100) else 0),
      estimated_remaining_secs =
        (if 0 < current_speed m then Some (fl (u64_f64 (out_of m - moved m) / current_speed m)) else None),
      is_completed = False, average_speed_bytes_per_second = None, total_time_secs = None\<rparr>"

definition meter_turn :: "duration \<Rightarrow> nat \<Rightarrow> meter \<Rightarrow> meter \<times> ProgressInfo option" where
  "meter_turn now chunk_len m =
     (let m = estimate_speed now (m\<lparr>moved := moved m + word_of_nat chunk_len\<rparr>) in
      if from_millis PROGRESS_REPORT_INTERVAL_MS \<le> now - last_report_time m
      then (m\<lparr>last_report_time := now\<rparr>, Some (progress_report m)) else (m, None))"

definition recv_meter_turn :: "duration \<Rightarrow> nat \<Rightarrow> meter \<Rightarrow> meter \<times> ProgressInfo option" where
  "recv_meter_turn = meter_turn"

text \<open>The last report of a task that has finished.\<close>

definition final_report :: "duration \<Rightarrow> u64 \<Rightarrow> meter \<Rightarrow> ProgressInfo" where
  "final_report elapsed offset0 m =
     (let total_elapsed = as_secs_f64 elapsed;
          avg_speed = (if 0 < total_elapsed then fl (u64_f64 (moved m - offset0) / total_elapsed) else 0) in
      \<lparr>bytes_transferred = moved m, total_bytes = out_of m, speed_bytes_per_second = current_speed m,
       percentage = 100, estimated_remaining_secs = Some 0, is_completed = True,
       average_speed_bytes_per_second = Some avg_speed, total_time_secs = Some total_elapsed\<rparr>)"

definition recv_final_report :: "duration \<Rightarrow> u64 \<Rightarrow> meter \<Rightarrow> ProgressInfo" where
  "recv_final_report = final_report"

text \<open>The same code once more in \<open>run_peer\<close>.\<close>

definition quic_meter_turn :: "duration \<Rightarrow> nat \<Rightarrow> meter \<Rightarrow> meter \<times> ProgressInfo option" where
  "quic_meter_turn = meter_turn"

definition quic_recv_meter_turn :: "duration \<Rightarrow> nat \<Rightarrow> meter \<Rightarrow> meter \<times> ProgressInfo option" where
  "quic_recv_meter_turn = recv_meter_turn"

definition quic_final_report :: "duration \<Rightarrow> u64 \<Rightarrow> meter \<Rightarrow> ProgressInfo" where
  "quic_final_report = final_report"

definition quic_recv_final_report :: "duration \<Rightarrow> u64 \<Rightarrow> meter \<Rightarrow> ProgressInfo" where
  "quic_recv_final_report = recv_final_report"

text \<open>A whole task: the reports with their times.\<close>

fun meter_run :: "(duration \<times> nat) list \<Rightarrow> meter \<Rightarrow> (duration \<times> ProgressInfo) list" where
  "meter_run [] m = []"
| "meter_run ((now, chunk_len) # turns) m =
     (case meter_turn now chunk_len m of
        (m', None) \<Rightarrow> meter_run turns m'
      | (m', Some p) \<Rightarrow> (now, p) # meter_run turns m')"

section \<open>Facts about the meter\<close>

lemma u64_f64_bounds: "of_nat (unat n) / 2 \<le> u64_f64 n" "u64_f64 n \<le> 2 * of_nat (unat n)"
  unfolding u64_f64_def by (rule fl_bounds, rule of_nat_0_le_iff)+

lemma u64_f64_nonneg [simp]: "0 \<le> u64_f64 n"
  by (simp add: u64_f64_def)

lemma part_of_whole:
  assumes "unat a \<le> unat b" shows "fl (u64_f64 a / u64_f64 b) \<le> 1"
proof -
  have "u64_f64 a \<le> u64_f64 b" unfolding u64_f64_def by (rule fl_mono) (simp only: of_nat_le_iff assms)
  then have "u64_f64 a / u64_f64 b \<le> of_nat 1"
    using u64_f64_nonneg[of b] by (cases "0 < u64_f64 b") (auto simp: divide_le_eq order.order_iff_strict)
  then show ?thesis using fl_le_nat[of _ 1] by simp
qed

text \<open>A speed that is not zero is at least one byte in the time measured, up to rounding.\<close>

lemma speed_low:
  assumes "b \<noteq> 0" "0 < el"
  shows "62500000 / of_nat el \<le> fl (u64_f64 b / as_secs_f64 el)"
proof -
  have b: "1 / 2 \<le> u64_f64 b"
    using u64_f64_bounds(1)[of b] assms(1) unat_eq_zero[of b]
    by (metis (no_types, lifting) One_nat_def divide_right_mono less_one not_less of_nat_1
        of_nat_mono order_trans zero_le_numeral)
  have s: "0 < as_secs_f64 el" "as_secs_f64 el \<le> of_nat el / 250000000"
    using as_secs_f64_bounds[of el] assms(2) by (auto intro: less_le_trans[rotated])
  have "62500000 / of_nat el = (1 / 2) / (of_nat el / 250000000) / (2 :: rat)"
    by simp
  also have "\<dots> \<le> u64_f64 b / as_secs_f64 el / 2"
    using b s assms(2) by (intro divide_right_mono frac_le) auto
  also have "\<dots> \<le> fl (u64_f64 b / as_secs_f64 el)"
    using b s by (intro fl_bounds) simp
  finally show ?thesis .
qed

definition meter_ok :: "duration \<Rightarrow> nat \<Rightarrow> meter \<Rightarrow> bool" where
  "meter_ok t0 D m \<longleftrightarrow>
     unat (moved m) \<le> unat (out_of m)
     \<and> t0 \<le> last_speed_time m
     \<and> (current_speed m = 0 \<or> 0 < D \<and> 62500000 / of_nat D \<le> current_speed m)"

lemma moved_step:
  "unat (moved m) + n \<le> unat (out_of m) \<Longrightarrow> unat (moved m + word_of_nat n) = unat (moved m) + n"
  using unsigned_less[of "out_of m", where 'a = nat] by (subst unat_word_ariths) (simp add: unat_of_nat)

lemma estimate_speed_fields [simp]:
  "moved (estimate_speed now m) = moved m" "out_of (estimate_speed now m) = out_of m"
  "last_report_time (estimate_speed now m) = last_report_time m"
  by (simp_all add: estimate_speed_def)

lemma estimate_speed_ok:
  assumes "meter_ok t0 D m" "now \<le> t0 + D"
  shows "meter_ok t0 D (estimate_speed now m)"
proof (cases "from_millis SPEED_ESTIMATION_INTERVAL_MS \<le> now - last_speed_time m")
  case True
  let ?el = "now - last_speed_time m" and ?b = "moved m - last_speed_bytes m"
  have el: "0 < ?el" "?el \<le> D" "t0 \<le> now"
    using True assms by (auto simp: from_millis_def SPEED_ESTIMATION_INTERVAL_MS_def meter_ok_def)
  have "62500000 / of_nat D \<le> fl (u64_f64 ?b / as_secs_f64 ?el)" if "?b \<noteq> 0"
  proof -
    have "62500000 / of_nat D \<le> (62500000 / of_nat ?el :: rat)"
      using el(1,2) by (intro divide_left_mono) auto
    then show ?thesis using speed_low[OF that el(1)] by (rule order_trans)
  qed
  moreover have "fl (u64_f64 0 / as_secs_f64 ?el) = 0" by (simp add: u64_f64_def fl_def)
  ultimately show ?thesis
    using True assms(1) el less_le_trans[OF el(1,2)] by (cases "?b = 0") (auto simp: estimate_speed_def meter_ok_def)
qed (use assms in \<open>simp add: estimate_speed_def\<close>)

lemma percentage_ok:
  "unat (moved m) \<le> unat (out_of m) \<Longrightarrow> 0 \<le> percentage (progress_report m) \<and> percentage (progress_report m) \<le> 100"
  using part_of_whole[of "moved m" "out_of m"] fl_le_nat[of _ 100] by (simp add: progress_report_def)

lemma remaining_ok:
  assumes "meter_ok t0 D m" "unat (out_of m) * D \<le> 2 ^ 86"
  shows "pred_option (\<lambda>s. 0 \<le> s \<and> s < 2 ^ 64) (estimated_remaining_secs (progress_report m))"
proof (cases "0 < current_speed m \<and> D \<noteq> 0")
  case True
  let ?rem = "unat (out_of m - moved m)"
  have "?rem \<le> unat (out_of m)"
    using assms(1) unat_sub[of "moved m" "out_of m"] by (simp add: meter_ok_def word_le_nat_alt)
  then have "?rem * D \<le> 2 ^ 86" using mult_le_mono1[of ?rem _ D] assms(2) by (meson le_trans)
  then have rd: "of_nat ?rem * of_nat D \<le> (2 ^ 86 :: rat)"
    by (metis of_nat_le_iff of_nat_mult of_nat_numeral of_nat_power)
  have s: "62500000 / of_nat D \<le> current_speed m" using assms(1) True by (auto simp: meter_ok_def)
  have "0 \<le> (of_nat ?rem :: rat)" by (rule of_nat_0_le_iff)
  then have "u64_f64 (out_of m - moved m) / current_speed m \<le> (2 * of_nat ?rem) / (62500000 / of_nat D)"
    using s True u64_f64_bounds(2)[of "out_of m - moved m"] by (intro frac_le) auto
  also have "\<dots> \<le> 2 ^ 62"
    using rd by (simp add: mult.commute)
  finally have "2 * (u64_f64 (out_of m - moved m) / current_speed m) < 2 ^ 64" by simp
  moreover have "fl (u64_f64 (out_of m - moved m) / current_speed m)
      \<le> 2 * (u64_f64 (out_of m - moved m) / current_speed m)"
    using True by (intro fl_bounds) simp
  ultimately show ?thesis using True by (auto simp: progress_report_def)
qed (use assms in \<open>auto simp: progress_report_def meter_ok_def\<close>)

lemma meter_turn_ok:
  assumes "meter_ok t0 D m" "now \<le> t0 + D" "unat (moved m) + n \<le> unat (out_of m)"
    and "meter_turn now n m = (m', p)"
  shows "meter_ok t0 D m'" "out_of m' = out_of m" "unat (moved m') = unat (moved m) + n"
    "p = None \<Longrightarrow> last_report_time m' = last_report_time m"
    "p = Some info \<Longrightarrow> last_report_time m' = now \<and> last_report_time m + 500000000 \<le> now
       \<and> (\<exists>m1. meter_ok t0 D m1 \<and> moved m1 = moved m' \<and> out_of m1 = out_of m \<and> info = progress_report m1)"
proof -
  let ?m = "m\<lparr>moved := moved m + word_of_nat n\<rparr>"
  note step = moved_step[OF assms(3)]
  have "meter_ok t0 D ?m" using assms(1,3) step by (simp add: meter_ok_def)
  note e = estimate_speed_ok[OF this assms(2)]
  have r: "meter_ok t0 D (a\<lparr>last_report_time := now\<rparr>) = meter_ok t0 D a" for a
    by (simp add: meter_ok_def)
  show "meter_ok t0 D m'" "out_of m' = out_of m" "unat (moved m') = unat (moved m) + n"
    "p = None \<Longrightarrow> last_report_time m' = last_report_time m"
    "p = Some info \<Longrightarrow> last_report_time m' = now \<and> last_report_time m + 500000000 \<le> now
       \<and> (\<exists>m1. meter_ok t0 D m1 \<and> moved m1 = moved m' \<and> out_of m1 = out_of m \<and> info = progress_report m1)"
    using assms(4) e step r
    by (auto simp: meter_turn_def Let_def from_millis_def PROGRESS_REPORT_INTERVAL_MS_def split: if_splits)
qed

text \<open>What every report of a task says, and how two of them are related.\<close>

definition report_sound :: "u64 \<Rightarrow> u64 \<Rightarrow> ProgressInfo \<Rightarrow> bool" where
  "report_sound offset0 size0 p \<longleftrightarrow>
     offset0 \<le> bytes_transferred p \<and> bytes_transferred p \<le> size0 \<and> total_bytes p = size0
     \<and> 0 \<le> percentage p \<and> percentage p \<le> 100 \<and> \<not> is_completed p
     \<and> pred_option (\<lambda>s. 0 \<le> s \<and> s < 2 ^ 64) (estimated_remaining_secs p)"

definition report_later :: "duration \<times> ProgressInfo \<Rightarrow> duration \<times> ProgressInfo \<Rightarrow> bool" where
  "report_later r r' \<longleftrightarrow>
     fst r + from_millis PROGRESS_REPORT_INTERVAL_MS \<le> fst r'
     \<and> bytes_transferred (snd r) \<le> bytes_transferred (snd r')"

lemma report_later_pair:
  "report_later (t, p) (t', q) \<longleftrightarrow>
     t + 500000000 \<le> t' \<and> bytes_transferred p \<le> bytes_transferred q"
  by (simp add: report_later_def from_millis_def PROGRESS_REPORT_INTERVAL_MS_def)

lemma meter_run_sound:
  assumes "meter_ok t0 D m" "list_all (\<lambda>(now, n). now \<le> t0 + D) turns"
    and "unat (moved m) + sum_list (map snd turns) \<le> unat (out_of m)"
    and "unat (out_of m) * D \<le> 2 ^ 86"
  shows "sorted_wrt report_later (meter_run turns m)
     \<and> list_all (\<lambda>(t, p). last_report_time m + 500000000 \<le> t \<and> report_sound (moved m) (out_of m) p)
         (meter_run turns m)"
  using assms
proof (induction turns arbitrary: m)
  case (Cons turn turns)
  obtain now n where turn: "turn = (now, n)" by (cases turn)
  obtain m' p where s: "meter_turn now n m = (m', p)" by (cases "meter_turn now n m")
  have pre: "now \<le> t0 + D" "unat (moved m) + n \<le> unat (out_of m)" using Cons.prems turn by auto
  note ok = meter_turn_ok[OF Cons.prems(1) pre s]
  have IH: "sorted_wrt report_later (meter_run turns m')"
    "list_all (\<lambda>(t, p). last_report_time m' + 500000000 \<le> t \<and> report_sound (moved m') (out_of m') p)
       (meter_run turns m')"
    using Cons.IH[OF ok(1)] Cons.prems ok(2,3) turn by auto
  have up: "report_sound (moved m) (out_of m) q" if "report_sound (moved m') (out_of m') q" for q
    using that ok(2,3) by (auto simp: report_sound_def word_le_nat_alt)
  show ?case
  proof (cases p)
    case None
    then show ?thesis using IH s turn ok(4) up by (auto simp: list_all_iff)
  next
    case (Some info)
    then obtain m1 where m1: "meter_ok t0 D m1" "moved m1 = moved m'" "out_of m1 = out_of m" "info = progress_report m1"
      and t: "last_report_time m' = now" "last_report_time m + 500000000 \<le> now"
      using ok(5) by auto
    have "report_sound (moved m) (out_of m) info"
      using m1 percentage_ok[of m1] remaining_ok[OF m1(1)] Cons.prems(4) ok(3)
      by (auto simp: report_sound_def meter_ok_def progress_report_def[of m1] word_le_nat_alt)
    moreover have "bytes_transferred info = moved m'" using m1 by (simp add: progress_report_def)
    ultimately show ?thesis using IH s turn Some t up
      by (auto simp: list_all_iff report_later_pair report_sound_def)
  qed
qed (simp_all)

lemma recv_chunks_total:
  "recv_chunks stop i r n acc = (ok, chunks, r') \<Longrightarrow>
     sum_list (map length chunks) \<le> sum_list (map length acc) + n"
proof (induction stop i r n acc rule: recv_chunks.induct)
  case (1 stop i r n acc)
  show ?case
  proof (cases "n = 0")
    case False
    note unfolded = "1.prems"[unfolded recv_chunks.simps[of stop i r n acc]]
    have len: "length x \<le> n" if "read_some r (min n FILE_CHUNK_SIZE) = Inr (x, q)" for x q
      using that by (auto simp: read_some_def Let_def split: if_splits)
    show ?thesis
      using unfolded False "1.IH"[OF False _ refl]
      by (fastforce split: sum.splits prod.splits list.splits if_splits dest: len)
  qed (use 1 in simp)
qed

lemma new_meter_ok:
  "unat offset0 \<le> unat size0 \<Longrightarrow> meter_ok t0 D (new_meter t0 offset0 size0)"
  by (simp add: meter_ok_def new_meter_def)

end
