(* ===== verification/Cli_Progress.thy ===== *)
theory Cli_Progress
  imports Progress_Meter
begin

text \<open>
  The progress display of the client (\<open>cli/src/progress.rs\<close>): the renderer with its live line,
  the texts it prints, and a terminal that reads them. The clock and whether standard error is
  a terminal are parameters; writing to standard error appends to \<open>stderr\<close> (the code ignores
  its errors). An operation that would panic is \<open>None\<close>.
\<close>

section \<open>Texts\<close>

definition RENDER_INTERVAL :: duration where "RENDER_INTERVAL = from_millis 500"

definition BAR_WIDTH :: nat where "BAR_WIDTH = 28"

definition full_cell :: string where "full_cell = [CHR 0xE2, CHR 0x96, CHR 0x88]"

definition empty_cell :: string where "empty_cell = [CHR 0xE2, CHR 0x96, CHR 0x91]"

definition middle_dot :: string where "middle_dot = [CHR 0xC2, CHR 0xB7]"

definition UNITS :: "string list" where
  "UNITS = [''B'', ''KiB'', ''MiB'', ''GiB'', ''TiB'']"

function scale_unit :: "f64 \<Rightarrow> nat \<Rightarrow> f64 \<times> nat" where
  "scale_unit value unit =
     (if 1024 \<le> value \<and> unit < length UNITS - 1 then scale_unit (fl (value / 1024)) (unit + 1)
      else (value, unit))"
  by pat_completeness auto
termination
  by (relation "measure (\<lambda>(v, u). length UNITS - u)") (auto simp: UNITS_def)

declare scale_unit.simps [simp del]

definition format_bytes :: "u64 \<Rightarrow> string" where
  "format_bytes bytes =
     (let (value, unit) = scale_unit (u64_f64 bytes) 0 in
      if unit = 0 then show_word bytes @ '' B'' else fixed2 value @ '' '' @ UNITS ! unit)"

definition format_duration :: "duration \<Rightarrow> string" where
  "format_duration d =
     (let seconds = as_secs d; two = (\<lambda>n. pad_left 2 (CHR ''0'') (show_nat n)) in
      if 3600 \<le> seconds then show_nat (seconds div 3600) @ ''h '' @ two (seconds mod 3600 div 60) @ ''m''
      else if 60 \<le> seconds then show_nat (seconds div 60) @ ''m '' @ two (seconds mod 60) @ ''s''
      else show_nat seconds @ ''s'')"

text \<open>
  \<open>round\<close> takes halves away from zero; a subtraction below zero would panic, or ask for an
  impossible repetition.
\<close>

definition progress_bar :: "f64 \<Rightarrow> string option" where
  "progress_bar percent =
     (let filled = nat (round (fl (fl (percent / 100) * of_nat BAR_WIDTH))) in
      if BAR_WIDTH < filled then None
      else Some (concat (replicate filled full_cell) @ concat (replicate (BAR_WIDTH - filled) empty_cell)))"

definition clamp_percentage :: "f64 \<Rightarrow> f64" where
  "clamp_percentage p = min 100 (max 0 p)"

definition eta_text :: "f64 option \<Rightarrow> string option" where
  "eta_text remaining =
     (case remaining of
        None \<Rightarrow> Some []
      | Some seconds \<Rightarrow>
          map_option (\<lambda>d. ''  ETA '' @ format_duration d) (from_secs_f64 (max seconds 0)))"

definition render_progress_line :: "string \<Rightarrow> ProgressInfo \<Rightarrow> string option" where
  "render_progress_line name p =
     (let percent = clamp_percentage (percentage p) in
      Option.bind (progress_bar percent) (\<lambda>bar.
      Option.bind (eta_text (estimated_remaining_secs p)) (\<lambda>eta.
      Some (name @ ''  '' @ pad_left 3 (CHR '' '') (fixed0 percent) @ ''% |'' @ bar @ ''| ''
        @ format_bytes (bytes_transferred p) @ '' / '' @ format_bytes (total_bytes p) @ ''  ''
        @ format_bytes (f64_u64 (max (speed_bytes_per_second p) 0)) @ ''/s'' @ eta))))"

definition render_paused_line :: "string \<Rightarrow> ProgressInfo \<Rightarrow> string option" where
  "render_paused_line name p =
     (let percent = clamp_percentage (percentage p) in
      Option.bind (progress_bar percent) (\<lambda>bar.
      Some (name @ ''  '' @ pad_left 3 (CHR '' '') (fixed0 percent) @ ''% |'' @ bar @ ''| ''
        @ format_bytes (bytes_transferred p) @ '' / '' @ format_bytes (total_bytes p)
        @ ''  [PAUSED - press Space to resume]'')))"

section \<open>The renderer\<close>

record ProgressRenderer =
  enabled :: bool
  silent :: bool
  has_live_line :: bool
  last_rendered :: "duration option"
  stderr :: string

definition new_renderer :: "bool \<Rightarrow> bool \<Rightarrow> bool \<Rightarrow> ProgressRenderer" where
  "new_renderer quiet_mode hide_progress terminal =
     \<lparr>enabled = (\<not> quiet_mode \<and> \<not> hide_progress \<and> terminal), silent = quiet_mode,
      has_live_line = False, last_rendered = None, stderr = []\<rparr>"

definition erase_line :: string where
  "erase_line = [CHR 0x0D, CHR 0x1B, CHR ''['', CHR ''2'', CHR ''K'']"

definition write_err :: "string \<Rightarrow> ProgressRenderer \<Rightarrow> ProgressRenderer" where
  "write_err s r = r\<lparr>stderr := stderr r @ s\<rparr>"

definition writeln_err :: "string \<Rightarrow> ProgressRenderer \<Rightarrow> ProgressRenderer" where
  "writeln_err s = write_err (s @ [CHR 0x0A])"

definition clear_live_line :: "ProgressRenderer \<Rightarrow> ProgressRenderer" where
  "clear_live_line r = (if has_live_line r then (write_err erase_line r)\<lparr>has_live_line := False\<rparr> else r)"

definition render_status :: "string \<Rightarrow> ProgressRenderer \<Rightarrow> ProgressRenderer" where
  "render_status message r = (if silent r then r else writeln_err message (clear_live_line r))"

definition render_progress ::
    "duration \<Rightarrow> string \<Rightarrow> ProgressInfo \<Rightarrow> ProgressRenderer \<Rightarrow> ProgressRenderer option" where
  "render_progress now name p r =
     (if \<not> enabled r then Some r
      else if (case last_rendered r of None \<Rightarrow> False | Some before \<Rightarrow> now - before < RENDER_INTERVAL)
          \<and> \<not> is_completed p then Some r
      else map_option (\<lambda>line. write_err (erase_line @ line) (r\<lparr>last_rendered := Some now, has_live_line := True\<rparr>))
             (render_progress_line name p))"

definition completed_line :: "string \<Rightarrow> u64 \<Rightarrow> duration \<Rightarrow> bool \<Rightarrow> string" where
  "completed_line name bytes d checksum_verified =
     (let seconds = max (as_secs_f64 d) (fl (1 / 1000));
          average_rate = fl (u64_f64 bytes / seconds) in
      name @ ''  '' @ format_bytes bytes @ '' transferred in '' @ format_duration d @ ''  ''
        @ middle_dot @ ''  '' @ format_bytes (f64_u64 average_rate) @ ''/s''
        @ (if checksum_verified then ''  '' @ middle_dot @ ''  verified'' else []))"

definition render_completed ::
    "string \<Rightarrow> u64 \<Rightarrow> duration \<Rightarrow> bool \<Rightarrow> ProgressRenderer \<Rightarrow> ProgressRenderer" where
  "render_completed name bytes d checksum_verified r =
     (if silent r then r
      else writeln_err (completed_line name bytes d checksum_verified) (clear_live_line r))"

definition render_paused ::
    "string \<Rightarrow> ProgressInfo option \<Rightarrow> ProgressRenderer \<Rightarrow> ProgressRenderer option" where
  "render_paused name p r =
     (if \<not> enabled r then Some r
      else map_option (\<lambda>line. write_err (erase_line @ line) (r\<lparr>has_live_line := True\<rparr>))
             (case p of
                None \<Rightarrow> Some (name @ ''  [PAUSED - press Space to resume]'')
              | Some prog \<Rightarrow> render_paused_line name prog))"

definition render_resume :: "ProgressRenderer \<Rightarrow> ProgressRenderer" where
  "render_resume r = r\<lparr>last_rendered := None\<rparr>"

definition failed_line :: "string \<Rightarrow> string" where
  "failed_line reason_text = ''Transfer failed: '' @ reason_text"

definition render_failed :: "string \<Rightarrow> ProgressRenderer \<Rightarrow> ProgressRenderer" where
  "render_failed reason_text r = writeln_err (failed_line reason_text) (clear_live_line r)"

section \<open>A terminal\<close>

text \<open>
  What a terminal makes of these bytes: a line feed finishes the current line, the sequence
  \<open>erase_line\<close> empties it, and any other byte is shown. \<open>held\<close> is the part of an erase
  sequence read so far.
\<close>

record screen =
  finished :: "string list"
  current :: string
  held :: string

definition blank :: screen where
  "blank = \<lparr>finished = [], current = [], held = []\<rparr>"

definition feed_char :: "char \<Rightarrow> screen \<Rightarrow> screen" where
  "feed_char c t =
     (let e = held t @ [c] in
      if e = erase_line then t\<lparr>current := [], held := []\<rparr>
      else if e = take (length e) erase_line then t\<lparr>held := e\<rparr>
      else if c = CHR 0x0A then t\<lparr>finished := finished t @ [current t @ held t], current := [], held := []\<rparr>
      else t\<lparr>current := current t @ e, held := []\<rparr>)"

definition feed :: "string \<Rightarrow> screen \<Rightarrow> screen" where
  "feed s t = fold feed_char s t"

definition plain_text :: "string \<Rightarrow> bool" where
  "plain_text s \<longleftrightarrow> list_all (\<lambda>c. c \<noteq> CHR 0x0A \<and> c \<noteq> CHR 0x0D) s"

lemma feed_simps [simp]:
  "feed [] t = t" "feed (a @ b) t = feed b (feed a t)"
  by (simp_all add: feed_def)

lemma feed_newline [simp]:
  "held t = [] \<Longrightarrow> feed [CHR 0x0A] t = t\<lparr>finished := finished t @ [current t], current := [], held := []\<rparr>"
  by (simp add: feed_def feed_char_def erase_line_def)

lemma feed_erase [simp]:
  "held t = [] \<Longrightarrow> feed erase_line t = t\<lparr>current := [], held := []\<rparr>"
  by (simp add: feed_def feed_char_def erase_line_def Let_def)

lemma feed_plain:
  "plain_text s \<Longrightarrow> held t = [] \<Longrightarrow> feed s t = t\<lparr>current := current t @ s\<rparr>"
proof (induction s arbitrary: t)
  case (Cons c s)
  then have "feed_char c t = t\<lparr>current := current t @ [c]\<rparr>"
    by (simp add: feed_char_def erase_line_def plain_text_def)
  moreover have "feed (c # s) t = feed s (feed_char c t)" by (simp add: feed_def)
  ultimately show ?case using Cons by (simp add: plain_text_def)
qed simp

lemma plain_append [simp]: "plain_text (a @ b) \<longleftrightarrow> plain_text a \<and> plain_text b"
  by (simp add: plain_text_def)

lemma plain_Nil [simp]: "plain_text []"
  by (simp add: plain_text_def)

lemma plain_Cons [simp]: "plain_text (c # s) \<longleftrightarrow> c \<noteq> CHR 0x0A \<and> c \<noteq> CHR 0x0D \<and> plain_text s"
  by (simp add: plain_text_def)

lemma plain_show_nat [simp]: "plain_text (show_nat n)"
  using show_nat_digits[of n] by (auto simp: plain_text_def list_all_iff is_ascii_digit_def code_def)

lemma plain_replicate [simp]: "plain_text [c] \<Longrightarrow> plain_text (replicate k c)"
  by (induction k) simp_all

lemma plain_pad [simp]: "plain_text [c] \<Longrightarrow> plain_text (pad_left n c s) \<longleftrightarrow> plain_text s"
  by (simp add: pad_left_def)

lemma plain_fixed [simp]: "plain_text (fixed2 x)" "plain_text (fixed0 x)"
  by (simp_all add: fixed2_def fixed0_def Let_def)

lemma scale_unit_bound:
  "scale_unit v u = (v', u') \<Longrightarrow> u < length UNITS \<Longrightarrow> u' < length UNITS"
  by (induction v u rule: scale_unit.induct) (simp add: scale_unit.simps split: if_splits)

lemma plain_format_bytes [simp]: "plain_text (format_bytes b)"
proof -
  obtain v u where s: "scale_unit (u64_f64 b) 0 = (v, u)" by (cases "scale_unit (u64_f64 b) 0")
  have "list_all plain_text UNITS" by (simp add: UNITS_def)
  then have "plain_text (UNITS ! u)"
    using scale_unit_bound[OF s] by (simp add: list_all_length UNITS_def)
  then show ?thesis by (simp add: format_bytes_def s show_word_def)
qed

lemma plain_format_duration [simp]: "plain_text (format_duration d)"
  by (simp add: format_duration_def Let_def)

lemma plain_repeat: "plain_text s \<Longrightarrow> plain_text (concat (replicate n s))"
  by (induction n) simp_all

lemma plain_bar: "progress_bar p = Some b \<Longrightarrow> plain_text b"
  by (auto simp: progress_bar_def Let_def full_cell_def empty_cell_def intro!: plain_repeat split: if_splits)

lemma plain_eta: "eta_text r = Some e \<Longrightarrow> plain_text e"
  by (auto simp: eta_text_def split: option.splits)

lemma plain_progress_line: "render_progress_line n p = Some l \<Longrightarrow> plain_text n \<Longrightarrow> plain_text l"
  by (auto simp: render_progress_line_def Let_def bind_eq_Some_conv dest: plain_bar plain_eta)

lemma plain_paused_line: "render_paused_line n p = Some l \<Longrightarrow> plain_text n \<Longrightarrow> plain_text l"
  by (auto simp: render_paused_line_def Let_def bind_eq_Some_conv dest: plain_bar)

lemma plain_completed_line: "plain_text n \<Longrightarrow> plain_text (completed_line n b d v)"
  by (simp add: completed_line_def Let_def middle_dot_def)

lemma plain_failed_line: "plain_text s \<Longrightarrow> plain_text (failed_line s)"
  by (simp add: failed_line_def)

section \<open>Runs of the renderer\<close>

datatype render_op =
    Show_Status string
  | Show_Progress duration string ProgressInfo
  | Show_Completed string u64 duration bool
  | Show_Paused string "ProgressInfo option"
  | Show_Resume
  | Show_Failed string

fun apply_op :: "render_op \<Rightarrow> ProgressRenderer \<Rightarrow> ProgressRenderer option" where
  "apply_op (Show_Status s) r = Some (render_status s r)"
| "apply_op (Show_Progress now n p) r = render_progress now n p r"
| "apply_op (Show_Completed n b d v) r = Some (render_completed n b d v r)"
| "apply_op (Show_Paused n p) r = render_paused n p r"
| "apply_op Show_Resume r = Some (render_resume r)"
| "apply_op (Show_Failed s) r = Some (render_failed s r)"

fun render_run :: "render_op list \<Rightarrow> ProgressRenderer \<Rightarrow> ProgressRenderer option" where
  "render_run [] r = Some r"
| "render_run (x # xs) r = Option.bind (apply_op x r) (render_run xs)"

fun op_plain :: "render_op \<Rightarrow> bool" where
  "op_plain (Show_Status s) = plain_text s"
| "op_plain (Show_Progress _ n _) = plain_text n"
| "op_plain (Show_Completed n _ _ _) = plain_text n"
| "op_plain (Show_Paused n _) = plain_text n"
| "op_plain Show_Resume = True"
| "op_plain (Show_Failed s) = plain_text s"

text \<open>The lines an operation leaves behind for good; a quiet client reports only failures.\<close>

fun logged :: "bool \<Rightarrow> render_op \<Rightarrow> string list" where
  "logged quiet_mode (Show_Status s) = (if quiet_mode then [] else [s])"
| "logged quiet_mode (Show_Completed n b d v) = (if quiet_mode then [] else [completed_line n b d v])"
| "logged quiet_mode (Show_Failed s) = [failed_line s]"
| "logged quiet_mode _ = []"

text \<open>The renderer \<open>r\<close> and the terminal \<open>t\<close> that has read its bytes agree.\<close>

definition in_step :: "bool \<Rightarrow> bool \<Rightarrow> string list \<Rightarrow> ProgressRenderer \<Rightarrow> bool" where
  "in_step quiet_mode shows logs r \<longleftrightarrow>
     (let t = feed (stderr r) blank in
      silent r = quiet_mode \<and> enabled r = shows \<and> finished t = logs \<and> held t = []
      \<and> (has_live_line r \<longrightarrow> shows) \<and> (\<not> has_live_line r \<longrightarrow> current t = []))"

lemma in_step_write:
  assumes "in_step q e logs r" "plain_text s"
  shows "in_step q e (logs @ [s]) (writeln_err s (clear_live_line r))"
  using assms by (auto simp: in_step_def Let_def writeln_err_def write_err_def clear_live_line_def feed_plain)

lemma in_step_live:
  assumes "in_step q e logs r" "plain_text s" "e"
  shows "in_step q e logs (write_err (erase_line @ s) (r\<lparr>last_rendered := x, has_live_line := True\<rparr>))"
    "in_step q e logs (write_err (erase_line @ s) (r\<lparr>has_live_line := True\<rparr>))"
  using assms by (auto simp: in_step_def Let_def write_err_def feed_plain)

lemma in_step_op:
  assumes "in_step q e logs r" "op_plain x" "apply_op x r = Some r'"
  shows "in_step q e (logs @ logged q x) r'"
proof -
  have flags: "silent r = q" "enabled r = e" using assms(1) by (simp_all add: in_step_def Let_def)
  note live = in_step_live[OF assms(1)] and final = in_step_write[OF assms(1)]
  show ?thesis
  proof (cases x)
    case (Show_Progress now n p)
    then show ?thesis
      using assms live(1) plain_progress_line[of n p]
      by (auto simp: render_progress_def flags split: if_splits)
  next
    case (Show_Paused n p)
    then show ?thesis
      using assms live(2) plain_paused_line[of n]
      by (auto simp: render_paused_def flags simp del: append_assoc split: if_splits option.splits)
  next
    case Show_Resume
    then show ?thesis using assms by (auto simp: render_resume_def in_step_def)
  next
    case (Show_Status m)
    then show ?thesis using assms final[of m] by (auto simp: render_status_def flags)
  next
    case (Show_Completed n b d v)
    then show ?thesis
      using assms final[OF plain_completed_line] by (auto simp: render_completed_def flags)
  next
    case (Show_Failed m)
    then show ?thesis using assms final[OF plain_failed_line] by (auto simp: render_failed_def)
  qed
qed

lemma in_step_run:
  "in_step q e logs r \<Longrightarrow> list_all op_plain xs \<Longrightarrow> render_run xs r = Some r' \<Longrightarrow>
     in_step q e (logs @ concat (map (logged q) xs)) r'"
proof (induction xs arbitrary: logs r)
  case (Cons x xs)
  then obtain r1 where "apply_op x r = Some r1" "render_run xs r1 = Some r'"
    by (auto simp: bind_eq_Some_conv)
  then show ?case using Cons.IH[OF in_step_op[OF Cons.prems(1)]] Cons.prems(2) by simp
qed simp

lemma in_step_new:
  "in_step q (\<not> q \<and> \<not> h \<and> tty) [] (new_renderer q h tty)"
  by (simp add: in_step_def new_renderer_def blank_def Let_def)

section \<open>Properties\<close>

lemma bar_fits: "\<exists>filled \<le> BAR_WIDTH. progress_bar (clamp_percentage p)
   = Some (concat (replicate filled full_cell) @ concat (replicate (BAR_WIDTH - filled) empty_cell))"
proof -
  have c: "clamp_percentage p / 100 \<le> of_nat 1" by (simp add: clamp_percentage_def min_le_iff_disj)
  have "fl (clamp_percentage p / 100) \<le> 1" using fl_le_nat[OF c] by simp
  then have "fl (clamp_percentage p / 100) * of_nat BAR_WIDTH \<le> of_nat 28" by (simp add: BAR_WIDTH_def)
  then have "fl (fl (clamp_percentage p / 100) * of_nat BAR_WIDTH) \<le> 28" using fl_le_nat[of _ 28] by simp
  then have "round (fl (fl (clamp_percentage p / 100) * of_nat BAR_WIDTH)) \<le> 28"
    using round_mono[of _ 28] by simp
  then show ?thesis
    by (intro exI[of _ "nat (round (fl (fl (clamp_percentage p / 100) * of_nat BAR_WIDTH)))"])
      (simp add: progress_bar_def Let_def BAR_WIDTH_def)
qed

lemma report_renders: "report_sound offset0 size0 p \<Longrightarrow> render_progress_line name p \<noteq> None"
  using bar_fits[of "percentage p"]
  by (cases "estimated_remaining_secs p")
    (auto simp: render_progress_line_def Let_def eta_text_def from_secs_f64_def report_sound_def)



text \<open>
  C36: The terminal shows the log. After any run of the renderer that does not panic, with
  texts on one line, a terminal has exactly the finished lines the status, completion and failure
  messages ask for, in order, whatever progress and pause lines were drawn in between; nothing of
  a progress line is left on them, and a line that is still open is one the options allow. A quiet
  client shows failures only.
\<close>

theorem terminal_shows_log:
  assumes "list_all op_plain xs" "render_run xs (new_renderer q h tty) = Some r"
  shows "finished (feed (stderr r) blank) = concat (map (logged q) xs)
    \<and> (if has_live_line r then \<not> q \<and> \<not> h \<and> tty else current (feed (stderr r) blank) = [])"
  using in_step_run[OF in_step_new assms] by (auto simp: in_step_def Let_def)

definition demo_progress :: ProgressInfo where
  "demo_progress =
     \<lparr>bytes_transferred = 1536, total_bytes = 2048, speed_bytes_per_second = 512, percentage = 75,
      estimated_remaining_secs = Some 1, is_completed = False, average_speed_bytes_per_second = None,
      total_time_secs = None\<rparr>"

definition demo_ops :: "render_op list" where
  "demo_ops = [Show_Status ''connecting'', Show_Progress 5 ''a.iso'' demo_progress,
     Show_Paused ''a.iso'' (Some demo_progress), Show_Failed ''lost'']"

theorem terminal_shows_log_witness:
  "\<exists>r. render_run demo_ops (new_renderer False False True) = Some r
     \<and> finished (feed (stderr r) blank) = [''connecting'', ''Transfer failed: lost'']"
proof -
  have "render_progress_line ''a.iso'' demo_progress \<noteq> None"
    by (rule report_renders[of 0 2048]) (simp add: report_sound_def demo_progress_def)
  moreover have "render_paused_line ''a.iso'' demo_progress \<noteq> None"
    using bar_fits[of "percentage demo_progress"] by (auto simp: render_paused_line_def Let_def)
  ultimately obtain r where r: "render_run demo_ops (new_renderer False False True) = Some r"
    by (auto simp: demo_ops_def new_renderer_def render_status_def render_progress_def render_paused_def
        writeln_err_def write_err_def clear_live_line_def)
  have "list_all op_plain demo_ops" by (simp add: demo_ops_def)
  from terminal_shows_log[OF this r] r show ?thesis by (simp add: demo_ops_def failed_line_def)
qed

text \<open>
  A file that grows while it is sent: the counter passes the size read at the start, the difference
  wraps, and the estimate no longer fits a \<open>Duration\<close>.
\<close>

definition grown :: ProgressInfo where
  "grown = progress_report (estimate_speed 3000000000 ((new_meter 0 0 2)\<lparr>moved := 3\<rparr>))"

lemma growing_file_panics: "render_progress_line name grown = None"
proof -
  have small: "fl 3 = 3" "fl 1 = 1" "fl 0 = 0" using fl_nat[of 3] fl_nat[of 1] fl_nat[of 0] by simp_all
  have wrapped: "u64_f64 (- 1) = 2 ^ 64"
  proof -
    have "unat (- 1 :: u64) = 18446744073709551615" by (simp add: unsigned_minus_1_eq_mask mask_eq_exp_minus_1)
    moreover have "fl 18446744073709551615 = 2 ^ 64" by code_simp
    ultimately show ?thesis by (simp only: u64_f64_def of_nat_numeral)
  qed
  have "u64_f64 3 = 3" using small by (simp add: u64_f64_def)
  moreover have "as_secs_f64 3000000000 = 3" using small by (simp add: as_secs_f64_def as_secs_def)
  ultimately have "estimated_remaining_secs grown = Some (fl (2 ^ 64))"
    using small wrapped by (simp add: grown_def progress_report_def estimate_speed_def new_meter_def
        from_millis_def SPEED_ESTIMATION_INTERVAL_MS_def)
  moreover have "fl (2 ^ 64) = 2 ^ 64" by code_simp
  ultimately have "estimated_remaining_secs grown = Some (2 ^ 64)" by simp
  then show ?thesis
    by (auto simp: render_progress_line_def eta_text_def from_secs_f64_def Let_def bind_eq_None_conv)
qed

end
