(* ===== verification/Msquic_Loader.thy ===== *)
theory Msquic_Loader
  imports File_System
begin

text \<open>
  The loader of the MsQuic library (\<open>msquic/ffi.rs\<close>): where the shared object is looked for, and
  the two \<open>OnceLock\<close>s of \<open>get_api\<close>, for one call and for any number of threads calling it. The dynamic loader
  and the library are parameters: what they answer for a path.
\<close>

section \<open>Where the library is looked for\<close>

text \<open>
  The environment of the search: the variables, the files that exist, and the entries of the
  directories that can be read.
\<close>

record search_env =
  current_exe :: "string option"
  home_var :: "string option"
  file_exists :: "string \<Rightarrow> bool"
  read_dir :: "string \<Rightarrow> string list option"

text \<open>
  Entries of one directory in descending order of their names, byte by byte, as \<open>sort_by\<close> with the
  arguments of \<open>cmp\<close> exchanged gives them.
\<close>

fun name_less :: "string \<Rightarrow> string \<Rightarrow> bool" where
  "name_less s [] = False"
| "name_less [] (d # ds) = True"
| "name_less (c # cs) (d # ds) = (code c < code d \<or> code c = code d \<and> name_less cs ds)"

fun insert_descending :: "string \<Rightarrow> string list \<Rightarrow> string list" where
  "insert_descending x [] = [x]"
| "insert_descending x (y # ys) = (if name_less x y then y # insert_descending x ys else x # y # ys)"

definition descending :: "string list \<Rightarrow> string list" where
  "descending names = foldr insert_descending names []"

definition runtime_dirs :: "search_env \<Rightarrow> string \<Rightarrow> string list" where
  "runtime_dirs E base =
     (case read_dir E base of None \<Rightarrow> [] | Some names \<Rightarrow> map (path_push base) (descending names))"

definition beside_executable :: "search_env \<Rightarrow> string list \<Rightarrow> string list" where
  "beside_executable E names =
     (case Option.bind (current_exe E) parent of
        None \<Rightarrow> [] | Some dir \<Rightarrow> map (path_push dir) names)"

definition under_home :: "search_env \<Rightarrow> (string \<Rightarrow> string list) \<Rightarrow> string list" where
  "under_home E f = (case home_var E of None \<Rightarrow> [] | Some home \<Rightarrow> f home)"

definition unix_names :: "string list" where
  "unix_names = [''libmsquic.so'', ''libmsquic.so.2'']"

definition unix_candidates :: "search_env \<Rightarrow> string list" where
  "unix_candidates E =
     beside_executable E unix_names
     @ under_home E (\<lambda>home. map (path_push (path_push home ''.local/lib'')) unix_names)
     @ [''/usr/local/lib/libmsquic.so'', ''/usr/local/lib/libmsquic.so.2'',
        ''/usr/lib/x86_64-linux-gnu/libmsquic.so'', ''/usr/lib/x86_64-linux-gnu/libmsquic.so.2'',
        ''/usr/lib/libmsquic.so'', ''/usr/lib/libmsquic.so.2'',
        ''/opt/quiczilla/libmsquic.so'', ''/opt/quiczilla/libmsquic.so.2'']
     @ map (\<lambda>dir. path_push dir ''libmsquic.so'') (runtime_dirs E ''/usr/share/dotnet/shared/Microsoft.NETCore.App'')
     @ under_home E (\<lambda>home. map (\<lambda>dir. path_push dir ''libmsquic.so'')
         (runtime_dirs E (path_push home ''.dotnet/shared/Microsoft.NETCore.App'')))"

definition first_existing :: "search_env \<Rightarrow> string \<Rightarrow> string list \<Rightarrow> string" where
  "first_existing E bare candidates =
     (case find (file_exists E) candidates of None \<Rightarrow> bare | Some p \<Rightarrow> p)"

definition find_msquic_library :: "search_env \<Rightarrow> string" where
  "find_msquic_library E = first_existing E ''libmsquic.so'' (unix_candidates E)"

text \<open>
  The search on Windows: \<open>exe_dir\<close> is the directory of the executable, and paths are joined with a
  backslash. Directories of runtimes are candidates only if the library is there.
\<close>

definition backslash :: char where "backslash = CHR 0x5C"

definition win_push :: "string \<Rightarrow> string \<Rightarrow> string" where
  "win_push p q = (if p = [] \<or> last p \<in> {backslash, slash} then p @ q else p @ [backslash] @ q)"

definition win_runtimes :: string where
  "win_runtimes =
     join_with [backslash] [''C:'', ''Program Files'', ''dotnet'', ''shared'', ''Microsoft.NETCore.App'']"

definition windows_candidates :: "search_env \<Rightarrow> string option \<Rightarrow> string list" where
  "windows_candidates E exe_dir =
     (case exe_dir of None \<Rightarrow> [] | Some dir \<Rightarrow> [win_push dir ''msquic.dll''])
     @ ''msquic.dll'' # map (\<lambda>v. win_push (win_push win_runtimes v) ''msquic.dll'') [''9.0.20'', ''9.0.19'', ''8.0.31'', ''8.0.11'']
     @ (case read_dir E win_runtimes of
          None \<Rightarrow> []
        | Some names \<Rightarrow>
            filter (file_exists E)
              (map (\<lambda>v. win_push (win_push win_runtimes v) ''msquic.dll'') (descending names)))"

definition find_windows_library :: "search_env \<Rightarrow> string option \<Rightarrow> string" where
  "find_windows_library E exe_dir = first_existing E ''msquic.dll'' (windows_candidates E exe_dir)"

text \<open>
  What the sources promise of the order (newer runtimes first) holds of names, not of versions:
  runtime 6 is taken before runtime 10.
\<close>

definition two_runtimes :: search_env where
  "two_runtimes = \<lparr>current_exe = None, home_var = None,
     file_exists = (\<lambda>p. p \<in> {''/usr/share/dotnet/shared/Microsoft.NETCore.App/6.0.1/libmsquic.so'',
       ''/usr/share/dotnet/shared/Microsoft.NETCore.App/10.0.0/libmsquic.so''}),
     read_dir = (\<lambda>d. if d = ''/usr/share/dotnet/shared/Microsoft.NETCore.App''
       then Some [''10.0.0'', ''6.0.1''] else None)\<rparr>"

lemma older_runtime_first:
  "find_msquic_library two_runtimes = ''/usr/share/dotnet/shared/Microsoft.NETCore.App/6.0.1/libmsquic.so''"
  by code_simp

section \<open>One call of get_api\<close>

text \<open>
  A table is known by the path of its library and an address. What a library at a path answers:
  \<open>None\<close> when it cannot be loaded or lacks \<open>MsQuicOpenVersion\<close>, else the status and the table,
  which may be null.
\<close>

type_synonym api_table = "string \<times> nat"

type_synonym dynamic_loader = "string \<Rightarrow> (u32 \<times> nat option) option"

datatype loader_error = CannotLoad string | OpenFailed u32 | NullTable

record loader =
  lib_holder :: "string option"
  api_cell :: "api_table option"

definition set_once :: "'a \<Rightarrow> 'a option \<Rightarrow> 'a option" where
  "set_once a cell = (case cell of None \<Rightarrow> Some a | Some b \<Rightarrow> Some b)"

lemma set_once_simps [simp]: "set_once a None = Some a" "set_once a (Some b) = Some b"
  by (simp_all add: set_once_def)

definition open_library :: "dynamic_loader \<Rightarrow> string \<Rightarrow> loader_error + api_table" where
  "open_library lib path =
     rbind (ok_or (CannotLoad path) (lib path)) (\<lambda>(status, answer).
     rbind (ensure (status = 0) (OpenFailed status)) (\<lambda>_.
     rbind (ok_or NullTable answer) (\<lambda>t. Inr (path, t))))"

definition get_api :: "search_env \<Rightarrow> dynamic_loader \<Rightarrow> loader \<Rightarrow> (loader_error + api_table) \<times> loader" where
  "get_api E lib s =
     (case api_cell s of
        Some t \<Rightarrow> (Inr t, s)
      | None \<Rightarrow>
          (let lib_path = find_msquic_library E in
           case open_library lib lib_path of
             Inl e \<Rightarrow> (Inl e, s)
           | Inr t \<Rightarrow> (Inr t, s\<lparr>lib_holder := set_once lib_path (lib_holder s), api_cell := set_once t (api_cell s)\<rparr>)))"

lemma open_library_path: "open_library lib path = Inr t \<Longrightarrow> fst t = path"
proof (cases "lib path")
  case (Some r)
  then show "open_library lib path = Inr t \<Longrightarrow> fst t = path"
    by (cases r; cases "snd r"; cases "fst r = 0") (auto simp: open_library_def ok_or_def ensure_def)
qed (simp add: open_library_def ok_or_def)

text \<open>Once a call has succeeded, every later call gives the same table and changes nothing.\<close>

lemma get_api_once:
  assumes "get_api E lib s = (Inr t, s')" shows "get_api E' lib' s' = (Inr t, s')"
proof -
  have "api_cell s' = Some t"
  proof (cases "api_cell s")
    case None
    note run = assms[unfolded get_api_def None option.case Let_def]
    show ?thesis
    proof (cases "open_library lib (find_msquic_library E)")
      case (Inr u)
      then show ?thesis using run None by auto
    qed (use run in simp)
  qed (use assms in \<open>simp add: get_api_def\<close>)
  then show ?thesis by (simp add: get_api_def)
qed

section \<open>Several threads\<close>

text \<open>
  The steps of \<open>get_api\<close> that other threads can interleave with: the look at the cell, the loading,
  \<open>LIB_HOLDER.set\<close> (which drops the handle when the cell is taken) and \<open>API_TABLE.set\<close>. A thread
  returns the table it opened itself.
\<close>

datatype loader_pc = Calling | Opened api_table | Holding api_table | Returned api_table | Failed loader_error

record threads = loader +
  pc :: "nat \<Rightarrow> loader_pc"

definition goto :: "nat \<Rightarrow> loader_pc \<Rightarrow> threads \<Rightarrow> threads" where
  "goto i q s = s\<lparr>pc := (pc s)(i := q)\<rparr>"

inductive loader_step :: "dynamic_loader \<Rightarrow> (string \<Rightarrow> bool) \<Rightarrow> threads \<Rightarrow> threads \<Rightarrow> bool"
  for lib :: dynamic_loader and found :: "string \<Rightarrow> bool" where
  cached: "pc s i = Calling \<Longrightarrow> api_cell s = Some t \<Longrightarrow> loader_step lib found s (goto i (Returned t) s)"
| opens: "pc s i = Calling \<Longrightarrow> api_cell s = None \<Longrightarrow> found p \<Longrightarrow> open_library lib p = Inr t \<Longrightarrow>
    loader_step lib found s (goto i (Opened t) s)"
| fails: "pc s i = Calling \<Longrightarrow> api_cell s = None \<Longrightarrow> found p \<Longrightarrow> open_library lib p = Inl e \<Longrightarrow>
    loader_step lib found s (goto i (Failed e) s)"
| holds: "pc s i = Opened t \<Longrightarrow>
    loader_step lib found s (goto i (Holding t) (s\<lparr>lib_holder := set_once (fst t) (lib_holder s)\<rparr>))"
| publishes: "pc s i = Holding t \<Longrightarrow>
    loader_step lib found s (goto i (Returned t) (s\<lparr>api_cell := set_once t (api_cell s)\<rparr>))"

inductive loader_reachable :: "dynamic_loader \<Rightarrow> (string \<Rightarrow> bool) \<Rightarrow> threads \<Rightarrow> bool"
  for lib :: dynamic_loader and found :: "string \<Rightarrow> bool" where
  start: "loader_reachable lib found \<lparr>lib_holder = None, api_cell = None, pc = (\<lambda>_. Calling)\<rparr>"
| step: "loader_reachable lib found s \<Longrightarrow> loader_step lib found s s' \<Longrightarrow> loader_reachable lib found s'"

text \<open>A call that nobody interrupts takes these steps to the result and the cells of \<open>get_api\<close>.\<close>

lemma loader_steps_call:
  assumes "pc s i = Calling" "get_api E lib (loader.truncate s) = (r, cells)"
  shows "\<exists>s'. (loader_step lib (\<lambda>p. p = find_msquic_library E))\<^sup>*\<^sup>* s s' \<and> loader.truncate s' = cells
     \<and> pc s' i = (case r of Inl e \<Rightarrow> Failed e | Inr t \<Rightarrow> Returned t)"
proof (cases "api_cell s")
  case (Some t)
  then have "loader_step lib (\<lambda>p. p = find_msquic_library E) s (goto i (Returned t) s)"
    using assms(1) by (rule loader_step.cached[rotated])
  moreover have "r = Inr t" "cells = loader.truncate s"
    using assms(2) Some by (simp_all add: get_api_def loader.defs)
  ultimately show ?thesis
    by (intro exI[of _ "goto i (Returned t) s"]) (simp add: goto_def loader.defs r_into_rtranclp)
next
  case None
  let ?p = "find_msquic_library E" and ?step = "loader_step lib (\<lambda>p. p = find_msquic_library E)"
  show ?thesis
  proof (cases "open_library lib ?p")
    case (Inl e)
    then have "?step s (goto i (Failed e) s)"
      using assms(1) None by (intro loader_step.fails) simp_all
    moreover have "r = Inl e" "cells = loader.truncate s"
      using assms(2) None Inl by (simp_all add: get_api_def loader.defs)
    ultimately show ?thesis
      by (intro exI[of _ "goto i (Failed e) s"]) (simp add: goto_def loader.defs r_into_rtranclp)
  next
    case (Inr t)
    let ?s1 = "goto i (Opened t) s"
    let ?s2 = "goto i (Holding t) (?s1\<lparr>lib_holder := set_once (fst t) (lib_holder ?s1)\<rparr>)"
    let ?s3 = "goto i (Returned t) (?s2\<lparr>api_cell := set_once t (api_cell ?s2)\<rparr>)"
    have "?step s ?s1" using assms(1) None Inr by (intro loader_step.opens) simp_all
    moreover have "?step ?s1 ?s2" by (rule loader_step.holds) (simp add: goto_def)
    moreover have "?step ?s2 ?s3" by (rule loader_step.publishes) (simp add: goto_def)
    ultimately have "?step\<^sup>*\<^sup>* s ?s3" by (meson converse_rtranclp_into_rtranclp r_into_rtranclp)
    moreover have "r = Inr t" "cells = loader.truncate ?s3"
      using assms(2) None Inr open_library_path[OF Inr] by (auto simp: get_api_def loader.defs goto_def)
    ultimately show ?thesis by (intro exI[of _ ?s3]) (simp add: goto_def)
  qed
qed

text \<open>What holds of every thread, given the path whose library is kept.\<close>

fun pc_ok :: "string \<Rightarrow> string option \<Rightarrow> loader_pc \<Rightarrow> bool" where
  "pc_ok path kept Calling = True"
| "pc_ok path kept (Opened t) = (fst t = path)"
| "pc_ok path kept (Holding t) = (fst t = path \<and> kept = Some path)"
| "pc_ok path kept (Returned t) = (fst t = path \<and> kept = Some path)"
| "pc_ok path kept (Failed e) = True"

definition loader_inv :: "string \<Rightarrow> threads \<Rightarrow> bool" where
  "loader_inv path s \<longleftrightarrow>
     lib_holder s \<in> {None, Some path} \<and> (\<forall>i. pc_ok path (lib_holder s) (pc s i))
     \<and> pred_option (\<lambda>t. fst t = path \<and> lib_holder s = Some path) (api_cell s)"

lemma pc_ok_kept: "pc_ok path kept q \<Longrightarrow> pc_ok path (Some path) q"
  by (cases q) auto

lemma loader_inv_goto:
  "loader_inv path s \<Longrightarrow> pc_ok path (lib_holder s) q \<Longrightarrow> loader_inv path (goto i q s)"
  by (simp add: loader_inv_def goto_def)

lemma loader_inv_hold:
  assumes "loader_inv path s"
  shows "lib_holder (s\<lparr>lib_holder := set_once path (lib_holder s)\<rparr>) = Some path"
    "loader_inv path (s\<lparr>lib_holder := set_once path (lib_holder s)\<rparr>)"
proof -
  have kept: "set_once path (lib_holder s) = Some path"
    using assms by (auto simp: loader_inv_def)
  then show "lib_holder (s\<lparr>lib_holder := set_once path (lib_holder s)\<rparr>) = Some path" by simp
  show "loader_inv path (s\<lparr>lib_holder := set_once path (lib_holder s)\<rparr>)"
    using assms by (cases "api_cell s") (auto simp: loader_inv_def kept intro: pc_ok_kept)
qed

lemma loader_inv_publish:
  "loader_inv path s \<Longrightarrow> fst t = path \<Longrightarrow> lib_holder s = Some path \<Longrightarrow>
     loader_inv path (s\<lparr>api_cell := set_once t (api_cell s)\<rparr>)"
  by (cases "api_cell s") (auto simp: loader_inv_def set_once_def)

lemma loader_inv_pc: "loader_inv path s \<Longrightarrow> pc s i = q \<Longrightarrow> pc_ok path (lib_holder s) q"
  by (auto simp: loader_inv_def)

lemma loader_inv_step:
  assumes "loader_step lib found s s'" "\<And>p. found p \<Longrightarrow> p = path" "loader_inv path s"
  shows "loader_inv path s'"
  using assms(1)
proof cases
  case (cached i t)
  then have "fst t = path \<and> lib_holder s = Some path" using assms(3) by (simp add: loader_inv_def)
  then show ?thesis using cached assms(3) by (simp add: loader_inv_goto)
next
  case (opens i p t)
  then show ?thesis using assms(2,3) open_library_path[of lib p t] by (auto intro!: loader_inv_goto)
next
  case (fails i p e)
  then show ?thesis using assms(3) by (auto intro!: loader_inv_goto)
next
  case (holds i t)
  then have t: "fst t = path" using loader_inv_pc[OF assms(3), of i] by simp
  show ?thesis
    using loader_inv_hold[OF assms(3)] t unfolding holds by (intro loader_inv_goto) simp_all
next
  case (publishes i t)
  then have t: "fst t = path" "lib_holder s = Some path" using loader_inv_pc[OF assms(3), of i] by simp_all
  show ?thesis
    unfolding publishes using loader_inv_publish[OF assms(3) t] t by (intro loader_inv_goto) simp_all
qed

lemma loader_inv_reachable:
  "loader_reachable lib found s \<Longrightarrow> (\<And>p. found p \<Longrightarrow> p = path) \<Longrightarrow> loader_inv path s"
  by (induction rule: loader_reachable.induct) (simp add: loader_inv_def, blast intro: loader_inv_step)

text \<open>
  C38: No thread gets a table of an unloaded library. However many threads call \<open>get_api\<close> at the same
  time and however their steps interleave, as long as they find the library at one path: every
  table a call has returned, and the one in the cell, belongs to the library whose handle is kept
  for the rest of the process.
\<close>

theorem returned_tables_stay_loaded:
  assumes "loader_reachable lib (\<lambda>p. p = find_msquic_library E) s"
    and "pc s i = Returned t \<or> api_cell s = Some t"
  shows "fst t = find_msquic_library E \<and> lib_holder s = Some (fst t)"
proof -
  have inv: "loader_inv (find_msquic_library E) s" by (rule loader_inv_reachable[OF assms(1)])
  show ?thesis using assms(2)
  proof
    assume "pc s i = Returned t"
    then show ?thesis using loader_inv_pc[OF inv] by fastforce
  next
    assume "api_cell s = Some t"
    then show ?thesis using inv by (simp add: loader_inv_def)
  qed
qed

definition demo_lib :: dynamic_loader where
  "demo_lib = (\<lambda>p. Some (0, Some 64))"

lemmas reach = loader_reachable.step[OF _ loader_step.opens] loader_reachable.step[OF _ loader_step.holds]
  loader_reachable.step[OF _ loader_step.publishes]

text \<open>Two threads open the library before either has stored it; the first one returns.\<close>

theorem returned_tables_stay_loaded_witness:
  "\<exists>s. loader_reachable demo_lib (\<lambda>p. p = find_msquic_library two_runtimes) s
     \<and> pc s 0 = Returned (find_msquic_library two_runtimes, 64)
     \<and> pc s 1 = Opened (find_msquic_library two_runtimes, 64)
     \<and> lib_holder s = Some (find_msquic_library two_runtimes)"
proof -
  let ?p = "find_msquic_library two_runtimes"
  let ?found = "\<lambda>p. p = ?p"
  have o: "open_library demo_lib ?p = Inr (?p, 64)"
    by (simp add: open_library_def demo_lib_def ok_or_def ensure_def)
  note s1 = reach(1)[OF loader_reachable.start, where found = ?found, OF _ _ refl o, of 0, simplified]
  note s2 = reach(1)[OF s1 _ _ refl o, of 1, simplified goto_def, simplified]
  note s3 = reach(2)[OF s2, of 0 "(?p, 64)", simplified goto_def, simplified]
  note s4 = reach(3)[OF s3, of 0 "(?p, 64)", simplified goto_def, simplified]
  from returned_tables_stay_loaded[OF s4, of 0 "(?p, 64)"] s4 show ?thesis
    by (intro exI conjI) (assumption, simp_all)
qed

end
