(* ===== verification/Spec2Isabelle.thy ===== *)
theory Spec2Isabelle
  imports Directory_Properties Peer_Properties Cli_Transfers Cert_Windows Cli_Progress Msquic_Loader
begin

text \<open>
  A verification library for quiczilla, a program for encrypted transfers between two hosts over
  QUIC. The sources are Rust: the library \<open>core/src\<close>, the remote worker and daemon
  \<open>worker/src/main.rs\<close> and the command line client \<open>cli/src/main.rs\<close>.

  How the program works. The client starts a worker on the remote host over \<open>ssh\<close>, passing its own
  certificate thumbprint; the worker announces its port and thumbprint on one JSON line. The
  client chooses a QUIC candidate, both sides accept only the pinned certificate, and the first byte
  of every stream names its purpose: control, file, directory or pipe. A file session negotiates
  over the control stream and moves the bytes over the file stream; a directory is one framed
  stream with an acknowledgement; a pipe copies standard input and output. Without QUIC the client
  falls back to a plain \<open>ssh\<close> command.

  The theories, from the bottom up.

  Foundations. \<open>Prelude\<close>: results, Rust strings as UTF-8 byte strings, ASCII, decimal and hexadecimal
  texts, the scan of argument lists. \<open>Rust_Io\<close>: readers and writers with arbitrary fragmentation,
  big-endian words; the locales \<open>codec\<close> and \<open>canonical_codec\<close>. \<open>Rust_Path\<close>: components, joins and parents
  of paths. \<open>Result_State\<close>: fallible operations on a state, with the locale \<open>effect\<close> that carries a bound
  on effects through whole procedures. \<open>File_System\<close>: a tree of files, directories and symbolic links.

  Protocol and transfers. \<open>Protocol_Types\<close> (\<open>types.rs\<close>): control messages and hashes.
  \<open>Directory_Wire\<close>, \<open>Directory_Send\<close>, \<open>Directory_Receive\<close> (\<open>directory.rs\<close>): frames, sender and receiver;
  \<open>Directory_Roundtrip\<close> and \<open>Directory_Properties\<close> prove that a directory arrives exactly, that nothing else
  on the disk changes whatever the peer sends, and that the sender refines an abstract list
  of frames. \<open>Peer_Core\<close> (\<open>peer_generic.rs\<close>, \<open>peer.rs\<close>): the coordinator, its handlers and its loops;
  \<open>Peer_Tasks\<close>: the control, sending and receiving tasks; \<open>Peer_Session\<close> composes two coordinators;
  \<open>Peer_Properties\<close>: fresh, resumed and restarted sessions deliver the file, success is verified, failures
  leave the destination alone, counts and offsets stay bounded. \<open>Progress_Meter\<close>: the speed estimates
  and progress reports of the sending and the receiving task, on the floating point numbers of \<open>Float64\<close>.

  Transport. \<open>Cert\<close> (\<open>cert.rs\<close>): thumbprints, verifiers, identities; the locale \<open>pin_check\<close> is
  the contract of every place that compares a pin. \<open>Cert_Windows\<close>: the identity kept in the certificate
  store of Windows, and the \<open>rustls\<close> configurations. \<open>Stun\<close> (\<open>stun.rs\<close>): the request and the parser of responses.
  \<open>Msquic_Stream\<close> (\<open>msquic/stream.rs\<close>): the shared state of a stream, the callback and the polls as
  a step relation over any interleaving; order, bounds, wakeups, and the refinement to the readers of
  \<open>Rust_Io\<close> (locale \<open>byte_reader\<close>). \<open>Msquic_Engine\<close> (\<open>msquic/engine.rs\<close>): handles, configurations, connection
  events, listeners. \<open>Msquic_Loader\<close> (\<open>msquic/ffi.rs\<close>): where the library is looked for, and the two
  cells of \<open>get_api\<close> with any number of threads. \<open>Pipe\<close> (\<open>pipe.rs\<close>, \<open>client.rs\<close>, \<open>server.rs\<close>): pipes and the pairing of the two streams
  of a session (locale \<open>stream_pairing\<close>, also interpreted by the worker).

  Programs. \<open>Worker\<close>: arguments, allow-list, start, choice of the session, policy on offers.
  \<open>Cli_Options\<close>: options, exit codes, dispatch. \<open>Cli_Race\<close>: the choice of the candidate. \<open>Cli_Shell\<close>: the texts
  handed to the remote shell, against a specification of its token recognition. \<open>Cli_Bootstrap\<close>: the start of the
  worker, as a log of \<open>ssh\<close> calls. \<open>Cli_Fallback\<close>: the transfer over \<open>ssh\<close>. \<open>Cli_Session\<close>: local candidate, worker
  arguments and event loops (locale \<open>event_loop\<close>, interpreted by both loops). \<open>Cli_Transfers\<close>: the commands
  from their arguments to the end of the process. \<open>Cli_Progress\<close> (\<open>cli/src/progress.rs\<close>): the progress
  display, against a terminal that reads its output.

  Correspondence. Definitions keep the names of the source functions and the order of their checks;
  an early return or an error is a branch of a sum, a panic a value of its own. An \<open>async fn\<close> that
  is one thread of control is a function; the loops over \<open>select!\<close> take the list of the branches that
  were ready, in the order they were taken, so that a theorem about every list is one about every schedule.
  Words have the width of the source. Floating point numbers are rationals, rounded to 53 bits, ties to
  even, after every operation; that is exact for the finite numbers in the normal range the program
  computes with. The callback threads of MsQuic are the step relations
  \<open>stream_run\<close> and \<open>conn_run\<close>, the threads in \<open>get_api\<close> the relation \<open>loader_step\<close>.

  Parameters. Code outside the repository is an argument: SHA-1, SHA-256 and hexadecimal
  encoders, the JSON parser, the certificate generator, the MsQuic library, sockets and the remote host, the
  \<open>clap\<close> parsers, the parser and printer of socket addresses, the texts of system errors. What a
  theorem needs of them is a named hypothesis (\<open>json_ok\<close>, \<open>pki_laws\<close>, \<open>address_law\<close>, \<open>hex_laws\<close>), and every
  theorem with a hypothesis has a witness where it holds.

  Bounds and termination. Recursion follows the data wherever it can; the loops over streams are
  measured by the bytes still pending, the STUN loop by the bytes behind its offset, symbolic links by the
  kernel's limit of forty. There is no fuel that a result depends on: every definition is total,
  and a session that still waits has the explicit value for it. The race of candidates is proved to end
  within five turns.

  Not modelled: the generated bindings of MsQuic (declarations only); the certificate generator and the checks
  of handshake signatures (library calls); in the sessions, the calls that only print (receipts with
  rates, log lines, usage texts), the keyboard thread and the terminal mode; the declarations of the
  \<open>clap\<close> parsers; the fuzz targets, benchmarks, tests, the C# reference program and the scripts.
  Progress reports are modelled in \<open>Progress_Meter\<close>, beside the jobs of \<open>Peer_Tasks\<close>, which keep only the last
  one. Timers appear only as the events they cause.
\<close>

end
